(* ===== verification/Prelude.thy ===== *)
theory Prelude
  imports Main "HOL-Library.Word"
begin

text \<open>
  Shared vocabulary of the development: the machine types of the C++ sources, the
  \<^verbatim>\<open>std::map\<close> idioms, and generic list facts used by several components.
\<close>

section \<open>Machine types\<close>

type_synonym u8 = "8 word"
type_synonym u16 = "16 word"
type_synonym u32 = "32 word"
type_synonym time_t = int
type_synonym bytes = "u8 list"

text \<open>Facts that characterise an operation on a well-formed state.\<close>

named_theorems inv_intros \<open>introduction rules for component invariants\<close>

end
