(* ===== verification/Permissions.thy ===== *)
theory Permissions
  imports Prelude
begin

text \<open>
  Permissions, permission tests and the table that gives each user type its permissions:
  \<^verbatim>\<open>include/permissions.h\<close>, \<^verbatim>\<open>src/permissions.C\<close>, \<^verbatim>\<open>include/permissionmap.h\<close>,
  \<^verbatim>\<open>src/permissionmap.C\<close> and the user types of \<^verbatim>\<open>include/misc.h\<close>.
\<close>

unbundle bit_operations_syntax

section \<open>User types\<close>

datatype UserType =
    USER_TYPE_NONE
  | USER_TYPE_ADMIN
  | USER_TYPE_JUDGE
  | USER_TYPE_CONTESTANT
  | USER_TYPE_MARKER
  | USER_TYPE_OBSERVER
  | USER_TYPE_PROCTOR

text \<open>
  The numeric value of the enumeration. The sources cast freely between the enumeration
  and \<^verbatim>\<open>uint32_t\<close> (database columns, message fields, the mask loop of
  \<^verbatim>\<open>PermissionMap::allow\<close>), so tables indexed by a user type are indexed by this value.
\<close>

fun user_type_code :: "UserType \<Rightarrow> nat" where
  "user_type_code USER_TYPE_NONE = 0"
| "user_type_code USER_TYPE_ADMIN = 1"
| "user_type_code USER_TYPE_JUDGE = 2"
| "user_type_code USER_TYPE_CONTESTANT = 3"
| "user_type_code USER_TYPE_MARKER = 4"
| "user_type_code USER_TYPE_OBSERVER = 5"
| "user_type_code USER_TYPE_PROCTOR = 6"

definition user_mask :: "UserType \<Rightarrow> u32" where
  "user_mask t = push_bit (user_type_code t) 1"

definition USER_MASK_NONE :: u32 where "USER_MASK_NONE = user_mask USER_TYPE_NONE"
definition USER_MASK_ADMIN :: u32 where "USER_MASK_ADMIN = user_mask USER_TYPE_ADMIN"
definition USER_MASK_JUDGE :: u32 where "USER_MASK_JUDGE = user_mask USER_TYPE_JUDGE"
definition USER_MASK_CONTESTANT :: u32 where
  "USER_MASK_CONTESTANT = user_mask USER_TYPE_CONTESTANT"
definition USER_MASK_MARKER :: u32 where "USER_MASK_MARKER = user_mask USER_TYPE_MARKER"
definition USER_MASK_OBSERVER :: u32 where "USER_MASK_OBSERVER = user_mask USER_TYPE_OBSERVER"
definition USER_MASK_PROCTOR :: u32 where "USER_MASK_PROCTOR = user_mask USER_TYPE_PROCTOR"

definition USER_MASK_ALL :: u32 where
  "USER_MASK_ALL = USER_MASK_ADMIN OR USER_MASK_JUDGE OR USER_MASK_CONTESTANT OR
     USER_MASK_MARKER OR USER_MASK_OBSERVER OR USER_MASK_PROCTOR"

definition USER_MASK_NOMARKER :: u32 where
  "USER_MASK_NOMARKER = USER_MASK_ALL AND NOT USER_MASK_MARKER"

definition USER_MASK_MANAGER :: u32 where
  "USER_MASK_MANAGER = USER_MASK_JUDGE OR USER_MASK_ADMIN"

lemmas user_mask_defs = USER_MASK_NONE_def USER_MASK_ADMIN_def USER_MASK_JUDGE_def
  USER_MASK_CONTESTANT_def USER_MASK_MARKER_def USER_MASK_OBSERVER_def USER_MASK_PROCTOR_def
  USER_MASK_ALL_def USER_MASK_NOMARKER_def USER_MASK_MANAGER_def user_mask_def

section \<open>Permissions\<close>

datatype Permission =
    PERMISSION_INVALID
  | PERMISSION_AUTH
  | PERMISSION_SUBMIT
  | PERMISSION_CLARIFICATION_REQUEST
  | PERMISSION_CLARIFICATION_REPLY
  | PERMISSION_CHANGE_PASSWORD
  | PERMISSION_IN_STANDINGS
  | PERMISSION_SEE_STANDINGS
  | PERMISSION_SEE_ALL_STANDINGS
  | PERMISSION_SEE_FINAL_STANDINGS
  | PERMISSION_SEE_ALL_CLARIFICATION_REQUESTS
  | PERMISSION_SEE_ALL_CLARIFICATIONS
  | PERMISSION_SEE_ALL_SUBMISSIONS
  | PERMISSION_SEE_ALL_PROBLEMS
  | PERMISSION_SEE_PROBLEM_DETAILS
  | PERMISSION_SEE_SUBMISSION_DETAILS
  | PERMISSION_SEE_USER_ID
  | PERMISSION_MARK
  | PERMISSION_JUDGE
  | PERMISSION_JUDGE_OVERRIDE
  | PERMISSION_SET_BONUS
  | PERMISSION_USER_ADMIN
  | PERMISSION_PROBLEM_ADMIN
  | PERMISSION_SERVER_ADMIN
  | PERMISSION_START_STOP

text \<open>The real permissions in the order of the enumeration: position is value.\<close>

definition all_permissions :: "Permission list" where
  "all_permissions = [
     PERMISSION_AUTH, PERMISSION_SUBMIT, PERMISSION_CLARIFICATION_REQUEST,
     PERMISSION_CLARIFICATION_REPLY, PERMISSION_CHANGE_PASSWORD, PERMISSION_IN_STANDINGS,
     PERMISSION_SEE_STANDINGS, PERMISSION_SEE_ALL_STANDINGS, PERMISSION_SEE_FINAL_STANDINGS,
     PERMISSION_SEE_ALL_CLARIFICATION_REQUESTS, PERMISSION_SEE_ALL_CLARIFICATIONS,
     PERMISSION_SEE_ALL_SUBMISSIONS, PERMISSION_SEE_ALL_PROBLEMS,
     PERMISSION_SEE_PROBLEM_DETAILS, PERMISSION_SEE_SUBMISSION_DETAILS,
     PERMISSION_SEE_USER_ID, PERMISSION_MARK, PERMISSION_JUDGE, PERMISSION_JUDGE_OVERRIDE,
     PERMISSION_SET_BONUS, PERMISSION_USER_ADMIN, PERMISSION_PROBLEM_ADMIN,
     PERMISSION_SERVER_ADMIN, PERMISSION_START_STOP]"

fun permission_code :: "Permission \<Rightarrow> int" where
  "permission_code PERMISSION_INVALID = - 1"
| "permission_code PERMISSION_AUTH = 0"
| "permission_code PERMISSION_SUBMIT = 1"
| "permission_code PERMISSION_CLARIFICATION_REQUEST = 2"
| "permission_code PERMISSION_CLARIFICATION_REPLY = 3"
| "permission_code PERMISSION_CHANGE_PASSWORD = 4"
| "permission_code PERMISSION_IN_STANDINGS = 5"
| "permission_code PERMISSION_SEE_STANDINGS = 6"
| "permission_code PERMISSION_SEE_ALL_STANDINGS = 7"
| "permission_code PERMISSION_SEE_FINAL_STANDINGS = 8"
| "permission_code PERMISSION_SEE_ALL_CLARIFICATION_REQUESTS = 9"
| "permission_code PERMISSION_SEE_ALL_CLARIFICATIONS = 10"
| "permission_code PERMISSION_SEE_ALL_SUBMISSIONS = 11"
| "permission_code PERMISSION_SEE_ALL_PROBLEMS = 12"
| "permission_code PERMISSION_SEE_PROBLEM_DETAILS = 13"
| "permission_code PERMISSION_SEE_SUBMISSION_DETAILS = 14"
| "permission_code PERMISSION_SEE_USER_ID = 15"
| "permission_code PERMISSION_MARK = 16"
| "permission_code PERMISSION_JUDGE = 17"
| "permission_code PERMISSION_JUDGE_OVERRIDE = 18"
| "permission_code PERMISSION_SET_BONUS = 19"
| "permission_code PERMISSION_USER_ADMIN = 20"
| "permission_code PERMISSION_PROBLEM_ADMIN = 21"
| "permission_code PERMISSION_SERVER_ADMIN = 22"
| "permission_code PERMISSION_START_STOP = 23"

definition PERMISSION_COUNT :: nat where
  "PERMISSION_COUNT = nat (permission_code PERMISSION_START_STOP) + 1"

definition permission_names :: "string list" where
  "permission_names = [
     ''auth'', ''submit'', ''clarification_request'', ''clarification_reply'',
     ''change_password'', ''in_standings'', ''see_standings'', ''see_all_standings'',
     ''see_final_standings'', ''see_all_clarification_requests'',
     ''see_all_clarifications'', ''see_all_submissions'', ''see_all_problems'',
     ''see_problem_details'', ''see_submission_details'', ''see_user_id'', ''mark'',
     ''judge'', ''judge_override'', ''set_bonus'', ''user_admin'', ''problem_admin'',
     ''server_admin'', ''start_stop'']"


text \<open>
  \<^verbatim>\<open>assert(static_cast<size_t>(perm) < PERMISSION_COUNT)\<close>: the cast makes the invalid
  permission huge, so it is the assertion failure, the value None.
\<close>

definition permission_index :: "Permission \<Rightarrow> nat option" where
  "permission_index p =
     (if 0 \<le> permission_code p \<and> permission_code p < int PERMISSION_COUNT
      then Some (nat (permission_code p)) else None)"

definition getPermissionName :: "Permission \<Rightarrow> string option" where
  "getPermissionName p = map_option (\<lambda>i. permission_names ! i) (permission_index p)"

fun find_permission :: "string \<Rightarrow> (string \<times> Permission) list \<Rightarrow> Permission" where
  "find_permission name [] = PERMISSION_INVALID"
| "find_permission name ((n, p) # rest) =
     (if name = n then p else find_permission name rest)"

definition getPermissionValue :: "string \<Rightarrow> Permission" where
  "getPermissionValue name = find_permission name (zip permission_names all_permissions)"

section \<open>Permission sets and tests\<close>

text \<open>\<^verbatim>\<open>PermissionSet\<close> is a vector of \<^const>\<open>PERMISSION_COUNT\<close> booleans.\<close>

type_synonym PermissionSet = "bool list"

definition empty_set :: PermissionSet where
  "empty_set = replicate PERMISSION_COUNT False"

text \<open>Reading or writing the vector at the invalid permission is out of range: None.\<close>

definition ps_get :: "PermissionSet \<Rightarrow> Permission \<Rightarrow> bool option" where
  "ps_get ps p = (case permission_index p of
       None \<Rightarrow> None
     | Some i \<Rightarrow> if i < length ps then Some (ps ! i) else None)"

definition ps_set :: "PermissionSet \<Rightarrow> Permission \<Rightarrow> PermissionSet option" where
  "ps_set ps p = (case permission_index p of
       None \<Rightarrow> None
     | Some i \<Rightarrow> if i < length ps then Some (ps[i := True]) else None)"

datatype PermissionTest =
    PT_NONE
  | PT_ANY
  | PT_BASE Permission
  | PT_OR PermissionTest PermissionTest
  | PT_AND PermissionTest PermissionTest
  | PT_NOT PermissionTest

text \<open>
  \<^verbatim>\<open>PermissionTest::matches\<close> with the short-circuit evaluation of \<^verbatim>\<open>||\<close> and \<^verbatim>\<open>&&\<close>:
  the right operand is only evaluated when the left one does not decide.
\<close>

fun matches :: "PermissionTest \<Rightarrow> PermissionSet \<Rightarrow> bool option" where
  "matches (PT_BASE p) ps = ps_get ps p"
| "matches (PT_OR l r) ps = (case matches l ps of
       None \<Rightarrow> None | Some b \<Rightarrow> if b then Some True else matches r ps)"
| "matches (PT_AND l r) ps = (case matches l ps of
       None \<Rightarrow> None | Some b \<Rightarrow> if b then matches r ps else Some False)"
| "matches (PT_NOT l) ps = map_option Not (matches l ps)"
| "matches PT_ANY ps = Some True"
| "matches PT_NONE ps = Some False"

section \<open>The permission map\<close>

type_synonym PermissionMap = "nat \<rightharpoonup> PermissionSet"

text \<open>\<^verbatim>\<open>_map[user_type][perm] = true\<close>: the map operator creates an absent entry.\<close>

definition grant :: "Permission \<Rightarrow> nat \<Rightarrow> PermissionMap \<Rightarrow> PermissionMap option" where
  "grant p t m = map_option (\<lambda>ps. m(t \<mapsto> ps))
     (ps_set (case m t of None \<Rightarrow> empty_set | Some ps \<Rightarrow> ps) p)"

text \<open>The loop of \<^verbatim>\<open>PermissionMap::allow\<close>: one turn per bit of the msk.\<close>

function allow_loop :: "Permission \<Rightarrow> u32 \<Rightarrow> nat \<Rightarrow> PermissionMap \<Rightarrow> PermissionMap option" where
  "allow_loop p msk t m =
     (if msk > 0 then
        (case (if msk AND 1 \<noteq> 0 then grant p t m else Some m) of
           None \<Rightarrow> None
         | Some m' \<Rightarrow> allow_loop p (drop_bit 1 msk) (t + 1) m')
      else Some m)"
  by pat_completeness auto

termination allow_loop
  by (relation "measure (\<lambda>(p, msk, t, m). unat msk)")
    (auto simp: unat_div drop_bit_eq_div word_less_nat_alt)

declare allow_loop.simps [simp del]

definition allow :: "Permission \<Rightarrow> u32 \<Rightarrow> PermissionMap \<Rightarrow> PermissionMap option" where
  "allow p msk m = allow_loop p msk 0 m"

definition permission_grants :: "(Permission \<times> u32) list" where
  "permission_grants = [
     (PERMISSION_AUTH, USER_MASK_ALL),
     (PERMISSION_SUBMIT, USER_MASK_CONTESTANT OR USER_MASK_OBSERVER),
     (PERMISSION_CLARIFICATION_REQUEST, USER_MASK_NOMARKER),
     (PERMISSION_CLARIFICATION_REPLY, USER_MASK_MANAGER),
     (PERMISSION_CHANGE_PASSWORD, USER_MASK_NOMARKER),
     (PERMISSION_IN_STANDINGS, USER_MASK_CONTESTANT),
     (PERMISSION_SEE_STANDINGS, USER_MASK_NOMARKER OR USER_MASK_NONE),
     (PERMISSION_SEE_ALL_STANDINGS, USER_MASK_OBSERVER OR USER_MASK_PROCTOR OR USER_MASK_MANAGER),
     (PERMISSION_SEE_FINAL_STANDINGS, USER_MASK_MANAGER OR USER_MASK_PROCTOR),
     (PERMISSION_SEE_ALL_CLARIFICATION_REQUESTS, USER_MASK_MANAGER),
     (PERMISSION_SEE_ALL_CLARIFICATIONS, USER_MASK_MANAGER),
     (PERMISSION_SEE_ALL_SUBMISSIONS, USER_MASK_MANAGER),
     (PERMISSION_SEE_ALL_PROBLEMS, USER_MASK_MANAGER),
     (PERMISSION_SEE_PROBLEM_DETAILS, USER_MASK_MANAGER OR USER_MASK_MARKER),
     (PERMISSION_SEE_SUBMISSION_DETAILS, USER_MASK_MANAGER),
     (PERMISSION_SEE_USER_ID, USER_MASK_ADMIN),
     (PERMISSION_MARK, USER_MASK_MARKER OR USER_MASK_ADMIN),
     (PERMISSION_JUDGE, USER_MASK_MANAGER),
     (PERMISSION_JUDGE_OVERRIDE, USER_MASK_ADMIN),
     (PERMISSION_SET_BONUS, USER_MASK_MANAGER),
     (PERMISSION_USER_ADMIN, USER_MASK_ADMIN),
     (PERMISSION_SERVER_ADMIN, USER_MASK_ADMIN),
     (PERMISSION_PROBLEM_ADMIN, USER_MASK_ADMIN),
     (PERMISSION_START_STOP, USER_MASK_ADMIN)]"

text \<open>The constructor: one call of \<^verbatim>\<open>allow\<close> per line, on an empty map.\<close>

fun allow_all :: "(Permission \<times> u32) list \<Rightarrow> PermissionMap \<Rightarrow> PermissionMap option" where
  "allow_all [] m = Some m"
| "allow_all ((p, msk) # rest) m = (case allow p msk m of
       None \<Rightarrow> None | Some m' \<Rightarrow> allow_all rest m')"

definition PermissionMap_instance :: "PermissionMap option" where
  "PermissionMap_instance = allow_all permission_grants Map.empty"

definition getPermissions :: "PermissionMap \<Rightarrow> nat \<Rightarrow> PermissionSet" where
  "getPermissions m t = (case m t of Some ps \<Rightarrow> ps | None \<Rightarrow> empty_set)"

text \<open>The permission set of a user type in the process-wide instance.\<close>

definition permissions_of :: "nat \<Rightarrow> PermissionSet" where
  "permissions_of t = (case PermissionMap_instance of
       Some m \<Rightarrow> getPermissions m t | None \<Rightarrow> empty_set)"

section \<open>Names\<close>

lemma permission_index_invalid [simp]: "permission_index PERMISSION_INVALID = None"
  by (simp add: permission_index_def)

lemma permission_index_valid:
  "p \<noteq> PERMISSION_INVALID \<Longrightarrow>
   \<exists>i < PERMISSION_COUNT. permission_index p = Some i \<and> all_permissions ! i = p"
  by (cases p) (simp_all add: permission_index_def PERMISSION_COUNT_def all_permissions_def)

lemma permission_index_inj:
  "permission_index p = Some i \<Longrightarrow> permission_index q = Some i \<Longrightarrow> p = q"
  using permission_index_valid [of p] permission_index_valid [of q]
  by (cases "p = PERMISSION_INVALID"; cases "q = PERMISSION_INVALID") auto

lemma permission_names_distinct: "distinct permission_names"
  by (simp add: permission_names_def)

lemma permission_tables_length [simp]:
  "length permission_names = PERMISSION_COUNT" "length all_permissions = PERMISSION_COUNT"
  by (simp_all add: permission_names_def all_permissions_def PERMISSION_COUNT_def)

lemma find_permission_zip:
  "distinct ns \<Longrightarrow> length ns = length ps \<Longrightarrow> i < length ns \<Longrightarrow>
   find_permission (ns ! i) (zip ns ps) = ps ! i"
proof (induction ns arbitrary: ps i)
  case (Cons n ns)
  then show ?case by (cases ps; cases i) auto
qed simp

lemma find_permission_unknown:
  "name \<notin> fst ` set tab \<Longrightarrow> find_permission name tab = PERMISSION_INVALID"
  by (induction name tab rule: find_permission.induct) auto

lemma find_permission_known:
  "find_permission name tab \<noteq> PERMISSION_INVALID \<Longrightarrow> name \<in> fst ` set tab"
  by (induction name tab rule: find_permission.induct) (auto split: if_splits)

lemma getPermissionValue_name:
  assumes "p \<noteq> PERMISSION_INVALID"
  shows "map_option getPermissionValue (getPermissionName p) = Some p"
  using permission_index_valid [OF assms] permission_names_distinct
  by (auto simp: getPermissionName_def getPermissionValue_def find_permission_zip)

lemma getPermissionValue_valid:
  "getPermissionValue name \<noteq> PERMISSION_INVALID \<longleftrightarrow> name \<in> set permission_names"
proof
  assume "getPermissionValue name \<noteq> PERMISSION_INVALID"
  then show "name \<in> set permission_names"
    by (auto simp: getPermissionValue_def dest!: find_permission_known set_zip_leftD)
next
  assume "name \<in> set permission_names"
  then obtain i where i: "i < length permission_names" "name = permission_names ! i"
    by (metis in_set_conv_nth)
  then have "getPermissionValue name = all_permissions ! i"
    by (simp add: getPermissionValue_def find_permission_zip permission_names_distinct)
  moreover have "all_permissions ! i \<in> set all_permissions" using i by simp
  moreover have "PERMISSION_INVALID \<notin> set all_permissions" by (simp add: all_permissions_def)
  ultimately show "getPermissionValue name \<noteq> PERMISSION_INVALID" by auto
qed

section \<open>Tests\<close>

text \<open>
  The meaning of a test over the set of permissions held, and the tests that never read
  the invalid permission.
\<close>

fun test_wf :: "PermissionTest \<Rightarrow> bool" where
  "test_wf (PT_BASE p) = (p \<noteq> PERMISSION_INVALID)"
| "test_wf (PT_OR l r) = (test_wf l \<and> test_wf r)"
| "test_wf (PT_AND l r) = (test_wf l \<and> test_wf r)"
| "test_wf (PT_NOT l) = test_wf l"
| "test_wf _ = True"

fun test_holds :: "PermissionTest \<Rightarrow> Permission set \<Rightarrow> bool" where
  "test_holds (PT_BASE p) S = (p \<in> S)"
| "test_holds (PT_OR l r) S = (test_holds l S \<or> test_holds r S)"
| "test_holds (PT_AND l r) S = (test_holds l S \<and> test_holds r S)"
| "test_holds (PT_NOT l) S = (\<not> test_holds l S)"
| "test_holds PT_ANY S = True"
| "test_holds PT_NONE S = False"

definition held :: "PermissionSet \<Rightarrow> Permission set" where
  "held ps = {p. ps_get ps p = Some True}"

definition ps_wf :: "PermissionSet \<Rightarrow> bool" where
  "ps_wf ps \<longleftrightarrow> length ps = PERMISSION_COUNT"

lemma ps_get_valid:
  "ps_wf ps \<Longrightarrow> p \<noteq> PERMISSION_INVALID \<Longrightarrow> \<exists>b. ps_get ps p = Some b"
  using permission_index_valid [of p] by (auto simp: ps_get_def ps_wf_def)

lemma ps_get_held:
  "ps_wf ps \<Longrightarrow> p \<noteq> PERMISSION_INVALID \<Longrightarrow> ps_get ps p = Some (p \<in> held ps)"
  using ps_get_valid [of ps p] by (auto simp: held_def)

lemma matches_held:
  "ps_wf ps \<Longrightarrow> test_wf pt \<Longrightarrow> matches pt ps = Some (test_holds pt (held ps))"
  by (induction pt) (auto simp: ps_get_held)

section \<open>The map\<close>

definition map_wf :: "PermissionMap \<Rightarrow> bool" where
  "map_wf m \<longleftrightarrow> (\<forall>t ps. m t = Some ps \<longrightarrow> ps_wf ps)"

lemma ps_wf_empty_set [simp]: "ps_wf empty_set"
  by (simp add: ps_wf_def empty_set_def)

lemma held_empty_set [simp]: "held empty_set = {}"
  by (auto simp: held_def ps_get_def empty_set_def split: option.splits if_splits)

lemma getPermissions_wf: "map_wf m \<Longrightarrow> ps_wf (getPermissions m t)"
  by (auto simp: map_wf_def getPermissions_def split: option.splits)

lemma ps_set_held:
  assumes "ps_wf ps" "p \<noteq> PERMISSION_INVALID"
  shows "\<exists>ps'. ps_set ps p = Some ps' \<and> ps_wf ps' \<and> held ps' = insert p (held ps)"
proof -
  from permission_index_valid [OF assms(2)] obtain i where
    i: "i < PERMISSION_COUNT" "permission_index p = Some i" by auto
  have "ps_get (ps[i := True]) q = (if q = p then Some True else ps_get ps q)" for q
    using i assms(1) permission_index_inj [OF i(2), of q]
    by (cases "permission_index q") (auto simp: ps_get_def ps_wf_def nth_list_update)
  then have "held (ps[i := True]) = insert p (held ps)"
    by (auto simp: held_def)
  with i assms(1) show ?thesis by (auto simp: ps_set_def ps_wf_def)
qed

lemma grant_spec:
  assumes "map_wf m" "p \<noteq> PERMISSION_INVALID"
  shows "\<exists>m'. grant p t m = Some m' \<and> map_wf m' \<and>
    (\<forall>u. held (getPermissions m' u) =
       (if u = t then insert p (held (getPermissions m u)) else held (getPermissions m u)))"
proof -
  have g: "getPermissions m t = (case m t of None \<Rightarrow> empty_set | Some ps \<Rightarrow> ps)"
    by (simp add: getPermissions_def split: option.split)
  from ps_set_held [OF getPermissions_wf [OF assms(1)] assms(2), of t] obtain ps' where
    ps': "ps_set (getPermissions m t) p = Some ps'" "ps_wf ps'"
    "held ps' = insert p (held (getPermissions m t))" by blast
  then have "grant p t m = Some (m(t \<mapsto> ps'))" by (simp add: grant_def g)
  moreover have "map_wf (m(t \<mapsto> ps'))" using assms(1) ps'(2) by (simp add: map_wf_def)
  moreover have "getPermissions (m(t \<mapsto> ps')) u = (if u = t then ps' else getPermissions m u)" for u
    by (simp add: getPermissions_def)
  ultimately show ?thesis using ps'(3) by simp
qed

lemma bit_drop_Suc: "bit (drop_bit (Suc 0) (msk :: u32)) n = bit msk (Suc n)"
  by (simp add: bit_drop_bit_eq)

lemma allow_loop_spec:
  assumes "map_wf m" "p \<noteq> PERMISSION_INVALID"
  shows "\<exists>m'. allow_loop p msk t m = Some m' \<and> map_wf m' \<and>
    (\<forall>u. held (getPermissions m' u) = held (getPermissions m u) \<union>
       (if t \<le> u \<and> bit msk (u - t) then {p} else {}))"
  using assms
proof (induction p msk t m rule: allow_loop.induct)
  case (1 p msk t m)
  show ?case
  proof (cases "msk = 0")
    case True
    with 1 show ?thesis by (simp add: allow_loop.simps)
  next
    case False
    have b0: "msk AND 1 \<noteq> 0 \<longleftrightarrow> bit msk 0"
      by (simp add: and_one_eq bit_0 odd_iff_mod_2_eq_one)
    obtain m1 where m1: "(if msk AND 1 \<noteq> 0 then grant p t m else Some m) = Some m1"
      "map_wf m1" "\<forall>u. held (getPermissions m1 u) = held (getPermissions m u) \<union>
        (if u = t \<and> bit msk 0 then {p} else {})"
      using grant_spec [OF 1(2,3), of t] 1(2) b0 by auto
    from False have "msk > 0" by (simp add: word_gt_0)
    with 1(1) [OF _ m1(1) m1(2) 1(3)] obtain m2 where
      m2: "allow_loop p (drop_bit 1 msk) (t + 1) m1 = Some m2" "map_wf m2"
      "\<forall>u. held (getPermissions m2 u) = held (getPermissions m1 u) \<union>
        (if t + 1 \<le> u \<and> bit (drop_bit 1 msk) (u - (t + 1)) then {p} else {})" by blast
    have "(t + 1 \<le> u \<and> bit (drop_bit 1 msk) (u - (t + 1))) \<or> (u = t \<and> bit msk 0) \<longleftrightarrow>
      t \<le> u \<and> bit msk (u - t)" for u
      by (cases "u = t") (auto simp: bit_drop_Suc Suc_diff_Suc)
    then have "held (getPermissions m2 u) = held (getPermissions m u) \<union>
        (if t \<le> u \<and> bit msk (u - t) then {p} else {})" for u
      using m1(3) m2(3) by (auto split: if_splits)
    moreover have "allow_loop p msk t m = Some m2"
      using \<open>msk > 0\<close> m1(1) m2(1) by (subst allow_loop.simps) simp
    ultimately show ?thesis using m2(2) by blast
  qed
qed

lemma allow_spec:
  assumes "map_wf m" "p \<noteq> PERMISSION_INVALID"
  shows "\<exists>m'. allow p msk m = Some m' \<and> map_wf m' \<and>
    (\<forall>u. held (getPermissions m' u) = held (getPermissions m u) \<union>
       (if bit msk u then {p} else {}))"
  using allow_loop_spec [OF assms, of msk 0] by (simp add: allow_def)

lemma allow_all_spec:
  "map_wf m \<Longrightarrow> PERMISSION_INVALID \<notin> fst ` set gs \<Longrightarrow>
   \<exists>m'. allow_all gs m = Some m' \<and> map_wf m' \<and>
    (\<forall>u. held (getPermissions m' u) = held (getPermissions m u) \<union>
       {p. \<exists>msk. (p, msk) \<in> set gs \<and> bit msk u})"
proof (induction gs m rule: allow_all.induct)
  case (2 p msk rest m)
  then obtain m1 where m1: "allow p msk m = Some m1" "map_wf m1"
    "\<forall>u. held (getPermissions m1 u) = held (getPermissions m u) \<union> (if bit msk u then {p} else {})"
    using allow_spec [of m p msk] by auto
  with 2 obtain m2 where "allow_all rest m1 = Some m2" "map_wf m2"
    "\<forall>u. held (getPermissions m2 u) = held (getPermissions m1 u) \<union>
       {p. \<exists>msk. (p, msk) \<in> set rest \<and> bit msk u}" by auto
  with m1 show ?case by (auto split: if_splits)
qed simp

lemma permission_grants_valid: "PERMISSION_INVALID \<notin> fst ` set permission_grants"
  by (simp add: permission_grants_def)

lemma permissions_of_spec:
  "ps_wf (permissions_of t) \<and>
   held (permissions_of t) = {p. \<exists>msk. (p, msk) \<in> set permission_grants \<and> bit msk t}"
proof -
  have "map_wf Map.empty" by (simp add: map_wf_def)
  from allow_all_spec [OF this permission_grants_valid] show ?thesis
    by (auto simp: permissions_of_def PermissionMap_instance_def getPermissions_wf
        getPermissions_def [of Map.empty])
qed

lemma permissions_of_wf [simp]: "ps_wf (permissions_of t)"
  using permissions_of_spec by blast

text \<open>
  What each user type may do, as a table by user type rather than by permission.
\<close>

definition manager_permissions :: "Permission set" where
  "manager_permissions = {PERMISSION_AUTH, PERMISSION_CLARIFICATION_REQUEST,
     PERMISSION_CLARIFICATION_REPLY, PERMISSION_CHANGE_PASSWORD, PERMISSION_SEE_STANDINGS,
     PERMISSION_SEE_ALL_STANDINGS, PERMISSION_SEE_FINAL_STANDINGS,
     PERMISSION_SEE_ALL_CLARIFICATION_REQUESTS, PERMISSION_SEE_ALL_CLARIFICATIONS,
     PERMISSION_SEE_ALL_SUBMISSIONS, PERMISSION_SEE_ALL_PROBLEMS,
     PERMISSION_SEE_PROBLEM_DETAILS, PERMISSION_SEE_SUBMISSION_DETAILS, PERMISSION_JUDGE,
     PERMISSION_SET_BONUS}"

definition role_permissions :: "UserType \<Rightarrow> Permission set" where
  "role_permissions t = (case t of
       USER_TYPE_NONE \<Rightarrow> {PERMISSION_SEE_STANDINGS}
     | USER_TYPE_ADMIN \<Rightarrow> manager_permissions \<union> {PERMISSION_SEE_USER_ID, PERMISSION_MARK,
         PERMISSION_JUDGE_OVERRIDE, PERMISSION_USER_ADMIN, PERMISSION_SERVER_ADMIN,
         PERMISSION_PROBLEM_ADMIN, PERMISSION_START_STOP}
     | USER_TYPE_JUDGE \<Rightarrow> manager_permissions
     | USER_TYPE_CONTESTANT \<Rightarrow> {PERMISSION_AUTH, PERMISSION_SUBMIT,
         PERMISSION_CLARIFICATION_REQUEST, PERMISSION_CHANGE_PASSWORD, PERMISSION_IN_STANDINGS,
         PERMISSION_SEE_STANDINGS}
     | USER_TYPE_MARKER \<Rightarrow> {PERMISSION_AUTH, PERMISSION_SEE_PROBLEM_DETAILS, PERMISSION_MARK}
     | USER_TYPE_OBSERVER \<Rightarrow> {PERMISSION_AUTH, PERMISSION_SUBMIT,
         PERMISSION_CLARIFICATION_REQUEST, PERMISSION_CHANGE_PASSWORD,
         PERMISSION_SEE_STANDINGS, PERMISSION_SEE_ALL_STANDINGS}
     | USER_TYPE_PROCTOR \<Rightarrow> {PERMISSION_AUTH,
         PERMISSION_CLARIFICATION_REQUEST, PERMISSION_CHANGE_PASSWORD, PERMISSION_SEE_STANDINGS,
         PERMISSION_SEE_ALL_STANDINGS, PERMISSION_SEE_FINAL_STANDINGS})"

definition granted :: "nat \<Rightarrow> Permission list" where
  "granted t = map fst (filter (\<lambda>(p, msk). bit msk t) permission_grants)"

lemma held_granted: "held (permissions_of t) = set (granted t)"
  by (auto simp: permissions_of_spec granted_def intro: rev_image_eqI)

lemma granted_role: "set (granted (user_type_code t)) = role_permissions t"
  by (induction t) code_simp+

lemma held_role: "held (permissions_of (user_type_code t)) = role_permissions t"
  by (simp add: held_granted granted_role)

lemma bit_user_mask: "bit (user_mask u) n \<longleftrightarrow> n = user_type_code u"
proof -
  have "user_type_code u < 32" by (cases u) simp_all
  then show ?thesis by (auto simp: user_mask_def bit_exp_iff possible_bit_def)
qed

lemma held_unknown_type: "6 < t \<Longrightarrow> held (permissions_of t) = {}"
  by (simp add: held_granted granted_def permission_grants_def USER_MASK_NONE_def
      USER_MASK_ADMIN_def USER_MASK_JUDGE_def USER_MASK_CONTESTANT_def USER_MASK_MARKER_def
      USER_MASK_OBSERVER_def USER_MASK_PROCTOR_def USER_MASK_ALL_def USER_MASK_NOMARKER_def
      USER_MASK_MANAGER_def bit_or_iff bit_and_iff bit_user_mask)

section \<open>Properties\<close>

text \<open>
  Claim C22. The permission map built by the constructor gives every user type exactly
  the permissions of its role, and an unknown type none: in particular only
  administrators hold the user, problem, server and start/stop administration
  permissions.
\<close>

theorem permission_map_roles:
  "held (permissions_of (user_type_code t)) = role_permissions t \<and>
   held (permissions_of (n + 7)) = {}"
  by (simp add: held_role held_unknown_type)



text \<open>
  Permission names round trip: the name of a permission maps back to it, and a
  text maps to a permission exactly when it is one of the names.
\<close>

theorem permission_names_roundtrip:
  "(p = PERMISSION_INVALID \<and> getPermissionName p = None \<or>
    map_option getPermissionValue (getPermissionName p) = Some p) \<and>
   (getPermissionValue name = PERMISSION_INVALID) = (name \<notin> set permission_names)"
  using getPermissionValue_name [of p] getPermissionValue_valid [of name]
  by (cases "p = PERMISSION_INVALID") (auto simp: getPermissionName_def)

end
