(* ===== verification/Numerals.thy ===== *)
theory Numerals
  imports Prelude
begin

text \<open>
  Numbers as text: \<^verbatim>\<open>to_string\<close> and \<^verbatim>\<open>from_string\<close> of \<^verbatim>\<open>include/misc.h\<close>, and the C
  library's \<^verbatim>\<open>strtoul\<close>, which the sources use on configuration values, database columns
  and message headers.
\<close>

section \<open>Decimal output\<close>

definition digit_char :: "nat \<Rightarrow> char" where
  "digit_char d = char_of (48 + d)"

fun string_of_nat :: "nat \<Rightarrow> string" where
  "string_of_nat n =
     (if n < 10 then [digit_char n] else string_of_nat (n div 10) @ [digit_char (n mod 10)])"

declare string_of_nat.simps [simp del]

text \<open>\<^verbatim>\<open>to_string\<close>: stream output in the classic locale, a minus sign and decimal digits.\<close>

definition to_string :: "int \<Rightarrow> string" where
  "to_string i = (if i < 0 then CHR ''-'' # string_of_nat (nat (- i)) else string_of_nat (nat i))"

section \<open>Digits and sign\<close>

definition is_space :: "char \<Rightarrow> bool" where
  "is_space c \<longleftrightarrow> c = CHR '' '' \<or> (9 \<le> (of_char c :: nat) \<and> (of_char c :: nat) \<le> 13)"

definition digit_val :: "char \<Rightarrow> nat option" where
  "digit_val c = (let n = (of_char c :: nat) in
     if 48 \<le> n \<and> n \<le> 57 then Some (n - 48)
     else if 97 \<le> n \<and> n \<le> 122 then Some (n - 87)
     else if 65 \<le> n \<and> n \<le> 90 then Some (n - 55)
     else None)"

definition is_digit :: "nat \<Rightarrow> char \<Rightarrow> bool" where
  "is_digit b c \<longleftrightarrow> (case digit_val c of None \<Rightarrow> False | Some d \<Rightarrow> d < b)"

definition digits_value :: "nat \<Rightarrow> string \<Rightarrow> int" where
  "digits_value b ds = foldl (\<lambda>acc c. acc * int b + int (the (digit_val c))) 0 ds"

definition split_sign :: "string \<Rightarrow> bool \<times> string" where
  "split_sign s = (case s of
       [] \<Rightarrow> (False, [])
     | c # cs \<Rightarrow> if c = CHR ''-'' then (True, cs)
                 else if c = CHR ''+'' then (False, cs) else (False, s))"

section \<open>\<^verbatim>\<open>from_string\<close>\<close>

text \<open>
  \<^verbatim>\<open>in >> value\<close> into an \<^verbatim>\<open>intmax_t\<close> (64 bits) skips white space, takes an optional sign
  and decimal digits, and fails without digits or out of range. The conversion is
  rejected unless the whole text was consumed and the value fits the limits \<open>lo\<close> and \<open>hi\<close>
  of the target type.
\<close>

definition from_string :: "int \<Rightarrow> int \<Rightarrow> string \<Rightarrow> int option" where
  "from_string lo hi s =
     (let (neg, ds) = split_sign (dropWhile is_space s);
          v = digits_value 10 ds;
          r = (if neg then - v else v)
      in if ds \<noteq> [] \<and> list_all (is_digit 10) ds \<and> - (2 ^ 63) \<le> r \<and> r < 2 ^ 63
            \<and> lo \<le> r \<and> r \<le> hi
         then Some r else None)"

definition from_string_u32 :: "string \<Rightarrow> u32 option" where
  "from_string_u32 s = map_option word_of_int (from_string 0 (2 ^ 32 - 1) s)"

section \<open>\<^verbatim>\<open>strtoul\<close>\<close>

text \<open>
  \<^verbatim>\<open>strtoul(s, NULL, base)\<close> with 64-bit \<^verbatim>\<open>unsigned long\<close>: base 0 selects hexadecimal,
  octal or decimal by prefix; no digits give 0; a value out of range gives
  \<^verbatim>\<open>ULONG_MAX\<close>; a minus sign negates modulo the word size.
\<close>

definition strtoul_base :: "nat \<Rightarrow> string \<Rightarrow> nat \<times> string" where
  "strtoul_base b s =
     (if (b = 0 \<or> b = 16) \<and> length s > 2 \<and> s ! 0 = CHR ''0'' \<and>
         (s ! 1 = CHR ''x'' \<or> s ! 1 = CHR ''X'') \<and> is_digit 16 (s ! 2)
      then (16, drop 2 s)
      else if b = 0 then (if s \<noteq> [] \<and> hd s = CHR ''0'' then (8, s) else (10, s))
      else (b, s))"

definition strtoul :: "nat \<Rightarrow> string \<Rightarrow> 64 word" where
  "strtoul b s =
     (let (neg, s1) = split_sign (dropWhile is_space s);
          (b', s2) = strtoul_base b s1;
          v = digits_value b' (takeWhile (is_digit b') s2)
      in if v \<ge> 2 ^ 64 then - 1
         else if neg then - of_int v else of_int v)"

text \<open>
  \<^verbatim>\<open>atol\<close>: decimal digits after white space and a sign, saturating at the limits of a
  64-bit \<^verbatim>\<open>long\<close>; and the conversion of a \<^verbatim>\<open>long\<close> to a 32-bit \<^verbatim>\<open>int\<close>.
\<close>

definition atol :: "string \<Rightarrow> int" where
  "atol s =
     (let (neg, s1) = split_sign (dropWhile is_space s);
          v = digits_value 10 (takeWhile (is_digit 10) s1)
      in if neg then max (- (2 ^ 63)) (- v) else min (2 ^ 63 - 1) v)"

definition to_int32 :: "int \<Rightarrow> int" where
  "to_int32 i = sint (word_of_int i :: u32)"

section \<open>Round trips\<close>

lemma digit_val_digit_char: "d < 10 \<Longrightarrow> digit_val (digit_char d) = Some d"
  by (simp add: digit_val_def digit_char_def of_char_of Let_def)

lemma is_digit_digit_char: "d < 10 \<Longrightarrow> 10 \<le> b \<Longrightarrow> is_digit b (digit_char d)"
  by (simp add: is_digit_def digit_val_digit_char)

lemma digit_char_code: "d < 10 \<Longrightarrow> (of_char (digit_char d) :: nat) = 48 + d"
  by (simp add: digit_char_def of_char_of)

lemma digit_char_neq:
  "d < 10 \<Longrightarrow> (of_char c :: nat) < 48 \<or> 57 < (of_char c :: nat) \<Longrightarrow> digit_char d \<noteq> c"
  using digit_char_code [of d] by auto

lemma digit_char_plain:
  assumes "d < 10"
  shows "\<not> is_space (digit_char d)" "digit_char d \<noteq> CHR ''-''" "digit_char d \<noteq> CHR ''+''"
    "digit_char d \<noteq> CHR 0x0A" "digit_char d \<noteq> CHR '':''" "digit_char d \<noteq> CHR '' ''"
    "digit_char d \<noteq> CHR ''x''" "digit_char d \<noteq> CHR ''X''" "digit_char d \<noteq> CHR 0x00"
proof -
  show "digit_char d \<noteq> CHR '' ''" by (rule digit_char_neq [OF assms]) simp
  then show "\<not> is_space (digit_char d)" by (simp add: is_space_def digit_char_code [OF assms])
qed (rule digit_char_neq [OF assms], simp)+

lemma digit_char_zero: "d < 10 \<Longrightarrow> digit_char d = CHR ''0'' \<longleftrightarrow> d = 0"
proof
  assume "d < 10" "digit_char d = CHR ''0''"
  then have "48 + d = (of_char (CHR ''0'') :: nat)" using digit_char_code [of d] by simp
  then show "d = 0" by simp
next
  have "digit_char 0 = CHR ''0''" by code_simp
  then show "d = 0 \<Longrightarrow> digit_char d = CHR ''0''" by simp
qed

lemma digits_value_snoc:
  "digits_value b (ds @ [c]) = digits_value b ds * int b + int (the (digit_val c))"
  by (simp add: digits_value_def)

lemma digits_value_string_of_nat: "digits_value 10 (string_of_nat n) = int n"
proof (induction n rule: string_of_nat.induct)
  case (1 n)
  show ?case
  proof (cases "n < 10")
    case True
    then show ?thesis
      by (simp add: string_of_nat.simps digits_value_def digit_val_digit_char)
  next
    case False
    with 1 show ?thesis
      by (simp add: string_of_nat.simps [of n] digits_value_snoc digit_val_digit_char
          zdiv_int zmod_int)
  qed
qed

lemma string_of_nat_digits:
  "\<exists>ds. string_of_nat n = map digit_char ds \<and> ds \<noteq> [] \<and> (\<forall>d\<in>set ds. d < 10)"
proof (induction n rule: string_of_nat.induct)
  case (1 n)
  show ?case
  proof (cases "n < 10")
    case True
    then show ?thesis by (intro exI [of _ "[n]"]) (simp add: string_of_nat.simps)
  next
    case False
    with 1 obtain ds where "string_of_nat (n div 10) = map digit_char ds" "ds \<noteq> []"
      "\<forall>d\<in>set ds. d < 10" by blast
    with False show ?thesis
      by (intro exI [of _ "ds @ [n mod 10]"]) (auto simp: string_of_nat.simps [of n])
  qed
qed

lemma string_of_nat_chars:
  "c \<in> set (string_of_nat n) \<Longrightarrow> \<exists>d < 10. c = digit_char d"
  using string_of_nat_digits [of n] by fastforce

lemma string_of_nat_plain:
  assumes "c \<in> set (string_of_nat n)"
  shows "\<not> is_space c" "c \<noteq> CHR ''-''" "c \<noteq> CHR ''+''" "c \<noteq> CHR 0x0A" "c \<noteq> CHR '':''"
    "c \<noteq> CHR '' ''" "c \<noteq> CHR ''x''" "c \<noteq> CHR ''X''" "c \<noteq> CHR 0x00"
proof -
  from string_of_nat_chars [OF assms] obtain d where d: "d < 10" "c = digit_char d" by blast
  note digit_char_plain [OF d(1), folded d(2)]
  then show "\<not> is_space c" "c \<noteq> CHR ''-''" "c \<noteq> CHR ''+''" "c \<noteq> CHR 0x0A" "c \<noteq> CHR '':''"
    "c \<noteq> CHR '' ''" "c \<noteq> CHR ''x''" "c \<noteq> CHR ''X''" "c \<noteq> CHR 0x00" by blast+
qed

lemma string_of_nat_nonempty [simp]: "string_of_nat n \<noteq> []"
  using string_of_nat_digits [of n] by auto

lemma string_of_nat_is_digit: "10 \<le> b \<Longrightarrow> c \<in> set (string_of_nat n) \<Longrightarrow> is_digit b c"
  using string_of_nat_chars is_digit_digit_char by blast

lemma string_of_nat_hd_zero: "0 < n \<Longrightarrow> hd (string_of_nat n) \<noteq> CHR ''0''"
proof (induction n rule: string_of_nat.induct)
  case (1 n)
  show ?case
  proof (cases "n < 10")
    case True
    with 1(2) show ?thesis by (simp add: string_of_nat.simps digit_char_zero)
  next
    case False
    with 1 show ?thesis by (simp add: string_of_nat.simps [of n])
  qed
qed

lemma string_of_nat_inj: "string_of_nat m = string_of_nat n \<Longrightarrow> m = n"
  by (metis digits_value_string_of_nat of_nat_eq_iff)

lemma string_of_nat_hd:
  "\<not> is_space (hd (string_of_nat n)) \<and> hd (string_of_nat n) \<noteq> CHR ''-'' \<and>
   hd (string_of_nat n) \<noteq> CHR ''+''"
  using string_of_nat_plain [of "hd (string_of_nat n)" n] by simp

lemma string_of_nat_split:
  "dropWhile is_space (string_of_nat n) = string_of_nat n"
  "split_sign (string_of_nat n) = (False, string_of_nat n)"
  using string_of_nat_hd [of n]
  by (cases "string_of_nat n"; simp add: split_sign_def)+

lemma from_string_to_string:
  assumes "lo \<le> i" "i \<le> hi" "- (2 ^ 63) \<le> i" "i < 2 ^ 63"
  shows "from_string lo hi (to_string i) = Some i"
proof -
  have digits: "list_all (is_digit 10) (string_of_nat n)" for n
    using string_of_nat_is_digit [of 10] by (auto simp: list_all_iff)
  have neg: "dropWhile is_space (CHR ''-'' # s) = CHR ''-'' # s"
    "split_sign (CHR ''-'' # s) = (True, s)" "\<not> is_space CHR ''-''" for s
    by (simp_all add: split_sign_def is_space_def)
  note facts = to_string_def from_string_def neg string_of_nat_split
    digits_value_string_of_nat digits
  show ?thesis
  proof (cases "i < 0")
    case True
    with assms show ?thesis by (simp add: facts nat_le_iff)
  next
    case False
    with assms show ?thesis by (simp add: facts)
  qed
qed

lemma strtoul_string_of_nat:
  assumes "n < 2 ^ 64" "b = 0 \<or> b = 10"
  shows "strtoul b (string_of_nat n) = of_nat n"
proof -
  have tw: "takeWhile (is_digit 10) (string_of_nat n) = string_of_nat n"
    using string_of_nat_is_digit [of 10] by (simp add: takeWhile_eq_all_conv)
  have nox: "string_of_nat n ! 1 \<noteq> CHR ''x'' \<and> string_of_nat n ! 1 \<noteq> CHR ''X''"
    if "2 < length (string_of_nat n)"
    using string_of_nat_plain [of "string_of_nat n ! 1" n] that by simp
  show ?thesis
  proof (cases "n = 0")
    case True
    have "strtoul 0 (string_of_nat 0) = 0" "strtoul 10 (string_of_nat 0) = 0"
      by code_simp+
    with True assms(2) show ?thesis by auto
  next
    case False
    with assms nox have "strtoul_base b (string_of_nat n) = (10, string_of_nat n)"
      using string_of_nat_hd_zero [of n] by (auto simp: strtoul_base_def)
    with assms(1) show ?thesis
      by (simp only: strtoul_def string_of_nat_split prod.case Let_def tw
          digits_value_string_of_nat) simp
  qed
qed

lemma atol_string_of_nat: "n < 2 ^ 63 \<Longrightarrow> atol (string_of_nat n) = int n"
proof -
  assume n: "n < 2 ^ 63"
  have tw: "takeWhile (is_digit 10) (string_of_nat n) = string_of_nat n"
    using string_of_nat_is_digit [of 10] by (simp add: takeWhile_eq_all_conv)
  show ?thesis
    using n by (simp only: atol_def string_of_nat_split prod.case Let_def tw
        digits_value_string_of_nat) simp
qed

lemma to_int32_id: "- (2 ^ 31) \<le> i \<Longrightarrow> i < 2 ^ 31 \<Longrightarrow> to_int32 i = i"
  by (simp add: to_int32_def sint_sbintrunc' signed_take_bit_int_eq_self)

end
