(* ===== verification/Timer.thy ===== *)
theory Timer
  imports Numerals
begin

text \<open>
  The contest clock, \<^verbatim>\<open>src/support_timer.C\<close> and \<^verbatim>\<open>include/timersupportmodule.h\<close>: a list of
  start and stop events, each for one group or for all, from which the elapsed contest
  time, the running state and the end time of a group are computed. Times are unbounded
  integers here; the sources keep seconds since the epoch in a 64-bit \<^verbatim>\<open>time_t\<close>.
\<close>

section \<open>State\<close>

definition TIMER_STATUS_STARTED :: int where "TIMER_STATUS_STARTED = 1"
definition TIMER_STATUS_STOPPED :: int where "TIMER_STATUS_STOPPED = 2"

record startstop_event =
  ev_time :: time_t
  ev_group :: u32
  ev_action :: int

text \<open>A row of the table \<^verbatim>\<open>ContestStartStop\<close>: group, whether the action is START, time.\<close>

type_synonym startstop_row = "u32 \<times> bool \<times> time_t"

record timer =
  evlist :: "startstop_event list"
  duration :: time_t
  blinds :: time_t
  group_state :: "u32 \<rightharpoonup> int"

section \<open>Operations\<close>

definition applies :: "u32 \<Rightarrow> startstop_event \<Rightarrow> bool" where
  "applies g e \<longleftrightarrow> ev_group e = 0 \<or> ev_group e = g"

text \<open>The loop of \<^verbatim>\<open>contestTime\<close>: \<open>(elapsed_time, last_start_time, status)\<close>.\<close>

fun contestTime_loop ::
  "startstop_event list \<Rightarrow> u32 \<Rightarrow> time_t \<Rightarrow> time_t \<times> time_t \<times> int \<Rightarrow> time_t \<times> time_t \<times> int" where
  "contestTime_loop [] g rt acc = acc"
| "contestTime_loop (i # rest) g rt (elapsed, last_start, status) =
     (if ev_time i \<le> rt then
        contestTime_loop rest g rt
          (if applies g i \<and> ev_action i \<noteq> status then
             (if ev_action i = TIMER_STATUS_STARTED
              then (elapsed, ev_time i, ev_action i)
              else (elapsed + (ev_time i - last_start), last_start, ev_action i))
           else (elapsed, last_start, status))
      else (elapsed, last_start, status))"

text \<open>A zero \<open>real_time\<close> stands for the present, the parameter \<open>now\<close>.\<close>

definition effective_time :: "time_t \<Rightarrow> time_t \<Rightarrow> time_t" where
  "effective_time now rt = (if rt = 0 then now else rt)"

definition contestTime :: "timer \<Rightarrow> time_t \<Rightarrow> u32 \<Rightarrow> time_t \<Rightarrow> time_t" where
  "contestTime t now g real_time =
     (let rt = effective_time now real_time;
          (elapsed, last_start, status) =
            contestTime_loop (evlist t) g rt (0, 0, TIMER_STATUS_STOPPED);
          elapsed' = (if status = TIMER_STATUS_STARTED then elapsed + (rt - last_start)
                      else elapsed)
      in if elapsed' > duration t then duration t else elapsed')"

definition contestRemaining :: "timer \<Rightarrow> time_t \<Rightarrow> u32 \<Rightarrow> time_t \<Rightarrow> time_t" where
  "contestRemaining t now g real_time = duration t - contestTime t now g real_time"

fun contestStatus_loop :: "startstop_event list \<Rightarrow> u32 \<Rightarrow> time_t \<Rightarrow> int \<Rightarrow> int" where
  "contestStatus_loop [] g rt status = status"
| "contestStatus_loop (i # rest) g rt status =
     (if ev_time i \<le> rt
      then contestStatus_loop rest g rt (if applies g i then ev_action i else status)
      else status)"

definition contestStatus :: "timer \<Rightarrow> time_t \<Rightarrow> u32 \<Rightarrow> time_t \<Rightarrow> int" where
  "contestStatus t now g real_time =
     (let rt = effective_time now real_time;
          status = contestStatus_loop (evlist t) g rt TIMER_STATUS_STOPPED
      in if contestTime t now g rt \<ge> duration t then TIMER_STATUS_STOPPED else status)"

text \<open>
  The loop of \<^verbatim>\<open>contestEndTime\<close> over \<open>(status, remaining, last_start_time)\<close>; the early
  return is the first equation's \<open>else\<close> branch and ends the recursion.
\<close>

fun contestEndTime_loop ::
  "startstop_event list \<Rightarrow> u32 \<Rightarrow> int \<Rightarrow> time_t \<Rightarrow> time_t \<Rightarrow> time_t" where
  "contestEndTime_loop [] g status remaining last_start =
     (if status = TIMER_STATUS_STARTED then last_start + remaining else 0)"
| "contestEndTime_loop (i # rest) g status remaining last_start =
     (if applies g i \<and> ev_action i \<noteq> status then
        (if ev_action i = TIMER_STATUS_STARTED
         then contestEndTime_loop rest g (ev_action i) remaining (ev_time i)
         else (let elapsed = ev_time i - last_start
               in if elapsed > remaining then last_start + remaining
                  else contestEndTime_loop rest g (ev_action i) (remaining - elapsed) last_start))
      else contestEndTime_loop rest g status remaining last_start)"

definition contestEndTime :: "timer \<Rightarrow> u32 \<Rightarrow> time_t" where
  "contestEndTime t g = contestEndTime_loop (evlist t) g TIMER_STATUS_STOPPED (duration t) 0"

definition allStartStopTimes :: "timer \<Rightarrow> time_t list" where
  "allStartStopTimes t = map ev_time (evlist t)"

text \<open>
  \<^verbatim>\<open>scheduleStartStop\<close> walks to the first event that is not earlier than the new one and
  links the new event in front of it. The outcome of the database is an argument:
  \<^term>\<open>None\<close> without a connection, else the result of the query. The second component is
  the table, in which \<^verbatim>\<open>REPLACE\<close> removes a row with the same primary key
  \<^verbatim>\<open>(group_id, action, time)\<close>, here the whole row.
\<close>

fun insert_event :: "startstop_event \<Rightarrow> startstop_event list \<Rightarrow> startstop_event list" where
  "insert_event e [] = [e]"
| "insert_event e (i # rest) =
     (if ev_time i < ev_time e then i # insert_event e rest else e # i # rest)"

definition replace_row :: "startstop_row \<Rightarrow> startstop_row list \<Rightarrow> startstop_row list" where
  "replace_row r tab = removeAll r tab @ [r]"

definition scheduleStartStop ::
  "timer \<Rightarrow> startstop_row list \<Rightarrow> bool option \<Rightarrow> u32 \<Rightarrow> time_t \<Rightarrow> int \<Rightarrow>
   bool \<times> timer \<times> startstop_row list" where
  "scheduleStartStop t tab db g time action = (case db of
       None \<Rightarrow> (False, t, tab)
     | Some False \<Rightarrow> (False, t, tab)
     | Some True \<Rightarrow>
         (True,
          t\<lparr>evlist := insert_event \<lparr>ev_time = time, ev_group = g, ev_action = action\<rparr> (evlist t)\<rparr>,
          replace_row (g, action = TIMER_STATUS_STARTED, time) tab))"

definition isBlinded :: "timer \<Rightarrow> time_t \<Rightarrow> bool" where
  "isBlinded t contest_time \<longleftrightarrow> contest_time > duration t - blinds t"

text \<open>\<^verbatim>\<open>updateGroupState\<close> returns the old state, the new state and the updated timer.\<close>

definition updateGroupState ::
  "timer \<Rightarrow> time_t \<Rightarrow> u32 \<Rightarrow> time_t \<Rightarrow> int \<times> int \<times> timer" where
  "updateGroupState t now g time =
     (let gs = (if group_state t g = None then (group_state t)(g \<mapsto> TIMER_STATUS_STOPPED)
                else group_state t);
          old = the (gs g);
          new = contestStatus t now g time
      in (old, new, t\<lparr>group_state := (if new \<noteq> old then gs(g \<mapsto> new) else gs)\<rparr>))"

text \<open>
  \<^verbatim>\<open>init\<close> reads the duration and the blinds from the configuration and the events from the
  database. The query answers \<open>rows\<close> by descending time and group; each row is put at
  the head of the list. Without a connection (\<^term>\<open>None\<close>) no events are loaded.
\<close>

definition config_duration :: "string \<Rightarrow> time_t" where
  "config_duration s = (let d = sint (strtoul 0 s) in if d = 0 then 5 * 3600 else d)"

definition config_blinds :: "time_t \<Rightarrow> string \<Rightarrow> time_t" where
  "config_blinds d s = (let b = sint (strtoul 0 s) in if b > d then d else b)"

fun load_events :: "startstop_row list \<Rightarrow> startstop_event list \<Rightarrow> startstop_event list" where
  "load_events [] evs = evs"
| "load_events ((g, start, time) # rows) evs =
     load_events rows
       (\<lparr>ev_time = time, ev_group = g,
         ev_action = (if start then TIMER_STATUS_STARTED else TIMER_STATUS_STOPPED)\<rparr> # evs)"

definition timer_new :: timer where
  "timer_new = \<lparr>evlist = [], duration = 0, blinds = 0, group_state = Map.empty\<rparr>"

definition timer_init :: "timer \<Rightarrow> string \<Rightarrow> string \<Rightarrow> startstop_row list option \<Rightarrow> timer" where
  "timer_init t conf_duration conf_blinds rows =
     (let d = config_duration conf_duration;
          b = config_blinds d conf_blinds;
          t' = t\<lparr>duration := d, blinds := b\<rparr>
      in case rows of None \<Rightarrow> t' | Some rs \<Rightarrow> t'\<lparr>evlist := load_events rs (evlist t)\<rparr>)"

text \<open>
  The order the query asks for, \<^verbatim>\<open>ORDER BY time DESC, group_id DESC\<close>, and an answer to it:
  every row of the table once, in that order. Rows equal in both columns may come in
  any order.
\<close>

definition row_before :: "startstop_row \<Rightarrow> startstop_row \<Rightarrow> bool" where
  "row_before r s = (case (r, s) of ((g, _, x), (h, _, y)) \<Rightarrow> x > y \<or> (x = y \<and> g \<ge> h))"

definition startstop_answer :: "startstop_row list \<Rightarrow> startstop_row list \<Rightarrow> bool" where
  "startstop_answer tab rows \<longleftrightarrow> set rows = set tab \<and> distinct rows \<and> sorted_wrt row_before rows"

section \<open>Elapsed time is the number of running seconds\<close>

text \<open>Well-formed event lists: in order of time, after the epoch, with known actions.\<close>

definition valid_action :: "int \<Rightarrow> bool" where
  "valid_action a \<longleftrightarrow> a = TIMER_STATUS_STARTED \<or> a = TIMER_STATUS_STOPPED"

definition events_wf :: "startstop_event list \<Rightarrow> bool" where
  "events_wf evs \<longleftrightarrow> sorted (map ev_time evs) \<and>
     (\<forall>e\<in>set evs. 0 < ev_time e \<and> valid_action (ev_action e))"

text \<open>
  The seconds from \<open>t0\<close> up to \<open>rt\<close> at which the last event that applies to the group is a
  start, when the state before the events is \<open>st\<close>.
\<close>

definition running_at :: "startstop_event list \<Rightarrow> u32 \<Rightarrow> int \<Rightarrow> time_t \<Rightarrow> bool" where
  "running_at evs g st s \<longleftrightarrow> contestStatus_loop evs g s st = TIMER_STATUS_STARTED"

definition run_secs :: "startstop_event list \<Rightarrow> u32 \<Rightarrow> int \<Rightarrow> time_t \<Rightarrow> time_t \<Rightarrow> time_t" where
  "run_secs evs g st t0 rt = int (card {s. t0 \<le> s \<and> s < rt \<and> running_at evs g st s})"

lemma started_not_stopped [simp]: "TIMER_STATUS_STARTED \<noteq> TIMER_STATUS_STOPPED"
  "TIMER_STATUS_STOPPED \<noteq> TIMER_STATUS_STARTED"
  by (simp_all add: TIMER_STATUS_STARTED_def TIMER_STATUS_STOPPED_def)

lemma events_wf_Cons:
  "events_wf (i # rest) \<longleftrightarrow> events_wf rest \<and> 0 < ev_time i \<and> valid_action (ev_action i) \<and>
     (\<forall>e\<in>set rest. ev_time i \<le> ev_time e)"
  by (auto simp: events_wf_def)

lemma finite_running: "finite {s::int. t0 \<le> s \<and> s < rt \<and> P s}"
  by (rule finite_subset [of _ "{t0..<rt}"]) auto

lemma card_const: "t0 \<le> rt \<Longrightarrow> int (card {s::int. t0 \<le> s \<and> s < rt \<and> b}) = (if b then rt - t0 else 0)"
proof -
  have "{s::int. t0 \<le> s \<and> s < rt} = {t0..<rt}" by auto
  then show "t0 \<le> rt \<Longrightarrow> ?thesis" by simp
qed

lemma card_split:
  assumes "t0 \<le> m" "m \<le> (rt::int)"
  shows "int (card {s. t0 \<le> s \<and> s < rt \<and> P s}) =
    int (card {s. t0 \<le> s \<and> s < m \<and> P s}) + int (card {s. m \<le> s \<and> s < rt \<and> P s})"
proof -
  have "{s. t0 \<le> s \<and> s < rt \<and> P s} =
    {s. t0 \<le> s \<and> s < m \<and> P s} \<union> {s. m \<le> s \<and> s < rt \<and> P s}" using assms by auto
  moreover have "{s. t0 \<le> s \<and> s < m \<and> P s} \<inter> {s. m \<le> s \<and> s < rt \<and> P s} = {}" by auto
  ultimately show ?thesis by (simp add: card_Un_disjoint finite_running)
qed

lemma run_secs_Nil:
  "t0 \<le> rt \<Longrightarrow> run_secs [] g st t0 rt = (if st = TIMER_STATUS_STARTED then rt - t0 else 0)"
  by (simp add: run_secs_def running_at_def card_const)

lemma run_secs_before:
  assumes "t0 \<le> rt" "rt \<le> ev_time i"
  shows "run_secs (i # rest) g st t0 rt = (if st = TIMER_STATUS_STARTED then rt - t0 else 0)"
proof -
  have "{s. t0 \<le> s \<and> s < rt \<and> running_at (i # rest) g st s} =
    {s. t0 \<le> s \<and> s < rt \<and> st = TIMER_STATUS_STARTED}"
    using assms by (auto simp: running_at_def)
  then show ?thesis using card_const [OF assms(1)] by (simp add: run_secs_def)
qed

lemma run_secs_after:
  assumes "t0 \<le> ev_time i" "ev_time i \<le> rt"
  shows "run_secs (i # rest) g st t0 rt =
    (if st = TIMER_STATUS_STARTED then ev_time i - t0 else 0) +
    run_secs rest g (if applies g i then ev_action i else st) (ev_time i) rt"
proof -
  have "run_secs (i # rest) g st t0 rt =
    run_secs (i # rest) g st t0 (ev_time i) + run_secs (i # rest) g st (ev_time i) rt"
    unfolding run_secs_def by (rule card_split [OF assms])
  moreover have "run_secs (i # rest) g st (ev_time i) rt =
    run_secs rest g (if applies g i then ev_action i else st) (ev_time i) rt"
  proof -
    have "{s. ev_time i \<le> s \<and> s < rt \<and> running_at (i # rest) g st s} =
      {s. ev_time i \<le> s \<and> s < rt \<and>
          running_at rest g (if applies g i then ev_action i else st) s}"
      by (auto simp: running_at_def)
    then show ?thesis by (simp add: run_secs_def)
  qed
  ultimately show ?thesis using run_secs_before [OF assms(1) order_refl] by simp
qed

lemma run_secs_nonneg: "0 \<le> run_secs evs g st t0 rt"
  by (simp add: run_secs_def)

lemma run_secs_mono: "rt \<le> rt' \<Longrightarrow> run_secs evs g st t0 rt \<le> run_secs evs g st t0 rt'"
  unfolding run_secs_def by (auto intro!: card_mono finite_running)

lemma contestTime_loop_run_secs:
  assumes "events_wf evs" "\<forall>e\<in>set evs. t0 \<le> ev_time e" "valid_action st" "t0 \<le> rt"
  shows "contestTime_loop evs g rt (el, l, st) = (el', l', st') \<Longrightarrow>
    st' = contestStatus_loop evs g rt st \<and>
    el' + (if st' = TIMER_STATUS_STARTED then rt - l' else 0) =
      el + (if st = TIMER_STATUS_STARTED then t0 - l else 0) + run_secs evs g st t0 rt"
  using assms
proof (induction evs arbitrary: t0 el l st)
  case Nil
  then show ?case by (auto simp: run_secs_Nil)
next
  case (Cons i rest)
  show ?case
  proof (cases "ev_time i \<le> rt")
    case False
    with Cons show ?thesis by (auto simp: run_secs_before)
  next
    case True
    have wf: "events_wf rest" "\<forall>e\<in>set rest. ev_time i \<le> ev_time e" "valid_action (ev_action i)"
      and ti: "t0 \<le> ev_time i"
      using Cons.prems by (auto simp: events_wf_Cons)
    define acc where "acc = (if applies g i \<and> ev_action i \<noteq> st then
        (if ev_action i = TIMER_STATUS_STARTED then (el, ev_time i, ev_action i)
         else (el + (ev_time i - l), l, ev_action i)) else (el, l, st))"
    obtain el1 l1 st1 where acc: "acc = (el1, l1, st1)" by (cases acc)
    have loop: "contestTime_loop rest g rt (el1, l1, st1) = (el', l', st')"
      using Cons.prems(1) True acc by (simp add: acc_def)
    have st1: "st1 = (if applies g i then ev_action i else st)"
      using acc by (auto simp: acc_def split: if_splits)
    moreover have "valid_action st1" using st1 wf(3) Cons.prems(4) by simp
    moreover have "el1 + (if st1 = TIMER_STATUS_STARTED then ev_time i - l1 else 0) =
      el + (if st = TIMER_STATUS_STARTED then ev_time i - l else 0)"
      using acc wf(3) Cons.prems(4) by (auto simp: acc_def valid_action_def split: if_splits)
    ultimately show ?thesis
      using Cons.IH [OF loop wf(1,2) _ True] True run_secs_after [OF ti True, of rest g st]
      by auto
  qed
qed

lemma run_secs_start:
  assumes "events_wf evs" "0 \<le> rt"
  shows "contestTime_loop evs g rt (0, 0, TIMER_STATUS_STOPPED) = (el', l', st') \<Longrightarrow>
    st' = contestStatus_loop evs g rt TIMER_STATUS_STOPPED \<and>
    el' + (if st' = TIMER_STATUS_STARTED then rt - l' else 0) =
      run_secs evs g TIMER_STATUS_STOPPED 0 rt"
proof -
  have "\<forall>e\<in>set evs. 0 \<le> ev_time e" using assms(1) by (auto simp: events_wf_def)
  then show "contestTime_loop evs g rt (0, 0, TIMER_STATUS_STOPPED) = (el', l', st') \<Longrightarrow> ?thesis"
    using contestTime_loop_run_secs [of evs 0 TIMER_STATUS_STOPPED rt g 0 0 el' l' st'] assms
    by (auto simp: valid_action_def)
qed

lemma contestTime_run_secs:
  assumes "events_wf (evlist t)" "0 < rt"
  shows "contestTime t now g rt =
    min (duration t) (run_secs (evlist t) g TIMER_STATUS_STOPPED 0 rt)"
  using run_secs_start [OF assms(1), of rt g] assms(2)
  by (auto simp: contestTime_def effective_time_def Let_def min_def split: prod.splits)

section \<open>The end time\<close>

text \<open>
  The loop of \<^verbatim>\<open>contestEndTime\<close> from the state \<open>(st, rem, l)\<close> reached at time \<open>t0\<close>, where
  \<open>left\<close> contest seconds remain at \<open>t0\<close>.
\<close>

definition left_at :: "int \<Rightarrow> time_t \<Rightarrow> time_t \<Rightarrow> time_t \<Rightarrow> time_t" where
  "left_at st rem l t0 = (if st = TIMER_STATUS_STARTED then rem - (t0 - l) else rem)"

definition loop_ok :: "startstop_event list \<Rightarrow> int \<Rightarrow> time_t \<Rightarrow> time_t \<Rightarrow> time_t \<Rightarrow> bool" where
  "loop_ok evs st rem l t0 \<longleftrightarrow> events_wf evs \<and> (\<forall>e\<in>set evs. t0 \<le> ev_time e) \<and>
     valid_action st \<and> 0 \<le> rem \<and> 0 < t0 \<and> (st = TIMER_STATUS_STARTED \<longrightarrow> 0 < l \<and> l \<le> t0)"

lemma loop_ok_step:
  assumes "loop_ok (i # rest) st rem l t0"
  shows "t0 \<le> ev_time i" "valid_action (ev_action i)"
    "\<not> (applies g i \<and> ev_action i \<noteq> st) \<Longrightarrow> loop_ok rest st rem l (ev_time i)"
    "ev_action i = TIMER_STATUS_STARTED \<Longrightarrow> loop_ok rest (ev_action i) rem (ev_time i) (ev_time i)"
    "ev_action i \<noteq> TIMER_STATUS_STARTED \<Longrightarrow> ev_time i - l \<le> rem \<Longrightarrow>
       loop_ok rest (ev_action i) (rem - (ev_time i - l)) l (ev_time i)"
  using assms by (auto simp: loop_ok_def events_wf_Cons)

lemma end_step_cases:
  obtains (same) "\<not> (applies g i \<and> ev_action i \<noteq> st)"
  | (start) "applies g i \<and> ev_action i \<noteq> st" "ev_action i = TIMER_STATUS_STARTED"
  | (ret) "applies g i \<and> ev_action i \<noteq> st" "ev_action i \<noteq> TIMER_STATUS_STARTED"
      "rem < ev_time i - l"
  | (stop) "applies g i \<and> ev_action i \<noteq> st" "ev_action i \<noteq> TIMER_STATUS_STARTED"
      "ev_time i - l \<le> rem"
  by linarith

lemma endTime_overdue:
  "loop_ok evs st rem l t0 \<Longrightarrow> st = TIMER_STATUS_STARTED \<Longrightarrow> left_at st rem l t0 < 0 \<Longrightarrow>
   contestEndTime_loop evs g st rem l = l + rem"
proof (induction evs arbitrary: t0)
  case (Cons i rest)
  note step = loop_ok_step [OF Cons.prems(1)]
  show ?case
  proof (cases "applies g i \<and> ev_action i \<noteq> st")
    case True
    with step(1,2) Cons.prems show ?thesis by (auto simp: left_at_def)
  next
    case False
    from Cons.IH [OF step(3) [OF False] Cons.prems(2)] step(1) Cons.prems(2,3) False
    show ?thesis by (auto simp: left_at_def)
  qed
qed simp

lemma endTime_lower:
  "loop_ok evs st rem l t0 \<Longrightarrow> contestEndTime_loop evs g st rem l \<noteq> 0 \<Longrightarrow>
   t0 + (if st = TIMER_STATUS_STARTED then min 0 (left_at st rem l t0) else 0)
     \<le> contestEndTime_loop evs g st rem l"
proof (induction evs g st rem l arbitrary: t0 rule: contestEndTime_loop.induct)
  case (1 g st rem l)
  then show ?case by (auto simp: left_at_def)
next
  case (2 i rest g st rem l)
  note step = loop_ok_step [OF 2(4)]
  show ?case
  proof (cases rule: end_step_cases [where g = g and i = i and st = st and rem = rem and l = l])
    case same
    with 2(3) [OF same step(3) [OF same]] 2(5) step(1) show ?thesis
      by (auto simp: left_at_def split: if_splits)
  next
    case start
    with 2(1) [OF start step(4) [OF start(2)]] 2(4,5) step(1) show ?thesis
      by (auto simp: left_at_def loop_ok_def split: if_splits)
  next
    case ret
    with 2(4,5) step(1,2) show ?thesis by (auto simp: left_at_def loop_ok_def valid_action_def)
  next
    case stop
    with 2(2) [OF stop(1,2) refl _ step(5) [OF stop(2,3)]] 2(5) step(1) show ?thesis
      by (auto simp: left_at_def split: if_splits)
  qed
qed


lemma endTime_sound:
  "loop_ok evs st rem l t0 \<Longrightarrow> t0 \<le> rt \<Longrightarrow> contestEndTime_loop evs g st rem l \<noteq> 0 \<Longrightarrow>
   contestEndTime_loop evs g st rem l \<le> rt \<Longrightarrow> left_at st rem l t0 \<le> run_secs evs g st t0 rt"
proof (induction evs g st rem l arbitrary: t0 rule: contestEndTime_loop.induct)
  case (1 g st rem l)
  then show ?case by (auto simp: left_at_def run_secs_Nil split: if_splits)
next
  case (2 i rest g st rem l)
  note step = loop_ok_step [OF 2(4)]
  note lower = endTime_lower [OF 2(4,6)]
  show ?case
  proof (cases "ev_time i \<le> rt")
    case False
    then have rs: "run_secs (i # rest) g st t0 rt = (if st = TIMER_STATUS_STARTED then rt - t0 else 0)"
      using run_secs_before [OF 2(5)] by simp
    show ?thesis
    proof (cases "applies g i \<and> ev_action i \<noteq> st")
      case True
      with rs False lower step 2(4-7)
        endTime_lower [OF step(4), of g] endTime_lower [OF step(5), of g]
      show ?thesis
        by (auto simp: left_at_def loop_ok_def valid_action_def Let_def split: if_splits)
    next
      case same: False
      with rs False 2(4-7) lower endTime_lower [OF step(3) [OF same], of g] show ?thesis
        by (auto simp: left_at_def loop_ok_def valid_action_def split: if_splits)
    qed
  next
    case True
    note rs = run_secs_after [OF step(1) True, of rest g st]
    note nonneg = run_secs_nonneg [of rest g "ev_action i" "ev_time i" rt]
    show ?thesis
    proof (cases rule: end_step_cases [where g = g and i = i and st = st and rem = rem and l = l])
      case same
      with 2(3) [OF same step(3) [OF same] True] 2(6,7) rs show ?thesis
        by (auto simp: left_at_def split: if_splits)
    next
      case start
      with 2(1) [OF start step(4) [OF start(2)] True] 2(6,7) rs show ?thesis
        by (auto simp: left_at_def split: if_splits)
    next
      case ret
      with 2(4) step(2) rs nonneg show ?thesis
        by (auto simp: left_at_def loop_ok_def valid_action_def)
    next
      case stop
      with 2(2) [OF stop(1,2) refl _ step(5) [OF stop(2,3)] True] 2(4,6,7) rs step(2) show ?thesis
        by (auto simp: left_at_def loop_ok_def valid_action_def split: if_splits)
    qed
  qed
qed

lemma endTime_complete:
  "loop_ok evs st rem l t0 \<Longrightarrow> t0 \<le> rt \<Longrightarrow> running_at evs g st rt \<Longrightarrow>
   left_at st rem l t0 \<le> run_secs evs g st t0 rt \<Longrightarrow>
   contestEndTime_loop evs g st rem l \<noteq> 0 \<and> contestEndTime_loop evs g st rem l \<le> rt"
proof (induction evs g st rem l arbitrary: t0 rule: contestEndTime_loop.induct)
  case (1 g st rem l)
  then show ?case by (auto simp: left_at_def run_secs_Nil running_at_def loop_ok_def)
next
  case (2 i rest g st rem l)
  note step = loop_ok_step [OF 2(4)]
  show ?case
  proof (cases "ev_time i \<le> rt")
    case False
    then have st: "st = TIMER_STATUS_STARTED" using 2(6) by (auto simp: running_at_def)
    with False have rs: "run_secs (i # rest) g st t0 rt = rt - t0"
      using run_secs_before [OF 2(5)] by simp
    with st 2(7) have "left_at st rem l (ev_time i) < 0" using False by (simp add: left_at_def)
    then have "contestEndTime_loop (i # rest) g st rem l = l + rem"
      using endTime_overdue [OF step(3) st, of g g] st 2(4) step(2)
      by (auto simp: left_at_def loop_ok_def)
    with rs st 2(4,7) show ?thesis by (simp add: left_at_def loop_ok_def)
  next
    case True
    note rs = run_secs_after [OF step(1) True, of rest g st]
    have run: "running_at rest g (if applies g i then ev_action i else st) rt"
      using 2(6) True by (simp add: running_at_def)
    show ?thesis
    proof (cases rule: end_step_cases [where g = g and i = i and st = st and rem = rem and l = l])
      case same
      with 2(3) [OF same step(3) [OF same] True] run 2(7) rs show ?thesis
        by (auto simp: left_at_def split: if_splits)
    next
      case start
      with 2(1) [OF start step(4) [OF start(2)] True] run 2(7) rs show ?thesis
        by (auto simp: left_at_def split: if_splits)
    next
      case ret
      with 2(4) step(2) True show ?thesis
        by (auto simp: loop_ok_def valid_action_def)
    next
      case stop
      with 2(2) [OF stop(1,2) refl _ step(5) [OF stop(2,3)] True] run 2(4,7) rs step(2) show ?thesis
        by (auto simp: left_at_def loop_ok_def valid_action_def split: if_splits)
    qed
  qed
qed


lemma contestStatus_loop_valid:
  "\<forall>e\<in>set evs. valid_action (ev_action e) \<Longrightarrow> valid_action st \<Longrightarrow>
   valid_action (contestStatus_loop evs g rt st)"
  by (induction evs g rt st rule: contestStatus_loop.induct) auto

lemma contestStatus_loop_early:
  "\<forall>e\<in>set evs. rt < ev_time e \<Longrightarrow> contestStatus_loop evs g rt st = st"
  by (cases evs) auto

lemma run_secs_epoch:
  assumes "events_wf evs" "0 < rt"
  shows "run_secs evs g TIMER_STATUS_STOPPED 0 rt = run_secs evs g TIMER_STATUS_STOPPED 1 rt"
proof -
  have "running_at evs g TIMER_STATUS_STOPPED 0 = False"
    using assms(1) contestStatus_loop_early [of evs 0 g TIMER_STATUS_STOPPED]
    by (simp add: running_at_def events_wf_def)
  then have "{s. 0 \<le> s \<and> s < rt \<and> running_at evs g TIMER_STATUS_STOPPED s} =
    {s. 1 \<le> s \<and> s < rt \<and> running_at evs g TIMER_STATUS_STOPPED s}"
    by (metis (no_types, lifting) int_one_le_iff_zero_less order_le_less)
  then show ?thesis by (simp add: run_secs_def)
qed

lemma loop_ok_initial:
  "events_wf evs \<Longrightarrow> 0 \<le> d \<Longrightarrow> loop_ok evs TIMER_STATUS_STOPPED d 0 1"
  by (auto simp: loop_ok_def events_wf_def valid_action_def int_one_le_iff_zero_less)

lemma contestStatus_expiry:
  assumes "events_wf (evlist t)" "0 < duration t" "0 < rt"
  shows "contestStatus t now g rt =
    (if contestEndTime t g \<noteq> 0 \<and> contestEndTime t g \<le> rt then TIMER_STATUS_STOPPED
     else contestStatus_loop (evlist t) g rt TIMER_STATUS_STOPPED)"
proof -
  let ?E = "contestEndTime t g" and ?S = "contestStatus_loop (evlist t) g rt TIMER_STATUS_STOPPED"
  let ?r = "run_secs (evlist t) g TIMER_STATUS_STOPPED 1 rt"
  have ok: "loop_ok (evlist t) TIMER_STATUS_STOPPED (duration t) 0 1"
    using assms by (simp add: loop_ok_initial)
  have over: "contestTime t now g rt \<ge> duration t \<longleftrightarrow> duration t \<le> ?r"
    by (simp add: contestTime_run_secs assms run_secs_epoch)
  have "1 \<le> rt" using assms(3) by simp
  note sound = endTime_sound [OF ok this, of g] and complete = endTime_complete [OF ok this, of g]
  have valid: "valid_action ?S"
    using assms(1) by (intro contestStatus_loop_valid) (auto simp: events_wf_def valid_action_def)
  have S: "contestStatus t now g rt = (if duration t \<le> ?r then TIMER_STATUS_STOPPED else ?S)"
    using over assms(3) by (simp add: contestStatus_def effective_time_def)
  show ?thesis
  proof (cases "?E \<noteq> 0 \<and> ?E \<le> rt")
    case True
    then have "duration t \<le> ?r" using sound by (simp add: contestEndTime_def left_at_def)
    with True S show ?thesis by simp
  next
    case False
    then have "duration t \<le> ?r \<Longrightarrow> ?S \<noteq> TIMER_STATUS_STARTED"
      using complete by (auto simp: contestEndTime_def left_at_def running_at_def)
    with False S valid show ?thesis by (auto simp: valid_action_def)
  qed
qed

section \<open>Scheduling and restart\<close>

lemma insert_event_set: "set (insert_event e evs) = insert e (set evs)"
  by (induction evs) auto

lemma insert_event_sorted:
  "sorted (map ev_time evs) \<Longrightarrow> sorted (map ev_time (insert_event e evs))"
  by (induction evs) (auto simp: insert_event_set)

lemma insert_event_wf:
  "events_wf evs \<Longrightarrow> 0 < ev_time e \<Longrightarrow> valid_action (ev_action e) \<Longrightarrow> events_wf (insert_event e evs)"
  by (auto simp: events_wf_def insert_event_sorted insert_event_set)

lemma insert_event_distinct:
  "distinct (map ev_time evs) \<Longrightarrow> ev_time e \<notin> ev_time ` set evs \<Longrightarrow>
   distinct (map ev_time (insert_event e evs))"
  by (induction evs) (auto simp: insert_event_set)

definition event_of_row :: "startstop_row \<Rightarrow> startstop_event" where
  "event_of_row r = (case r of (g, start, time) \<Rightarrow>
     \<lparr>ev_time = time, ev_group = g,
      ev_action = (if start then TIMER_STATUS_STARTED else TIMER_STATUS_STOPPED)\<rparr>)"

lemma load_events_rev: "load_events rows evs = rev (map event_of_row rows) @ evs"
  by (induction rows evs rule: load_events.induct) (simp_all add: event_of_row_def)

text \<open>
  The table mirrors the list when it holds the row of each event and no other. A list
  whose times are distinct is then what an answer to the query loads.
\<close>

definition mirrors :: "startstop_row list \<Rightarrow> startstop_event list \<Rightarrow> bool" where
  "mirrors tab evs \<longleftrightarrow> event_of_row ` set tab = set evs"

lemma answer_sorted:
  "startstop_answer tab rows \<Longrightarrow> sorted (map ev_time (rev (map event_of_row rows)))"
  by (auto simp: startstop_answer_def sorted_wrt_rev sorted_map sorted_wrt_map rev_map [symmetric]
      row_before_def event_of_row_def split: prod.splits elim!: sorted_wrt_mono_rel [rotated])

lemma event_of_row_inj: "event_of_row r = event_of_row s \<longleftrightarrow> r = s"
  by (auto simp: event_of_row_def split: prod.splits if_splits)

lemma distinct_key_unique:
  assumes "sorted (map f xs)" "sorted (map f ys)" "distinct (map f xs)" "distinct ys"
    "set xs = set ys"
  shows "xs = (ys :: 'a list)"
proof -
  have inj: "inj_on f (set xs)" using assms(3) by (simp add: distinct_map)
  then have "distinct (map f ys)" using assms(4,5) by (simp add: distinct_map)
  then have "map f xs = map f ys"
    using assms by (intro sorted_distinct_set_unique) auto
  then show ?thesis using inj assms(5) by (metis inj_on_map_eq_map map_inj_on sup.idem)
qed

lemma reload_events:
  assumes "events_wf evs" "distinct (map ev_time evs)" "mirrors tab evs" "startstop_answer tab rows"
  shows "load_events rows [] = evs"
proof -
  have "distinct (rev (map event_of_row rows))"
    using assms(4) by (auto simp: startstop_answer_def distinct_map inj_on_def event_of_row_inj)
  moreover have "set evs = set (rev (map event_of_row rows))"
    using assms(3,4) by (auto simp: mirrors_def startstop_answer_def)
  ultimately have "evs = rev (map event_of_row rows)"
    using assms(1,2) answer_sorted [OF assms(4)]
    by (intro distinct_key_unique [of ev_time]) (auto simp: events_wf_def)
  then show ?thesis by (simp add: load_events_rev)
qed


text \<open>A sequence of accepted scheduling requests \<open>(group, time, action)\<close>.\<close>

fun schedule_all :: "(u32 \<times> time_t \<times> int) list \<Rightarrow> timer \<times> startstop_row list \<Rightarrow> timer \<times> startstop_row list" where
  "schedule_all [] s = s"
| "schedule_all ((g, time, action) # reqs) (t, tab) =
     schedule_all reqs (snd (scheduleStartStop t tab (Some True) g time action))"

lemma scheduleStartStop_accepted:
  "scheduleStartStop t tab (Some True) g time action =
     (True, t\<lparr>evlist := insert_event \<lparr>ev_time = time, ev_group = g, ev_action = action\<rparr> (evlist t)\<rparr>,
      replace_row (g, action = TIMER_STATUS_STARTED, time) tab)"
  by (simp add: scheduleStartStop_def)

lemma mirrors_schedule:
  assumes "mirrors tab evs" "valid_action action"
  shows "mirrors (replace_row (g, action = TIMER_STATUS_STARTED, time) tab)
    (insert_event \<lparr>ev_time = time, ev_group = g, ev_action = action\<rparr> evs)"
proof -
  have "event_of_row (g, action = TIMER_STATUS_STARTED, time) =
    \<lparr>ev_time = time, ev_group = g, ev_action = action\<rparr>"
    using assms(2) by (auto simp: event_of_row_def valid_action_def)
  moreover have "set (replace_row r tab) = insert r (set tab)" for r
    by (auto simp: replace_row_def)
  ultimately show ?thesis using assms(1) by (simp add: mirrors_def insert_event_set)
qed

definition reqs_ok :: "(u32 \<times> time_t \<times> int) list \<Rightarrow> bool" where
  "reqs_ok reqs \<longleftrightarrow> distinct (map (fst \<circ> snd) reqs) \<and>
     list_all (\<lambda>(g, time, action). 0 < time \<and> valid_action action) reqs"

lemma schedule_all_invariant:
  "events_wf (evlist t) \<Longrightarrow> distinct (map ev_time (evlist t)) \<Longrightarrow> mirrors tab (evlist t) \<Longrightarrow>
   reqs_ok reqs \<Longrightarrow> (fst \<circ> snd) ` set reqs \<inter> ev_time ` set (evlist t) = {} \<Longrightarrow>
   schedule_all reqs (t, tab) = (t', tab') \<Longrightarrow>
   events_wf (evlist t') \<and> distinct (map ev_time (evlist t')) \<and> mirrors tab' (evlist t')"
proof (induction reqs arbitrary: t tab)
  case (Cons r reqs)
  obtain g time action where r: "r = (g, time, action)" by (cases r)
  let ?e = "\<lparr>ev_time = time, ev_group = g, ev_action = action\<rparr>"
  let ?t = "t\<lparr>evlist := insert_event ?e (evlist t)\<rparr>"
  let ?tab = "replace_row (g, action = TIMER_STATUS_STARTED, time) tab"
  have ok: "0 < time" "valid_action action" "reqs_ok reqs" "time \<notin> ev_time ` set (evlist t)"
    "(fst \<circ> snd) ` set reqs \<inter> ev_time ` set (evlist ?t) = {}"
    using Cons.prems(4,5) r by (auto simp: reqs_ok_def insert_event_set)
  have "schedule_all reqs (?t, ?tab) = (t', tab')"
    using Cons.prems(6) r by (simp add: scheduleStartStop_accepted)
  then show ?case
    using Cons.prems(1-3) ok
    by (intro Cons.IH [of ?t ?tab])
      (simp_all add: insert_event_wf insert_event_distinct mirrors_schedule)
qed auto

section \<open>The clock as an interface\<close>

text \<open>
  What the standings and the submission handlers rely on: the contest time of a group
  lies between zero and the duration and never runs backwards.
\<close>

locale contest_clock =
  fixes ctime :: "'s \<Rightarrow> 'g \<Rightarrow> time_t \<Rightarrow> time_t"
    and dur :: "'s \<Rightarrow> time_t"
    and blind_len :: "'s \<Rightarrow> time_t"
    and invar :: "'s \<Rightarrow> bool"
  assumes ctime_nonneg: "invar s \<Longrightarrow> 0 < rt \<Longrightarrow> 0 \<le> dur s \<Longrightarrow> 0 \<le> ctime s g rt"
    and ctime_le: "invar s \<Longrightarrow> 0 < rt \<Longrightarrow> ctime s g rt \<le> dur s"
    and ctime_mono: "invar s \<Longrightarrow> 0 < rt \<Longrightarrow> rt \<le> rt' \<Longrightarrow> ctime s g rt \<le> ctime s g rt'"
begin

lemma blinded_persists:
  "invar s \<Longrightarrow> 0 < rt \<Longrightarrow> rt \<le> rt' \<Longrightarrow> dur s - blind_len s < ctime s g rt \<Longrightarrow>
   dur s - blind_len s < ctime s g rt'"
  using ctime_mono [of s rt rt' g] by simp

lemma never_blinded:
  "invar s \<Longrightarrow> 0 < rt \<Longrightarrow> blind_len s \<le> 0 \<Longrightarrow> \<not> dur s - blind_len s < ctime s g rt"
  using ctime_le [of s rt g] by simp

lemma expiry_persists:
  "invar s \<Longrightarrow> 0 < rt \<Longrightarrow> rt \<le> rt' \<Longrightarrow> dur s \<le> ctime s g rt \<Longrightarrow> ctime s g rt' = dur s"
  using ctime_mono [of s rt rt' g] ctime_le [of s rt' g] by simp

end

text \<open>The model's clock provides it when its event list is well formed.\<close>

interpretation clk: contest_clock "\<lambda>t. contestTime t now" duration blinds
  "\<lambda>t. events_wf (evlist t)" for now
proof
  fix t :: timer and rt rt' :: time_t and g
  assume wf: "events_wf (evlist t)" and rt: "0 < rt"
  show "0 \<le> duration t \<Longrightarrow> 0 \<le> contestTime t now g rt"
    using wf rt by (simp add: contestTime_run_secs run_secs_nonneg)
  show "contestTime t now g rt \<le> duration t"
    using wf rt by (simp add: contestTime_run_secs)
  show "rt \<le> rt' \<Longrightarrow> contestTime t now g rt \<le> contestTime t now g rt'"
    using wf rt run_secs_mono [of rt rt' "evlist t" g TIMER_STATUS_STOPPED 0]
    by (simp add: contestTime_run_secs)
qed

section \<open>Properties\<close>

text \<open>
  Claim C11. The contest time of a group at an instant after the epoch is the number of
  whole seconds before it at which the last event for the group was a start, capped at
  the duration of the contest.
\<close>

theorem contestTime_counts_running_seconds:
  assumes "events_wf (evlist t)" and "0 < rt"
  shows "contestTime t now g rt =
    min (duration t)
      (int (card {s. 0 \<le> s \<and> s < rt \<and>
         contestStatus_loop (evlist t) g s TIMER_STATUS_STOPPED = TIMER_STATUS_STARTED}))"
  using contestTime_run_secs [OF assms] by (simp add: run_secs_def running_at_def)

definition example_timer :: timer where
  "example_timer = timer_new\<lparr>duration := 100, blinds := 20,
     evlist := [\<lparr>ev_time = 10, ev_group = 0, ev_action = 1\<rparr>,
                \<lparr>ev_time = 40, ev_group = 7, ev_action = 2\<rparr>,
                \<lparr>ev_time = 60, ev_group = 7, ev_action = 1\<rparr>]\<rparr>"

lemma example_timer_wf: "events_wf (evlist example_timer)"
  by (simp add: example_timer_def events_wf_def valid_action_def TIMER_STATUS_STARTED_def
      TIMER_STATUS_STOPPED_def)

theorem contestTime_counts_running_seconds_witness:
  "contestTime example_timer 0 7 70 = 40 \<and>
   min 100 (int (card {s. 0 \<le> s \<and> s < 70 \<and>
     contestStatus_loop (evlist example_timer) 7 s TIMER_STATUS_STOPPED = TIMER_STATUS_STARTED})) = 40"
proof -
  have "contestTime example_timer 0 7 70 = 40" by code_simp
  moreover have "duration example_timer = 100" by code_simp
  ultimately show ?thesis
    using contestTime_counts_running_seconds [OF example_timer_wf, of 70 0 7] by simp
qed

text \<open>
  Claim C14. The state of a group is the action of its last event, except that from a
  non-zero \<^verbatim>\<open>contestEndTime\<close> on it is stopped: the end time is exactly the instant at which
  the clock, and not an explicit stop, ends the contest.
\<close>

theorem contestStatus_ends_at_contestEndTime:
  assumes "events_wf (evlist t)" and "0 < duration t" and "0 < rt"
  shows "contestStatus t now g rt =
    (if contestEndTime t g \<noteq> 0 \<and> contestEndTime t g \<le> rt then TIMER_STATUS_STOPPED
     else contestStatus_loop (evlist t) g rt TIMER_STATUS_STOPPED)"
  by (rule contestStatus_expiry [OF assms])

theorem contestStatus_ends_at_contestEndTime_witness:
  "contestEndTime example_timer 7 = 130 \<and> contestStatus example_timer 0 7 130 = TIMER_STATUS_STOPPED
   \<and> contestStatus example_timer 0 7 129 = TIMER_STATUS_STARTED"
proof -
  have d: "0 < duration example_timer" and e: "contestEndTime example_timer 7 = 130"
    and s: "contestStatus_loop (evlist example_timer) 7 129 TIMER_STATUS_STOPPED = TIMER_STATUS_STARTED"
    by code_simp+
  show ?thesis
    using contestStatus_ends_at_contestEndTime [OF example_timer_wf d, of 130 0 7]
      contestStatus_ends_at_contestEndTime [OF example_timer_wf d, of 129 0 7] e s by simp
qed

text \<open>
  Claim C24. The contest time of a group never exceeds the duration, is not negative and
  never decreases, so standings that are blinded for an instant stay blinded at every
  later instant.
\<close>

theorem contest_clock_laws:
  assumes "events_wf (evlist t)" and "0 \<le> duration t" and "0 < rt" and "rt \<le> rt'"
  shows "0 \<le> contestTime t now g rt \<and> contestTime t now g rt \<le> contestTime t now g rt' \<and>
    contestTime t now g rt' \<le> duration t \<and>
    (isBlinded t (contestTime t now g rt) \<longrightarrow> isBlinded t (contestTime t now g rt'))"
  using clk.ctime_nonneg [OF assms(1,3,2)] clk.ctime_mono [OF assms(1,3,4)] clk.ctime_le [OF assms(1)]
    clk.blinded_persists [OF assms(1,3,4)] assms(3,4) by (simp add: isBlinded_def)

theorem contest_clock_laws_witness:
  "isBlinded example_timer (contestTime example_timer 0 3 120) \<and>
   contestTime example_timer 0 3 95 \<le> contestTime example_timer 0 3 120"
proof -
  have d: "0 \<le> duration example_timer" "isBlinded example_timer (contestTime example_timer 0 3 95)"
    by code_simp+
  then show ?thesis
    using contest_clock_laws [OF example_timer_wf d(1), of 95 120 0 3] by simp
qed

text \<open>
  Claim C23. Scheduling keeps the events in order, and after any sequence of accepted
  requests for distinct instants the table and the list agree: a restart that loads the
  table, in any order the query may answer, has the list of the running server.
\<close>

theorem restart_reloads_schedule:
  assumes "reqs_ok reqs" and "schedule_all reqs (timer_new, []) = (t, tab)"
    and "startstop_answer tab rows"
  shows "events_wf (evlist t) \<and>
    evlist (timer_init timer_new conf_duration conf_blinds (Some rows)) = evlist t"
proof -
  have "events_wf (evlist t) \<and> distinct (map ev_time (evlist t)) \<and> mirrors tab (evlist t)"
    by (rule schedule_all_invariant [OF _ _ _ assms(1) _ assms(2)])
      (simp_all add: timer_new_def events_wf_def mirrors_def)
  then show ?thesis using reload_events [OF _ _ _ assms(3)]
    by (simp add: timer_init_def Let_def timer_new_def)
qed

theorem restart_reloads_schedule_witness:
  "evlist (timer_init timer_new ''300'' ''60'' (Some [(0, False, 20), (5, True, 10)])) =
     evlist (fst (schedule_all [(0, 20, 2), (5, 10, 1)] (timer_new, [])))"
proof -
  have "reqs_ok [(0, 20, 2), (5, 10, 1)]"
    by (simp add: reqs_ok_def valid_action_def TIMER_STATUS_STARTED_def TIMER_STATUS_STOPPED_def)
  moreover have "startstop_answer (snd (schedule_all [(0, 20, 2), (5, 10, 1)] (timer_new, [])))
      [(0, False, 20), (5, True, 10)]"
    by (simp add: startstop_answer_def row_before_def scheduleStartStop_accepted replace_row_def
        TIMER_STATUS_STARTED_def insert_commute)
  ultimately show ?thesis
    using restart_reloads_schedule [of "[(0, 20, 2), (5, 10, 1)]"
        "fst (schedule_all [(0, 20, 2), (5, 10, 1)] (timer_new, []))"
        "snd (schedule_all [(0, 20, 2), (5, 10, 1)] (timer_new, []))"
        "[(0, False, 20), (5, True, 10)]" "''300''" "''60''"] by simp
qed


end
