(* ===== verification/Std_Map.thy ===== *)
theory Std_Map
  imports Prelude "HOL-Library.Char_ord" "HOL-Library.List_Lexorder"
begin

text \<open>
  \<^verbatim>\<open>std::map\<close> as the sources use it: a list of pairs in ascending key order, which is the
  order iteration sees. Strings compare by unsigned character codes, as
  \<^verbatim>\<open>std::string\<close> does.
\<close>

type_synonym ('k, 'v) smap = "('k \<times> 'v) list"

section \<open>Operations\<close>

text \<open>\<^verbatim>\<open>find\<close>, \<^verbatim>\<open>m[k] = v\<close> and \<^verbatim>\<open>erase\<close>.\<close>

fun smap_find :: "('k::linorder, 'v) smap \<Rightarrow> 'k \<Rightarrow> 'v option" where
  "smap_find [] k = None"
| "smap_find ((k', v) # m) k = (if k = k' then Some v else smap_find m k)"

fun smap_put :: "'k::linorder \<Rightarrow> 'v \<Rightarrow> ('k, 'v) smap \<Rightarrow> ('k, 'v) smap" where
  "smap_put k v [] = [(k, v)]"
| "smap_put k v ((k', v') # m) =
     (if k < k' then (k, v) # (k', v') # m
      else if k = k' then (k, v) # m
      else (k', v') # smap_put k v m)"

fun smap_erase :: "'k::linorder \<Rightarrow> ('k, 'v) smap \<Rightarrow> ('k, 'v) smap" where
  "smap_erase k [] = []"
| "smap_erase k ((k', v) # m) = (if k = k' then m else (k', v) # smap_erase k m)"

definition smap_ok :: "('k::linorder, 'v) smap \<Rightarrow> bool" where
  "smap_ok m \<longleftrightarrow> sorted_wrt (<) (map fst m)"

section \<open>The map interface\<close>

text \<open>
  The laws a client of a finite map uses: what a lookup finds after a write or an erase,
  and that both keep the invariant.
\<close>

locale finite_map =
  fixes find :: "'m \<Rightarrow> 'k \<Rightarrow> 'v option"
    and put :: "'k \<Rightarrow> 'v \<Rightarrow> 'm \<Rightarrow> 'm"
    and erase :: "'k \<Rightarrow> 'm \<Rightarrow> 'm"
    and invar :: "'m \<Rightarrow> bool"
  assumes find_put: "invar m \<Longrightarrow> find (put k v m) k' = (if k' = k then Some v else find m k')"
    and find_erase: "invar m \<Longrightarrow> find (erase k m) k' = (if k' = k then None else find m k')"
    and invar_put: "invar m \<Longrightarrow> invar (put k v m)"
    and invar_erase: "invar m \<Longrightarrow> invar (erase k m)"
begin

lemma put_put_same: "invar m \<Longrightarrow> find (put k v (put k w m)) = find (put k v m)"
  by (rule ext) (simp add: find_put invar_put)

lemma erase_put_same: "invar m \<Longrightarrow> find m k = None \<Longrightarrow> find (erase k (put k v m)) = find m"
  by (rule ext) (simp add: find_put find_erase invar_put)

lemma put_commute:
  "invar m \<Longrightarrow> k \<noteq> l \<Longrightarrow> find (put k v (put l w m)) = find (put l w (put k v m))"
  by (rule ext) (simp add: find_put invar_put)

end

section \<open>Laws\<close>

lemma smap_ok_Nil [simp, intro]: "smap_ok []"
  by (simp add: smap_ok_def)

lemma smap_ok_Cons:
  "smap_ok ((k, v) # m) \<longleftrightarrow> smap_ok m \<and> (\<forall>k'\<in>fst ` set m. k < k')"
  by (auto simp: smap_ok_def)

lemma smap_find_dom: "smap_find m k = None \<longleftrightarrow> k \<notin> fst ` set m"
  by (induction m k rule: smap_find.induct) auto

lemma smap_find_in: "smap_find m k = Some v \<Longrightarrow> (k, v) \<in> set m"
  by (induction m k rule: smap_find.induct) (auto split: if_splits)

lemma smap_put_keys: "fst ` set (smap_put k v m) = insert k (fst ` set m)"
  by (induction k v m rule: smap_put.induct) auto

lemma smap_ok_put: "smap_ok m \<Longrightarrow> smap_ok (smap_put k v m)"
  by (induction k v m rule: smap_put.induct) (force simp: smap_ok_Cons smap_put_keys)+

lemma smap_find_put: "smap_find (smap_put k v m) k' = (if k' = k then Some v else smap_find m k')"
  by (induction k v m rule: smap_put.induct) auto

lemma smap_erase_subset: "set (smap_erase k m) \<subseteq> set m"
  by (induction k m rule: smap_erase.induct) auto

lemma smap_ok_erase: "smap_ok m \<Longrightarrow> smap_ok (smap_erase k m)"
proof (induction k m rule: smap_erase.induct)
  case (2 k k' v m)
  then show ?case using smap_erase_subset [of k m] by (auto simp: smap_ok_Cons)
qed simp

lemma smap_find_erase:
  "smap_ok m \<Longrightarrow> smap_find (smap_erase k m) k' = (if k' = k then None else smap_find m k')"
proof (induction k m rule: smap_erase.induct)
  case (2 k l v m)
  then have "smap_find m l = None" by (auto simp: smap_ok_Cons smap_find_dom)
  with 2 show ?case by (auto simp: smap_ok_Cons)
qed simp

lemma smap_find_member: "(k, v) \<in> set m \<Longrightarrow> smap_ok m \<Longrightarrow> smap_find m k = Some v"
proof (induction m)
  case (Cons kv m)
  then show ?case by (cases kv) (force simp: smap_ok_Cons)
qed simp

interpretation sm: finite_map smap_find smap_put smap_erase smap_ok
  by unfold_locales (simp_all add: smap_find_put smap_find_erase smap_ok_put smap_ok_erase)

text \<open>A map is determined by its lookups.\<close>

lemma smap_ext:
  "smap_ok m \<Longrightarrow> smap_ok n \<Longrightarrow> (\<And>k. smap_find m k = smap_find n k) \<Longrightarrow> m = n"
proof (induction m arbitrary: n)
  case Nil
  then show ?case by (cases n) (auto split: if_splits, metis option.distinct(1))
next
  case (Cons kv m)
  obtain k v where kv: "kv = (k, v)" by (cases kv)
  from Cons.prems(3) [of k] kv obtain l w n' where n: "n = (l, w) # n'" by (cases n) auto
  have km: "smap_find m k = None" and ln: "smap_find n' l = None"
    using Cons.prems(1,2) kv n by (auto simp: smap_ok_Cons smap_find_dom)
  have "k = l"
  proof (rule ccontr)
    assume ne: "k \<noteq> l"
    then have "k \<in> fst ` set n'" "l \<in> fst ` set m"
      using Cons.prems(3) [of k] Cons.prems(3) [of l] kv n smap_find_dom [of n' k]
        smap_find_dom [of m l] by (auto split: if_splits)
    then show False using Cons.prems(1,2) kv n by (auto simp: smap_ok_Cons dest!: bspec)
  qed
  moreover have "v = w" using Cons.prems(3) [of k] kv n \<open>k = l\<close> by simp
  moreover have "smap_find m x = smap_find n' x" for x
    using Cons.prems(3) [of x] kv n km ln \<open>k = l\<close> by (auto split: if_splits)
  then have "m = n'" using Cons.IH Cons.prems(1,2) kv n by (simp add: smap_ok_Cons)
  ultimately show ?case using kv n by simp
qed

text \<open>Writing the pairs of a map in order rebuilds it.\<close>

lemma smap_put_last:
  "\<forall>k'\<in>fst ` set m. k' < k \<Longrightarrow> smap_put k v m = m @ [(k, v)]"
  by (induction k v m rule: smap_put.induct) (auto dest: less_asym)

lemma smap_rebuild_from:
  "smap_ok (m @ n) \<Longrightarrow> fold (\<lambda>(k, v). smap_put k v) n m = m @ n"
proof (induction n arbitrary: m)
  case (Cons kv n)
  obtain k v where kv: "kv = (k, v)" by (cases kv)
  have "\<forall>k'\<in>fst ` set m. k' < k" using Cons.prems kv by (auto simp: smap_ok_def sorted_wrt_append)
  then have "smap_put k v m = m @ [(k, v)]" by (rule smap_put_last)
  then show ?case using Cons.IH [of "m @ [(k, v)]"] Cons.prems kv by simp
qed simp

lemma smap_rebuild: "smap_ok m \<Longrightarrow> fold (\<lambda>(k, v). smap_put k v) m [] = m"
  using smap_rebuild_from [of "[]" m] by simp

end
