(* ===== verification/Message_Block.thy ===== *)
theory Message_Block
  imports Numerals Std_Map
begin

text \<open>
  The text protocol between clients and the server, \<^verbatim>\<open>include/messageblock.h\<close> and
  \<^verbatim>\<open>src/messageblock.C\<close>: a message line with an action and an optional id, header lines,
  an empty line and optional content, and the incremental parser that collects one block
  from the bytes of a connection. The reading loop is \<^verbatim>\<open>ClientConnection::read_data\<close> of
  \<^verbatim>\<open>src/clientconnection.C\<close>.
\<close>

section \<open>Blocks\<close>

text \<open>
  The state of a \<^verbatim>\<open>MessageBlock\<close>. While headers are collected, \<^verbatim>\<open>_content\<close> holds the
  beginning of an unfinished line and \<^verbatim>\<open>_content_pos\<close> is null. While content is collected
  \<^verbatim>\<open>_content_pos\<close> is its offset in \<^verbatim>\<open>_content\<close>, of which the model keeps the bytes
  already written.
\<close>

record MessageBlock =
  mb_message :: string
  mb_message_id :: string
  mb_headers :: "(string, string) smap"
  mb_content_length :: int
  mb_content :: "string option"
  mb_content_pos :: "nat option"

definition MessageBlock_empty :: MessageBlock where
  "MessageBlock_empty = \<lparr>mb_message = [], mb_message_id = [], mb_headers = [],
     mb_content_length = 0, mb_content = None, mb_content_pos = None\<rparr>"

definition MessageBlock_new :: "string \<Rightarrow> MessageBlock" where
  "MessageBlock_new message = MessageBlock_empty\<lparr>mb_message := message\<rparr>"

definition mb_get :: "MessageBlock \<Rightarrow> string \<Rightarrow> string" where
  "mb_get mb name = (case smap_find (mb_headers mb) name of Some v \<Rightarrow> v | None \<Rightarrow> [])"

definition mb_set :: "string \<Rightarrow> string \<Rightarrow> MessageBlock \<Rightarrow> MessageBlock" where
  "mb_set name v mb = mb\<lparr>mb_headers := smap_put name v (mb_headers mb)\<rparr>"

definition hasAttribute :: "MessageBlock \<Rightarrow> string \<Rightarrow> bool" where
  "hasAttribute mb name \<longleftrightarrow> smap_find (mb_headers mb) name \<noteq> None"

definition setMessageId :: "string \<Rightarrow> MessageBlock \<Rightarrow> MessageBlock" where
  "setMessageId i mb = mb\<lparr>mb_message_id := i\<rparr>"

definition mb_error :: "string \<Rightarrow> MessageBlock" where
  "mb_error msg = mb_set ''msg'' msg (MessageBlock_new ''err'')"

definition mb_ok :: MessageBlock where
  "mb_ok = MessageBlock_new ''ok''"

text \<open>
  \<^verbatim>\<open>setContent\<close>: empty data clears the content but not the header; otherwise the content
  is stored and the header is written.
\<close>

definition setContent :: "string \<Rightarrow> MessageBlock \<Rightarrow> MessageBlock" where
  "setContent data mb =
     (if data = [] then
        mb\<lparr>mb_content := None, mb_content_pos := None, mb_content_length := 0\<rparr>
      else mb\<lparr>mb_content_length := int (length data), mb_content := Some data,
              mb_content_pos := Some (length data),
              mb_headers := smap_put ''content-length'' (string_of_nat (length data)) (mb_headers mb)\<rparr>)"

fun raw_headers :: "(string, string) smap \<Rightarrow> string" where
  "raw_headers [] = []"
| "raw_headers ((k, v) # hs) = k @ '':'' @ v @ [CHR 0x0A] @ raw_headers hs"

definition getRaw :: "MessageBlock \<Rightarrow> string" where
  "getRaw mb =
     mb_message mb @ (if mb_message_id mb \<noteq> [] then '' '' @ mb_message_id mb else []) @ [CHR 0x0A] @
     raw_headers (mb_headers mb) @ [CHR 0x0A] @
     (case mb_content mb of None \<Rightarrow> [] | Some c \<Rightarrow> c)"

section \<open>The parser\<close>

text \<open>\<^verbatim>\<open>line.find(c)\<close> splits a line at the first occurrence of a character.\<close>

fun split_at :: "char \<Rightarrow> string \<Rightarrow> (string \<times> string) option" where
  "split_at c [] = None"
| "split_at c (x # xs) = (if x = c then Some ([], xs)
     else map_option (\<lambda>(a, b). (x # a, b)) (split_at c xs))"

text \<open>Collecting content: the first branch of \<^verbatim>\<open>addBytes\<close>.\<close>

definition add_content :: "MessageBlock \<Rightarrow> string \<Rightarrow> int \<times> MessageBlock" where
  "add_content mb bytes =
     (let pos = the (mb_content_pos mb);
          bytesleft = mb_content_length mb - int pos;
          count = int (length bytes);
          to_copy = (if count < bytesleft then count else bytesleft);
          old = (case mb_content mb of None \<Rightarrow> [] | Some c \<Rightarrow> c)
      in (if count < bytesleft then 0 else bytesleft,
          mb\<lparr>mb_content := Some (old @ take (nat to_copy) bytes),
             mb_content_pos := Some (pos + nat to_copy)\<rparr>))"

text \<open>
  What a finished line does: the message line, a header, or the end of the headers.
\<close>

datatype line_result = Line_more MessageBlock | Line_end MessageBlock | Line_bad MessageBlock

definition finish_headers :: "MessageBlock \<Rightarrow> MessageBlock" where
  "finish_headers mb =
     (let len = (case smap_find (mb_headers mb) ''content-length'' of
                   Some v \<Rightarrow> to_int32 (atol v) | None \<Rightarrow> 0)
      in if len > 0 then mb\<lparr>mb_content_length := len, mb_content := Some [], mb_content_pos := Some 0\<rparr>
         else mb\<lparr>mb_content_length := len\<rparr>)"

definition add_line :: "MessageBlock \<Rightarrow> string \<Rightarrow> line_result" where
  "add_line mb line =
     (if mb_message mb = [] then
        (case split_at (CHR '' '') line of
           Some (a, b) \<Rightarrow> Line_more (mb\<lparr>mb_message := a, mb_message_id := b\<rparr>)
         | None \<Rightarrow> Line_more (mb\<lparr>mb_message := line\<rparr>))
      else if line = [] then Line_end (finish_headers mb)
      else (case split_at (CHR '':'') line of
           Some (k, v) \<Rightarrow> Line_more (mb_set k v mb)
         | None \<Rightarrow> Line_bad mb))"

definition take_pending :: "MessageBlock \<Rightarrow> string \<times> MessageBlock" where
  "take_pending mb = (case mb_content mb of
       None \<Rightarrow> ([], mb)
     | Some c \<Rightarrow> (c, mb\<lparr>mb_content := None, mb_content_length := 0\<rparr>))"

definition buffer_line :: "MessageBlock \<Rightarrow> string \<Rightarrow> MessageBlock" where
  "buffer_line mb bytes =
     mb\<lparr>mb_content := Some ((case mb_content mb of None \<Rightarrow> [] | Some c \<Rightarrow> c) @ bytes),
        mb_content_length := mb_content_length mb + int (length bytes)\<rparr>"

text \<open>The loop over lines; \<open>chowed\<close> counts the bytes consumed by this call.\<close>

function add_lines :: "MessageBlock \<Rightarrow> string \<Rightarrow> int \<Rightarrow> int \<times> MessageBlock" where
  "add_lines mb bytes chowed =
     (if bytes = [] then (0, mb)
      else case split_at (CHR 0x0A) bytes of
        None \<Rightarrow> (0, buffer_line mb bytes)
      | Some (part, rest) \<Rightarrow>
          (let (pending, mb1) = take_pending mb;
               chowed' = chowed + int (length part) + 1
           in case add_line mb1 (pending @ part) of
                Line_more mb2 \<Rightarrow> add_lines mb2 rest chowed'
              | Line_bad mb2 \<Rightarrow> (- 1, mb2)
              | Line_end mb2 \<Rightarrow>
                  (if mb_content_length mb2 > 0 then
                     (let (res, mb3) = add_content mb2 rest
                      in (if res \<le> 0 then res else chowed' + res, mb3))
                   else (chowed', mb2))))"
  by pat_completeness auto

lemma split_at_some: "split_at c xs = Some (a, b) \<longleftrightarrow> c \<notin> set a \<and> xs = a @ c # b"
  by (induction xs arbitrary: a b) (auto simp: Cons_eq_append_conv)

lemma split_at_none: "split_at c xs = None \<longleftrightarrow> c \<notin> set xs"
  by (induction xs) auto

termination add_lines
  by (relation "measure (\<lambda>(mb, bytes, chowed). length bytes)") (auto simp: split_at_some)

declare add_lines.simps [simp del]

definition addBytes :: "MessageBlock \<Rightarrow> string \<Rightarrow> int \<times> MessageBlock" where
  "addBytes mb bytes =
     (if mb_content_pos mb \<noteq> None then add_content mb bytes else add_lines mb bytes 0)"

section \<open>The reading loop\<close>

text \<open>
  The inner loop of \<^verbatim>\<open>ClientConnection::read_data\<close> on the bytes of one read: the blocks
  handed to \<^verbatim>\<open>ClientAction::process\<close> and the block in progress, or None when the parser
  rejects the input and the connection is closed.
\<close>

function read_bytes ::
  "MessageBlock option \<Rightarrow> string \<Rightarrow> (MessageBlock list \<times> MessageBlock option) option" where
  "read_bytes cur bytes =
     (if bytes = [] then Some ([], cur)
      else let (res, mb) = addBytes (case cur of None \<Rightarrow> MessageBlock_empty | Some m \<Rightarrow> m) bytes
           in if res < 0 then None
              else if res > 0 then
                map_option (\<lambda>(mbs, cur'). (mb # mbs, cur')) (read_bytes None (drop (nat res) bytes))
              else Some ([], Some mb))"
  by pat_completeness auto

termination read_bytes
  by (relation "measure (\<lambda>(cur, bytes). length bytes)") auto

declare read_bytes.simps [simp del]

text \<open>Successive reads of a connection.\<close>

fun read_chunks ::
  "MessageBlock option \<Rightarrow> string list \<Rightarrow> (MessageBlock list \<times> MessageBlock option) option" where
  "read_chunks cur [] = Some ([], cur)"
| "read_chunks cur (c # cs) = (case read_bytes cur c of
       None \<Rightarrow> None
     | Some (mbs, cur') \<Rightarrow>
         map_option (\<lambda>(mbs', cur''). (mbs @ mbs', cur'')) (read_chunks cur' cs))"

section \<open>States of the parser\<close>

definition header_ok :: "MessageBlock \<Rightarrow> bool" where
  "header_ok mb \<longleftrightarrow> mb_content_pos mb = None \<and>
     mb_content_length mb = (case mb_content mb of None \<Rightarrow> 0 | Some c \<Rightarrow> int (length c))"

definition content_ok :: "MessageBlock \<Rightarrow> bool" where
  "content_ok mb \<longleftrightarrow> (\<exists>c. mb_content mb = Some c \<and> mb_content_pos mb = Some (length c) \<and>
     int (length c) < mb_content_length mb)"

definition parse_ok :: "MessageBlock \<Rightarrow> bool" where
  "parse_ok mb \<longleftrightarrow> header_ok mb \<or> content_ok mb"

lemma parse_ok_empty [simp]: "parse_ok MessageBlock_empty" "header_ok MessageBlock_empty"
  by (simp_all add: parse_ok_def header_ok_def MessageBlock_empty_def)

lemma take_pending_ok:
  "header_ok mb \<Longrightarrow> take_pending mb = (p, mb1) \<Longrightarrow>
   header_ok mb1 \<and> mb_content mb1 = None \<and> mb_content_length mb1 = 0"
  by (auto simp: header_ok_def take_pending_def split: option.splits)

lemma add_line_more:
  "add_line mb line = Line_more mb' \<Longrightarrow> header_ok mb \<Longrightarrow> header_ok mb'"
  by (auto simp: add_line_def header_ok_def mb_set_def split: if_splits option.splits)

lemma add_line_end:
  assumes "add_line mb line = Line_end mb'" "mb_content mb = None"
  shows "mb_content_length mb' > 0 \<Longrightarrow> content_ok mb' \<and> mb_content_pos mb' = Some 0"
  using assms
  by (auto simp: add_line_def finish_headers_def content_ok_def Let_def
      split: if_splits option.splits)

lemma buffer_line_ok: "header_ok mb \<Longrightarrow> header_ok (buffer_line mb bytes)"
  by (auto simp: header_ok_def buffer_line_def split: option.splits)

section \<open>Independence of chunks\<close>

definition shift :: "int \<Rightarrow> int \<times> MessageBlock \<Rightarrow> int \<times> MessageBlock" where
  "shift d x = (if fst x > 0 then d + fst x else fst x, snd x)"

lemma shift_simps [simp]: "shift 0 x = x" "shift d (0, m) = (0, m)" "0 \<le> d \<Longrightarrow> 0 \<le> e \<Longrightarrow> shift d (shift e x) = shift (d + e) x"
  by (auto simp: shift_def)

text \<open>Content: what is added in two calls is what one call adds.\<close>

lemma add_content_append:
  assumes "content_ok mb" "add_content mb a = (r, mb1)"
  shows "r \<noteq> 0 \<Longrightarrow> add_content mb (a @ b) = (r, mb1) \<and> 0 < r \<and> r \<le> int (length a)"
    and "r = 0 \<Longrightarrow> content_ok mb1 \<and> add_content mb (a @ b) =
      shift (int (length a)) (add_content mb1 b)"
proof -
  obtain c where c: "mb_content mb = Some c" "mb_content_pos mb = Some (length c)"
    "int (length c) < mb_content_length mb" using assms(1) by (auto simp: content_ok_def)
  then show "r \<noteq> 0 \<Longrightarrow> add_content mb (a @ b) = (r, mb1) \<and> 0 < r \<and> r \<le> int (length a)"
    using assms(2) by (auto simp: add_content_def Let_def split: if_splits)
  assume "r = 0"
  with c assms(2) have lt: "int (length a) < mb_content_length mb - int (length c)"
    and mb1: "mb1 = mb\<lparr>mb_content := Some (c @ a), mb_content_pos := Some (length c + length a)\<rparr>"
    by (auto simp: add_content_def Let_def split: if_splits)
  have ok: "content_ok mb1" using c lt mb1 by (simp add: content_ok_def)
  moreover have "add_content mb (a @ b) =
      shift (int (length a)) (add_content mb1 b)"
  proof -
    have n: "nat (mb_content_length mb - int (length c)) - length a =
      nat (mb_content_length mb - int (length c) - int (length a))" using lt by simp
    show ?thesis using c lt
      by (auto simp: add_content_def Let_def mb1 n nat_diff_distrib' nat_int_add shift_def algebra_simps)
  qed
  ultimately show "content_ok mb1 \<and> add_content mb (a @ b) =
      shift (int (length a)) (add_content mb1 b)" by blast
qed

text \<open>The count of consumed bytes only shifts the positive results.\<close>

lemma add_content_result: "content_ok mb \<Longrightarrow> add_content mb bytes = (r, mb1) \<Longrightarrow> 0 \<le> r"
  by (auto simp: add_content_def content_ok_def Let_def split: if_splits)

lemma add_lines_shift:
  "0 \<le> c \<Longrightarrow> 0 \<le> d \<Longrightarrow> add_lines mb bytes (c + d) =
     shift d (add_lines mb bytes c)"
proof (induction mb bytes c rule: add_lines.induct)
  case (1 mb bytes c)
  show ?case
  proof (cases "bytes = []")
    case True
    then show ?thesis by (simp add: add_lines.simps)
  next
    case ne: False
    show ?thesis
    proof (cases "split_at (CHR 0x0A) bytes")
      case None
      with ne show ?thesis by (simp add: add_lines.simps)
    next
      case (Some pr)
      obtain part rest where pr: "pr = (part, rest)" by (cases pr)
      obtain p mb1 where tp: "take_pending mb = (p, mb1)" by (cases "take_pending mb")
      let ?c = "c + int (length part) + 1"
      have eq: "c + d + int (length part) + 1 = ?c + d" by simp
      show ?thesis
      proof (cases "add_line mb1 (p @ part)")
        case (Line_more mb2)
        have "add_lines mb2 rest (?c + d) =
          shift d (add_lines mb2 rest ?c)"
          using 1(1) [OF ne Some pr [symmetric] refl tp [symmetric] refl Line_more] 1(2,3) tp by simp
        with ne Some pr tp Line_more show ?thesis
          by (subst (1 2) add_lines.simps) (simp add: eq)
      next
        case (Line_end mb2)
        with ne Some pr tp 1(2,3) show ?thesis
          by (subst (1 2) add_lines.simps)
            (auto simp: eq Let_def shift_def split: prod.splits)
      next
        case (Line_bad mb2)
        with ne Some pr tp show ?thesis by (subst (1 2) add_lines.simps) (simp add: shift_def)
      qed
    qed
  qed
qed


text \<open>One line of input, and input without a complete line.\<close>

lemma add_lines_line:
  assumes "CHR 0x0A \<notin> set part" "take_pending mb = (p, mb1)"
  shows "add_lines mb (part @ CHR 0x0A # rest) c =
    (let c' = c + int (length part) + 1 in case add_line mb1 (p @ part) of
       Line_more mb2 \<Rightarrow> add_lines mb2 rest c'
     | Line_bad mb2 \<Rightarrow> (- 1, mb2)
     | Line_end mb2 \<Rightarrow>
         (if mb_content_length mb2 > 0 then
            shift c' (add_content mb2 rest)
          else (c', mb2)))"
proof -
  have "split_at (CHR 0x0A) (part @ CHR 0x0A # rest) = Some (part, rest)"
    using assms(1) by (simp add: split_at_some)
  with assms(2) show ?thesis
    by (subst add_lines.simps) (auto simp: Let_def shift_def split: line_result.split prod.split)
qed

lemma add_lines_no_newline:
  "CHR 0x0A \<notin> set bytes \<Longrightarrow> add_lines mb bytes c = (0, if bytes = [] then mb else buffer_line mb bytes)"
  by (subst add_lines.simps) (simp add: split_at_none [THEN iffD2])

lemma buffer_line_append:
  "buffer_line (buffer_line mb a) b = buffer_line mb (a @ b)"
  by (auto simp: buffer_line_def split: option.splits)

lemma take_pending_buffer:
  assumes "header_ok mb" "take_pending mb = (p, mb1)"
  shows "take_pending (buffer_line mb a) = (p @ a, mb1)"
  using assms
  by (cases "mb_content mb") (auto simp: header_ok_def take_pending_def buffer_line_def)

lemma add_lines_buffered:
  assumes "header_ok mb" "CHR 0x0A \<notin> set a" "a \<noteq> []" "0 \<le> c"
  shows "add_lines mb (a @ b) c =
    shift (c + int (length a)) (add_lines (buffer_line mb a) b 0)"
proof (cases "split_at (CHR 0x0A) b")
  case None
  with assms show ?thesis
    by (auto simp: add_lines_no_newline split_at_none buffer_line_append)
next
  case (Some pr)
  then obtain p1 rest where b: "b = p1 @ CHR 0x0A # rest" "CHR 0x0A \<notin> set p1"
    by (cases pr) (auto simp: split_at_some)
  obtain p mb1 where tp: "take_pending mb = (p, mb1)" by (cases "take_pending mb")
  have "add_lines mb ((a @ p1) @ CHR 0x0A # rest) c =
    add_lines (buffer_line mb a) (p1 @ CHR 0x0A # rest) (c + int (length a))"
    using assms(2) b(2) add_lines_line [of "a @ p1" mb p mb1 rest c] tp
      add_lines_line [OF b(2) take_pending_buffer [OF assms(1) tp], of a rest "c + int (length a)"]
    by (simp add: algebra_simps)
  also have "\<dots> = shift (c + int (length a)) (add_lines (buffer_line mb a) b 0)"
    using add_lines_shift [of 0 "c + int (length a)" "buffer_line mb a" b] assms(4) b by simp
  finally show ?thesis using b by (simp add: algebra_simps)
qed

lemma add_lines_append:
  assumes "header_ok mb" "0 \<le> c" "add_lines mb a c = (r, mb1)"
  shows "(r \<noteq> 0 \<longrightarrow> add_lines mb (a @ b) c = (r, mb1) \<and> (0 < r \<longrightarrow> r \<le> c + int (length a))) \<and>
    (r = 0 \<longrightarrow> parse_ok mb1 \<and> add_lines mb (a @ b) c =
      shift (c + int (length a)) (addBytes mb1 b))"
  using assms
proof (induction mb a c arbitrary: r mb1 rule: add_lines.induct)
  case (1 mb a c)
  show ?case
  proof (cases "split_at (CHR 0x0A) a")
    case None
    then have nl: "CHR 0x0A \<notin> set a" by (simp add: split_at_none)
    then have r: "r = 0" "mb1 = (if a = [] then mb else buffer_line mb a)"
      using 1(4) by (auto simp: add_lines_no_newline)
    have "header_ok mb1" using r 1(2) buffer_line_ok by simp
    moreover from this have "mb_content_pos mb1 = None" by (simp add: header_ok_def)
    moreover have "add_lines mb (a @ b) c =
      shift (c + int (length a)) (add_lines mb1 b 0)"
      using r nl 1(2,3) add_lines_buffered [of mb a c b] add_lines_shift [of 0 c mb b]
      by (cases "a = []") (simp_all add: algebra_simps)
    ultimately show ?thesis using r by (simp add: addBytes_def parse_ok_def)
  next
    case (Some pr)
    then obtain part rest where a: "a = part @ CHR 0x0A # rest" "CHR 0x0A \<notin> set part" "pr = (part, rest)"
      by (cases pr) (auto simp: split_at_some)
    obtain p mb0 where tp: "take_pending mb = (p, mb0)" by (cases "take_pending mb")
    note mb0 = take_pending_ok [OF 1(2) tp]
    let ?c = "c + int (length part) + 1"
    have ne: "a \<noteq> []" using a by simp
    note line = add_lines_line [OF a(2) tp, of _ c]
    show ?thesis
    proof (cases "add_line mb0 (p @ part)")
      case (Line_more mb2)
      have "header_ok mb2" using add_line_more [OF Line_more] mb0 by blast
      moreover have "add_lines mb2 rest ?c = (r, mb1)"
        using 1(4) line [of rest] a(1) Line_more by simp
      ultimately show ?thesis
        using 1(1) [OF ne Some a(3) [symmetric] refl tp [symmetric] refl Line_more, of r mb1] 1(3)
          line [of "rest @ b"] a(1) Line_more by (simp add: algebra_simps Let_def)
    next
      case (Line_bad mb2)
      with 1(4) line [of rest] line [of "rest @ b"] a(1) show ?thesis by auto
    next
      case (Line_end mb2)
      show ?thesis
      proof (cases "mb_content_length mb2 > 0")
        case False
        with Line_end 1(3,4) line [of rest] line [of "rest @ b"] a(1) show ?thesis by auto
      next
        case True
        then have ok: "content_ok mb2" "mb_content_pos mb2 = Some 0"
          using add_line_end [OF Line_end] mb0 by auto
        obtain res mb3 where ac: "add_content mb2 rest = (res, mb3)" by (cases "add_content mb2 rest")
        have res: "0 \<le> res" using add_content_result [OF ok(1) ac] .
        have r: "r = (if res \<le> 0 then res else ?c + res)" "mb1 = mb3"
          using 1(4) line [of rest] a(1) Line_end True ac by (auto simp: shift_def)
        note app = add_content_append [OF ok(1) ac, of b]
        show ?thesis
        proof (cases "res = 0")
          case z: True
          then have "mb_content_pos mb3 \<noteq> None" "content_ok mb3"
            using app(2) by (auto simp: content_ok_def)
          with z r app(2) line [of "rest @ b"] a(1) Line_end True 1(3) show ?thesis
            by (auto simp: addBytes_def parse_ok_def algebra_simps)
        next
          case nz: False
          with res r app(1) line [of "rest @ b"] a(1) Line_end True 1(3) show ?thesis
            by (auto simp: shift_def)
        qed
      qed
    qed
  qed
qed

lemma addBytes_append:
  assumes "parse_ok mb" "addBytes mb a = (r, mb1)"
  shows "r \<noteq> 0 \<Longrightarrow> addBytes mb (a @ b) = (r, mb1) \<and> r \<le> int (length a)"
    and "r = 0 \<Longrightarrow> parse_ok mb1 \<and> addBytes mb (a @ b) =
      shift (int (length a)) (addBytes mb1 b)"
proof -
  consider "header_ok mb" "mb_content_pos mb = None" | "content_ok mb" "mb_content_pos mb \<noteq> None"
    using assms(1) by (auto simp: parse_ok_def header_ok_def content_ok_def)
  then have "(r \<noteq> 0 \<longrightarrow> addBytes mb (a @ b) = (r, mb1) \<and> r \<le> int (length a)) \<and>
    (r = 0 \<longrightarrow> parse_ok mb1 \<and> addBytes mb (a @ b) =
      shift (int (length a)) (addBytes mb1 b))"
  proof cases
    case 1
    with assms(2) add_lines_append [of mb 0 a r mb1 b] show ?thesis
      by (cases "r > 0") (auto simp: addBytes_def [of mb])
  next
    case 2
    with assms(2) add_content_append [of mb a r mb1 b] show ?thesis
      by (cases "r = 0")
        (auto simp: addBytes_def parse_ok_def content_ok_def [of mb1] split: prod.splits)
  qed
  then show "r \<noteq> 0 \<Longrightarrow> addBytes mb (a @ b) = (r, mb1) \<and> r \<le> int (length a)"
    "r = 0 \<Longrightarrow> parse_ok mb1 \<and> addBytes mb (a @ b) =
      shift (int (length a)) (addBytes mb1 b)" by blast+
qed


section \<open>Streams of blocks\<close>

definition cur_ok :: "MessageBlock option \<Rightarrow> bool" where
  "cur_ok cur \<longleftrightarrow> (case cur of None \<Rightarrow> True | Some mb \<Rightarrow> parse_ok mb)"

abbreviation cur_mb :: "MessageBlock option \<Rightarrow> MessageBlock" where
  "cur_mb cur \<equiv> (case cur of None \<Rightarrow> MessageBlock_empty | Some m \<Rightarrow> m)"

definition deliver ::
  "MessageBlock list \<Rightarrow> (MessageBlock list \<times> MessageBlock option) option \<Rightarrow>
   (MessageBlock list \<times> MessageBlock option) option" where
  "deliver mbs x = map_option (\<lambda>(ms, cur). (mbs @ ms, cur)) x"

lemma deliver_simps [simp]:
  "deliver mbs None = None" "deliver mbs (Some (ms, cur)) = Some (mbs @ ms, cur)"
  "deliver [] x = x" "deliver as (deliver bs x) = deliver (as @ bs) x"
  by (cases x; auto simp: deliver_def)+

lemma read_bytes_step:
  assumes "bytes \<noteq> []" "addBytes (cur_mb cur) bytes = (res, mb)"
  shows "read_bytes cur bytes =
    (if res < 0 then None
     else if res > 0 then deliver [mb] (read_bytes None (drop (nat res) bytes))
     else Some ([], Some mb))"
  using assms by (subst read_bytes.simps) (auto simp: deliver_def case_prod_beta)

lemma read_bytes_append_both:
  "cur_ok cur \<Longrightarrow> read_bytes cur (a @ b) = (case read_bytes cur a of
       None \<Rightarrow> None | Some (mbs, cur') \<Rightarrow> deliver mbs (read_bytes cur' b)) \<and>
   (\<forall>mbs cur'. read_bytes cur a = Some (mbs, cur') \<longrightarrow> cur_ok cur')"
proof (induction cur a rule: read_bytes.induct)
  case (1 cur a)
  have ok: "parse_ok (cur_mb cur)" using 1(2) by (auto simp: cur_ok_def split: option.splits)
  obtain res mb where ab: "addBytes (cur_mb cur) a = (res, mb)" by (cases "addBytes (cur_mb cur) a")
  show ?case
  proof (cases "a = []")
    case True
    with 1(2) show ?thesis by (simp add: read_bytes.simps [of cur "[]"])
  next
    case ne: False
    consider "res < 0" | "res > 0" | "res = 0" by linarith
    then show ?thesis
    proof cases
      case 1
      with ne ab addBytes_append(1) [OF ok ab, of b] show ?thesis
        by (auto simp: read_bytes_step)
    next
      case pos: 2
      then have app: "addBytes (cur_mb cur) (a @ b) = (res, mb)" "nat res \<le> length a"
        using addBytes_append(1) [OF ok ab, of b] by auto
      have IH: "read_bytes None (drop (nat res) a @ b) = (case read_bytes None (drop (nat res) a) of
         None \<Rightarrow> None | Some (mbs, cur') \<Rightarrow> deliver mbs (read_bytes cur' b)) \<and>
         (\<forall>mbs cur'. read_bytes None (drop (nat res) a) = Some (mbs, cur') \<longrightarrow> cur_ok cur')"
        using 1(1) [OF ne ab [symmetric] refl _ pos] pos by (simp add: cur_ok_def)
      have "read_bytes cur (a @ b) = deliver [mb] (read_bytes None (drop (nat res) a @ b))"
        using read_bytes_step [OF _ app(1)] ne pos app(2) by simp
      moreover have "read_bytes cur a = deliver [mb] (read_bytes None (drop (nat res) a))"
        using read_bytes_step [OF ne ab] pos by simp
      ultimately show ?thesis using IH
        by (cases "read_bytes None (drop (nat res) a)") auto
    next
      case z: 3
      then have app: "parse_ok mb" "addBytes (cur_mb cur) (a @ b) = shift (int (length a)) (addBytes mb b)"
        using addBytes_append(2) [OF ok ab, of b] by auto
      obtain r2 m2 where r2: "addBytes mb b = (r2, m2)" by (cases "addBytes mb b")
      have ra: "read_bytes cur a = Some ([], Some mb)" using read_bytes_step [OF ne ab] z by simp
      show ?thesis
      proof (cases "b = []")
        case True
        with ra app(1) show ?thesis by (simp add: read_bytes.simps [of _ "[]"] cur_ok_def)
      next
        case False
        have "read_bytes cur (a @ b) = read_bytes (Some mb) b"
          using read_bytes_step [OF _ app(2) [unfolded r2 shift_def fst_conv snd_conv]] ne
            read_bytes_step [OF False, of "Some mb"] r2 by (auto simp: nat_add_distrib)
        with ra app(1) show ?thesis by (simp add: cur_ok_def)
      qed
    qed
  qed
qed

lemmas read_bytes_append = read_bytes_append_both [THEN conjunct1]
  read_bytes_append_both [THEN conjunct2, rule_format]

lemma read_chunks_concat:
  "cur_ok cur \<Longrightarrow> read_chunks cur cs = read_bytes cur (concat cs)"
proof (induction cs arbitrary: cur)
  case Nil
  then show ?case by (simp add: read_bytes.simps [of cur "[]"])
next
  case (Cons c cs)
  show ?case
  proof (cases "read_bytes cur c")
    case None
    with read_bytes_append(1) [OF Cons.prems, of c "concat cs"] show ?thesis by simp
  next
    case (Some x)
    obtain mbs cur' where x: "x = (mbs, cur')" by (cases x)
    have "cur_ok cur'" using read_bytes_append(2) [OF Cons.prems] Some x by blast
    with Cons.IH [of cur'] Some x read_bytes_append(1) [OF Cons.prems, of c "concat cs"]
    show ?thesis by (simp add: deliver_def)
  qed
qed

section \<open>Round trip\<close>

text \<open>
  Blocks that survive the wire: no separator inside the parts, and content that agrees
  with the content-length header.
\<close>

definition plain :: "string \<Rightarrow> bool" where
  "plain s \<longleftrightarrow> CHR 0x0A \<notin> set s"

definition headers_ok :: "(string, string) smap \<Rightarrow> bool" where
  "headers_ok hs \<longleftrightarrow> smap_ok hs \<and>
     list_all (\<lambda>(k, v). plain k \<and> CHR '':'' \<notin> set k \<and> plain v) hs"

definition content_agrees :: "MessageBlock \<Rightarrow> bool" where
  "content_agrees mb \<longleftrightarrow> (case mb_content mb of
       None \<Rightarrow> mb_content_pos mb = None \<and> mb_content_length mb = 0 \<and>
         smap_find (mb_headers mb) ''content-length'' = None
     | Some c \<Rightarrow> c \<noteq> [] \<and> length c < 2 ^ 31 \<and> mb_content_pos mb = Some (length c) \<and>
         mb_content_length mb = int (length c) \<and>
         smap_find (mb_headers mb) ''content-length'' = Some (string_of_nat (length c)))"

definition block_ok :: "MessageBlock \<Rightarrow> bool" where
  "block_ok mb \<longleftrightarrow> mb_message mb \<noteq> [] \<and> plain (mb_message mb) \<and> CHR '' '' \<notin> set (mb_message mb) \<and>
     plain (mb_message_id mb) \<and> headers_ok (mb_headers mb) \<and> content_agrees mb"

lemma add_lines_headers:
  "mb_message mb \<noteq> [] \<Longrightarrow> mb_content mb = None \<Longrightarrow>
   list_all (\<lambda>(k, v). plain k \<and> CHR '':'' \<notin> set k \<and> plain v) hs \<Longrightarrow>
   add_lines mb (raw_headers hs @ rest) c =
     add_lines (mb\<lparr>mb_headers := fold (\<lambda>(k, v). smap_put k v) hs (mb_headers mb)\<rparr>) rest
       (c + int (length (raw_headers hs)))"
proof (induction hs arbitrary: mb c)
  case (Cons kv hs)
  obtain k v where kv: "kv = (k, v)" by (cases kv)
  let ?line = "k @ CHR '':'' # v"
  have nl: "CHR 0x0A \<notin> set ?line" and colon: "CHR '':'' \<notin> set k"
    using Cons.prems(3) kv by (auto simp: plain_def)
  have sp: "split_at (CHR '':'') ?line = Some (k, v)" using colon by (simp add: split_at_some)
  have "add_line mb ?line = Line_more (mb_set k v mb)"
    using Cons.prems(1) sp by (simp add: add_line_def)
  moreover have "take_pending mb = ([], mb)" using Cons.prems(2) by (simp add: take_pending_def)
  ultimately have "add_lines mb (?line @ CHR 0x0A # (raw_headers hs @ rest)) c =
    add_lines (mb_set k v mb) (raw_headers hs @ rest) (c + int (length ?line) + 1)"
    using add_lines_line [OF nl, of mb "[]" mb] by simp
  also have "\<dots> = add_lines ((mb_set k v mb)\<lparr>mb_headers :=
      fold (\<lambda>(k, v). smap_put k v) hs (mb_headers (mb_set k v mb))\<rparr>) rest
      (c + int (length ?line) + 1 + int (length (raw_headers hs)))"
    using Cons.prems by (intro Cons.IH) (simp_all add: mb_set_def)
  finally show ?case using kv by (simp add: mb_set_def algebra_simps)
qed simp


lemma getRaw_headers_parse:
  assumes "block_ok mb"
  shows "add_lines MessageBlock_empty (getRaw mb @ rest) 0 =
    (let n = int (length (getRaw mb)) - int (length (case mb_content mb of None \<Rightarrow> [] | Some c \<Rightarrow> c));
         mb1 = finish_headers (MessageBlock_empty\<lparr>mb_message := mb_message mb,
           mb_message_id := mb_message_id mb, mb_headers := mb_headers mb\<rparr>)
     in if mb_content_length mb1 > 0
        then shift n (add_content mb1 ((case mb_content mb of None \<Rightarrow> [] | Some c \<Rightarrow> c) @ rest))
        else (n, mb1))"
proof -
  let ?c = "case mb_content mb of None \<Rightarrow> [] | Some c \<Rightarrow> c"
  define line where
    "line = mb_message mb @ (if mb_message_id mb \<noteq> [] then '' '' @ mb_message_id mb else [])"
  let ?mb0 = "MessageBlock_empty\<lparr>mb_message := mb_message mb, mb_message_id := mb_message_id mb\<rparr>"
  let ?mbh = "?mb0\<lparr>mb_headers := mb_headers mb\<rparr>"
  let ?hs = "raw_headers (mb_headers mb)"
  have raw: "getRaw mb @ rest = line @ CHR 0x0A # (?hs @ (CHR 0x0A # (?c @ rest)))"
    by (simp add: getRaw_def line_def)
  have nl: "CHR 0x0A \<notin> set line" using assms by (auto simp: block_ok_def plain_def line_def)
  have "add_line MessageBlock_empty line = Line_more ?mb0"
  proof (cases "mb_message_id mb = []")
    case True
    then have "split_at (CHR '' '') line = None"
      using assms by (simp add: block_ok_def split_at_none line_def)
    with True show ?thesis by (simp add: add_line_def MessageBlock_empty_def line_def)
  next
    case False
    then have "split_at (CHR '' '') line = Some (mb_message mb, mb_message_id mb)"
      using assms by (simp add: block_ok_def split_at_some line_def)
    with False show ?thesis by (simp add: add_line_def MessageBlock_empty_def)
  qed
  moreover have pend: "take_pending m = ([], m)" if "mb_content m = None" for m
    using that by (simp add: take_pending_def)
  ultimately have "add_lines MessageBlock_empty (getRaw mb @ rest) 0 =
    add_lines ?mb0 (?hs @ (CHR 0x0A # (?c @ rest))) (int (length line) + 1)"
    unfolding raw
    using add_lines_line [OF nl pend, of MessageBlock_empty "?hs @ (CHR 0x0A # (?c @ rest))" 0]
    by (simp add: MessageBlock_empty_def)
  also have "\<dots> = add_lines ?mbh (CHR 0x0A # (?c @ rest)) (int (length line) + 1 + int (length ?hs))"
    using assms add_lines_headers [of ?mb0 "mb_headers mb"]
    by (simp add: block_ok_def headers_ok_def MessageBlock_empty_def smap_rebuild)
  also have "\<dots> = (let n = int (length line) + 1 + int (length ?hs) + 1; mb1 = finish_headers ?mbh
     in if mb_content_length mb1 > 0 then shift n (add_content mb1 (?c @ rest)) else (n, mb1))"
    using assms add_lines_line [of "[]" ?mbh "[]" ?mbh] pend [of ?mbh]
    by (simp add: add_line_def block_ok_def MessageBlock_empty_def Let_def)
  also have "int (length line) + 1 + int (length ?hs) + 1 = int (length (getRaw mb)) - int (length ?c)"
    by (simp add: getRaw_def line_def)
  finally show ?thesis by simp
qed

lemma addBytes_getRaw:
  assumes "block_ok mb"
  shows "addBytes MessageBlock_empty (getRaw mb @ rest) = (int (length (getRaw mb)), mb)"
proof -
  have pos: "mb_content_pos MessageBlock_empty = None" by (simp add: MessageBlock_empty_def)
  have msg: "getRaw mb \<noteq> []" by (simp add: getRaw_def)
  show ?thesis
  proof (cases "mb_content mb")
    case None
    with assms have h: "smap_find (mb_headers mb) ''content-length'' = None" "mb_content_pos mb = None"
      "mb_content_length mb = 0" by (simp_all add: block_ok_def content_agrees_def)
    with None getRaw_headers_parse [OF assms, of rest] pos show ?thesis
      by (simp add: addBytes_def finish_headers_def MessageBlock_empty_def)
  next
    case (Some c)
    with assms have c: "c \<noteq> []" "length c < 2 ^ 31" "mb_content_pos mb = Some (length c)"
      "mb_content_length mb = int (length c)"
      "smap_find (mb_headers mb) ''content-length'' = Some (string_of_nat (length c))"
      by (simp_all add: block_ok_def content_agrees_def)
    have len: "to_int32 (atol (string_of_nat (length c))) = int (length c)"
      using c(2) by (simp add: atol_string_of_nat to_int32_id)
    have "length c \<le> length (getRaw mb)" using Some by (simp add: getRaw_def)
    with Some c len getRaw_headers_parse [OF assms, of rest] pos show ?thesis
      by (simp add: addBytes_def finish_headers_def add_content_def shift_def MessageBlock_empty_def
          Let_def)
  qed
qed

lemma read_bytes_getRaw:
  assumes "block_ok mb"
  shows "read_bytes None (getRaw mb @ rest) = deliver [mb] (read_bytes None rest)"
proof -
  have "getRaw mb \<noteq> []" by (simp add: getRaw_def)
  then show ?thesis
    using read_bytes_step [of "getRaw mb @ rest" None, OF _ _] addBytes_getRaw [OF assms, of rest]
    by simp
qed

lemma read_bytes_stream:
  "list_all block_ok mbs \<Longrightarrow> read_bytes None (concat (map getRaw mbs)) = Some (mbs, None)"
  by (induction mbs) (simp_all add: read_bytes_getRaw read_bytes.simps [of None "[]"])

text \<open>Blocks as the handlers build them satisfy the condition.\<close>

lemma block_ok_new:
  "message \<noteq> [] \<Longrightarrow> plain message \<Longrightarrow> CHR '' '' \<notin> set message \<Longrightarrow> block_ok (MessageBlock_new message)"
  by (simp add: block_ok_def MessageBlock_new_def MessageBlock_empty_def headers_ok_def plain_def
      content_agrees_def)

lemma headers_ok_put:
  assumes "headers_ok hs" "plain k" "CHR '':'' \<notin> set k" "plain v"
  shows "headers_ok (smap_put k v hs)"
proof -
  have "set (smap_put k v hs) \<subseteq> insert (k, v) (set hs)"
    by (induction k v hs rule: smap_put.induct) auto
  with assms show ?thesis by (auto simp: headers_ok_def smap_ok_put list_all_iff)
qed

lemma block_ok_set:
  "block_ok mb \<Longrightarrow> plain k \<Longrightarrow> CHR '':'' \<notin> set k \<Longrightarrow> plain v \<Longrightarrow> k \<noteq> ''content-length'' \<Longrightarrow>
   block_ok (mb_set k v mb)"
  by (auto simp: block_ok_def mb_set_def headers_ok_put content_agrees_def smap_find_put
      split: option.splits)

lemma block_ok_setMessageId: "block_ok mb \<Longrightarrow> plain i \<Longrightarrow> block_ok (setMessageId i mb)"
  by (simp add: block_ok_def setMessageId_def content_agrees_def split: option.splits)

lemma block_ok_setContent:
  assumes "block_ok mb" "data \<noteq> []" "length data < 2 ^ 31"
  shows "block_ok (setContent data mb)"
proof -
  have "plain (string_of_nat n)" for n
    using string_of_nat_plain(4) by (auto simp: plain_def)
  with assms show ?thesis
    by (simp add: block_ok_def setContent_def content_agrees_def smap_find_put headers_ok_put plain_def)
qed


section \<open>Properties\<close>

text \<open>
  Claim C2. The text protocol round trips under any segmentation: when the bytes of a
  sequence of well-formed blocks arrive in arbitrary pieces, the reading loop dispatches
  exactly those blocks, in order, and is left between blocks.
\<close>

theorem block_stream_roundtrip:
  assumes "list_all block_ok mbs" and "concat chunks = concat (map getRaw mbs)"
  shows "read_chunks None chunks = Some (mbs, None)"
  using assms read_chunks_concat [of None chunks] read_bytes_stream [of mbs]
  by (simp add: cur_ok_def)

definition example_block :: MessageBlock where
  "example_block = setContent ''int main(){}'' (setMessageId ''7''
     (mb_set ''lang'' ''C++'' (mb_set ''prob_id'' ''5'' (MessageBlock_new ''submit''))))"

lemma example_block_ok: "block_ok example_block" "block_ok mb_ok"
  unfolding example_block_def mb_ok_def
  by (intro block_ok_setContent block_ok_setMessageId block_ok_set block_ok_new; simp add: plain_def)+

theorem block_stream_roundtrip_witness:
  "read_chunks None [take 10 (getRaw example_block),
      drop 10 (getRaw example_block) @ getRaw mb_ok] = Some ([example_block, mb_ok], None)"
  by (rule block_stream_roundtrip)
    (simp_all add: example_block_ok append_assoc [symmetric] del: append_assoc)



end
