(* ===== verification/Conservation.thy ===== *)
theory Conservation
  imports Prelude "HOL-Library.Multiset"
begin

text \<open>
  Components that hand work around without losing it share one contract: every operation
  keeps an invariant, and changes the multiset of work in progress exactly by what it
  takes in and what it completes.
\<close>

locale conserving =
  fixes step :: "'e \<Rightarrow> 's \<Rightarrow> 's"
    and invar :: "'s \<Rightarrow> bool"
    and work :: "'s \<Rightarrow> 'a multiset"
    and accepted :: "'e \<Rightarrow> 's \<Rightarrow> 'a multiset"
    and completed :: "'e \<Rightarrow> 's \<Rightarrow> 'a multiset"
  assumes step_invar: "invar s \<Longrightarrow> invar (step e s)"
    and step_work: "invar s \<Longrightarrow> work (step e s) + completed e s = work s + accepted e s"
begin

text \<open>A run of operations, with everything it accepted and everything it completed.\<close>

fun run :: "'e list \<Rightarrow> 's \<Rightarrow> 's" where
  "run [] s = s"
| "run (e # es) s = run es (step e s)"

fun run_accepted :: "'e list \<Rightarrow> 's \<Rightarrow> 'a multiset" where
  "run_accepted [] s = {#}"
| "run_accepted (e # es) s = accepted e s + run_accepted es (step e s)"

fun run_completed :: "'e list \<Rightarrow> 's \<Rightarrow> 'a multiset" where
  "run_completed [] s = {#}"
| "run_completed (e # es) s = completed e s + run_completed es (step e s)"

lemma run_invar: "invar s \<Longrightarrow> invar (run es s)"
  by (induction es arbitrary: s) (simp_all add: step_invar)

lemma run_work: "invar s \<Longrightarrow> work (run es s) + run_completed es s = work s + run_accepted es s"
proof (induction es arbitrary: s)
  case (Cons e es)
  have "work (run (e # es) s) + run_completed (e # es) s =
    (work s + accepted e s) + run_accepted es (step e s)"
    using Cons.IH [OF step_invar [OF Cons.prems], of e] step_work [OF Cons.prems, of e]
    by (simp add: ac_simps)
  then show ?case by (simp add: ac_simps)
qed simp

lemma run_nothing_lost:
  "invar s \<Longrightarrow> x \<in># work s + run_accepted es s \<Longrightarrow> x \<in># work (run es s) \<or> x \<in># run_completed es s"
  using run_work [of s es] by (metis union_iff)

end

end
