(* ===== verification/Markers.thy ===== *)
theory Markers
  imports Message_Block Conservation "HOL-Library.Product_Lexorder"
begin

text \<open>
  The dispatcher of submissions to markers, \<^verbatim>\<open>include/markers.h\<close> and \<^verbatim>\<open>src/markers.C\<close>. Idle
  markers and unissued submissions wait in queues; a submission in the hands of a marker
  is recorded with the time it was issued. All operations run under one mutex, so each is
  one step of the model.
\<close>

section \<open>State\<close>

text \<open>A client connection is identified by its address.\<close>

type_synonym cc = nat

record markers_state =
  issued :: "(cc, u32) smap"
  markers :: "cc list"
  problems :: "u32 list"
  issue_times :: "(time_t \<times> cc \<times> u32) list"
  timeout :: u32
  sent :: "(cc \<times> MessageBlock) list"

text \<open>
  The database as \<^verbatim>\<open>issue\<close> sees it: no connection, or a lookup of a submission's source,
  language and problem.
\<close>

type_synonym submission_db = "(u32 \<Rightarrow> (string \<times> string \<times> u32) option) option"

section \<open>Operations\<close>

definition mark_request :: "u32 \<Rightarrow> string \<times> string \<times> u32 \<Rightarrow> MessageBlock" where
  "mark_request sd r = (case r of (content, language, prob_id) \<Rightarrow>
     setContent content
       (mb_set ''language'' language
         (mb_set ''prob_id'' (to_string (uint prob_id))
           (mb_set ''submission_id'' (to_string (uint sd)) (MessageBlock_new ''mark'')))))"

text \<open>
  \<^verbatim>\<open>issue\<close> puts both the submission and the marker back in their queues when the source
  cannot be read.
\<close>

definition issue :: "submission_db \<Rightarrow> time_t \<Rightarrow> cc \<Rightarrow> u32 \<Rightarrow> markers_state \<Rightarrow> markers_state" where
  "issue db now cc sd s = (case db of
       None \<Rightarrow> s\<lparr>problems := problems s @ [sd], markers := markers s @ [cc]\<rparr>
     | Some retrieve \<Rightarrow> (case retrieve sd of
           None \<Rightarrow> s\<lparr>problems := problems s @ [sd], markers := markers s @ [cc]\<rparr>
         | Some r \<Rightarrow> s\<lparr>sent := sent s @ [(cc, mark_request sd r)],
                        issued := smap_put cc sd (issued s),
                        issue_times := (now, cc, sd) # issue_times s\<rparr>))"

definition real_enqueueSubmission ::
  "submission_db \<Rightarrow> time_t \<Rightarrow> u32 \<Rightarrow> markers_state \<Rightarrow> markers_state" where
  "real_enqueueSubmission db now sd s = (case markers s of
       [] \<Rightarrow> s\<lparr>problems := problems s @ [sd]\<rparr>
     | cc # rest \<Rightarrow> issue db now cc sd (s\<lparr>markers := rest\<rparr>))"

definition real_enqueueMarker ::
  "submission_db \<Rightarrow> time_t \<Rightarrow> cc \<Rightarrow> markers_state \<Rightarrow> markers_state" where
  "real_enqueueMarker db now cc s = (case problems s of
       [] \<Rightarrow> s\<lparr>markers := markers s @ [cc]\<rparr>
     | sd # rest \<Rightarrow> issue db now cc sd (s\<lparr>problems := rest\<rparr>))"

definition enqueueMarker :: "submission_db \<Rightarrow> time_t \<Rightarrow> cc \<Rightarrow> markers_state \<Rightarrow> markers_state" where
  "enqueueMarker db now cc s =
     (if smap_find (issued s) cc \<noteq> None then s
      else if cc \<in> set (markers s) then s
      else real_enqueueMarker db now cc s)"

definition preemptMarker :: "submission_db \<Rightarrow> time_t \<Rightarrow> cc \<Rightarrow> markers_state \<Rightarrow> markers_state" where
  "preemptMarker db now cc s =
     (if cc \<in> set (markers s) then s\<lparr>markers := remove1 cc (markers s)\<rparr>
      else case smap_find (issued s) cc of
             None \<Rightarrow> s
           | Some tmp \<Rightarrow> real_enqueueSubmission db now tmp (s\<lparr>issued := smap_erase cc (issued s)\<rparr>))"

definition enqueueSubmission :: "submission_db \<Rightarrow> time_t \<Rightarrow> u32 \<Rightarrow> markers_state \<Rightarrow> markers_state" where
  "enqueueSubmission db now submission_id s = real_enqueueSubmission db now submission_id s"

definition hasIssued :: "cc \<Rightarrow> markers_state \<Rightarrow> u32" where
  "hasIssued cc s = (case smap_find (issued s) cc of None \<Rightarrow> 0 | Some sd \<Rightarrow> sd)"

text \<open>
  \<^verbatim>\<open>notifyMarked\<close>: a marker that marked something else than it was issued gives its
  submission back first; then its entry is erased and it is queued again.
\<close>

definition notifyMarked ::
  "submission_db \<Rightarrow> time_t \<Rightarrow> cc \<Rightarrow> u32 \<Rightarrow> markers_state \<Rightarrow> markers_state" where
  "notifyMarked db now cc submission_id s = (case smap_find (issued s) cc of
       None \<Rightarrow> s
     | Some sd \<Rightarrow>
         (let s1 = (if submission_id \<noteq> sd then real_enqueueSubmission db now sd s else s)
          in real_enqueueMarker db now cc (s1\<lparr>issued := smap_erase cc (issued s1)\<rparr>)))"

text \<open>
  \<^verbatim>\<open>_issue_times\<close> is a \<^verbatim>\<open>std::priority_queue\<close> of \<open>(time, (connection, submission))\<close> with the
  default comparison: its top is the greatest entry. The loop of \<^verbatim>\<open>checkForTimeouts\<close> reads
  the clock at each turn; the model takes one reading for the whole call.
\<close>

definition heap_top :: "(time_t \<times> cc \<times> u32) list \<Rightarrow> time_t \<times> cc \<times> u32" where
  "heap_top h = Max (set h)"

definition expired :: "time_t \<Rightarrow> u32 \<Rightarrow> time_t \<times> cc \<times> u32 \<Rightarrow> bool" where
  "expired now limit e \<longleftrightarrow> now - fst e > uint limit"

definition timeout_one ::
  "submission_db \<Rightarrow> time_t \<Rightarrow> time_t \<times> cc \<times> u32 \<Rightarrow> markers_state \<Rightarrow> markers_state" where
  "timeout_one db now e s = (case e of (t, cc, submission_id) \<Rightarrow>
     (let s1 = s\<lparr>issue_times := remove1 e (issue_times s)\<rparr>
      in if smap_find (issued s) cc \<noteq> Some submission_id then s1
         else real_enqueueSubmission db now submission_id
                (s1\<lparr>issued := smap_erase cc (issued s1)\<rparr>)))"

function checkForTimeouts :: "submission_db \<Rightarrow> time_t \<Rightarrow> markers_state \<Rightarrow> markers_state" where
  "checkForTimeouts db now s =
     (if issue_times s \<noteq> [] \<and> expired now (timeout s) (heap_top (issue_times s))
      then checkForTimeouts db now (timeout_one db now (heap_top (issue_times s)) s)
      else s)"
  by pat_completeness auto

text \<open>
  Only expired entries are popped and a fresh issue is not expired, so the number of
  expired entries falls with every turn.
\<close>

lemma issue_fields [simp]:
  "timeout (issue db now cc sd s) = timeout s"
  "timeout (real_enqueueSubmission db now sd s) = timeout s"
  "timeout (real_enqueueMarker db now cc s) = timeout s"
  by (simp_all add: issue_def real_enqueueSubmission_def real_enqueueMarker_def
      split: option.split list.split)

lemma timeout_one_timeout [simp]: "timeout (timeout_one db now e s) = timeout s"
  by (simp add: timeout_one_def Let_def split: prod.split)

lemma real_enqueueSubmission_expired:
  "filter (expired now lim) (issue_times (real_enqueueSubmission db now sd s)) =
   filter (expired now lim) (issue_times s)"
  by (simp add: issue_def real_enqueueSubmission_def expired_def split: option.split list.split)

lemma timeout_one_expired:
  "filter (expired now lim) (issue_times (timeout_one db now e s)) =
   filter (expired now lim) (remove1 e (issue_times s))"
  by (simp add: timeout_one_def Let_def real_enqueueSubmission_expired split: prod.split)

lemma heap_top_in: "h \<noteq> [] \<Longrightarrow> heap_top h \<in> set h"
  by (simp add: heap_top_def)

lemma filter_remove1_less:
  "x \<in> set xs \<Longrightarrow> P x \<Longrightarrow> length (filter P (remove1 x xs)) < length (filter P xs)"
  by (induction xs) (auto simp: less_Suc_eq_le length_filter_le)

termination checkForTimeouts
  by (relation "measure (\<lambda>(db, now, s). length (filter (expired now (timeout s)) (issue_times s)))")
    (auto simp: timeout_one_expired intro!: filter_remove1_less heap_top_in)

declare checkForTimeouts.simps [simp del]

definition markers_new :: "u32 \<Rightarrow> markers_state" where
  "markers_new limit = \<lparr>issued = [], markers = [], problems = [], issue_times = [],
     timeout = limit, sent = []\<rparr>"

section \<open>Invariant and conservation of work\<close>

text \<open>
  A connection waits in the queue at most once and not while it holds a submission. The
  work in progress is the submissions that wait and the submissions that are issued.
\<close>

definition markers_inv :: "markers_state \<Rightarrow> bool" where
  "markers_inv s \<longleftrightarrow> smap_ok (issued s) \<and> distinct (markers s) \<and>
     (\<forall>cc\<in>set (markers s). smap_find (issued s) cc = None)"

definition work :: "markers_state \<Rightarrow> u32 multiset" where
  "work s = mset (problems s) + image_mset snd (mset (issued s))"

lemma smap_put_values:
  "smap_find m k = None \<Longrightarrow> image_mset snd (mset (smap_put k v m)) = add_mset v (image_mset snd (mset m))"
  by (induction k v m rule: smap_put.induct) (auto split: if_splits)

lemma smap_erase_values:
  "smap_find m k = Some v \<Longrightarrow> add_mset v (image_mset snd (mset (smap_erase k m))) = image_mset snd (mset m)"
  by (induction m k rule: smap_find.induct) (auto split: if_splits)

lemma issue_inv:
  assumes "markers_inv s" "cc \<notin> set (markers s)" "smap_find (issued s) cc = None"
  shows "markers_inv (issue db now cc sd s)" "work (issue db now cc sd s) = add_mset sd (work s)"
  using assms
  by (auto simp: issue_def markers_inv_def work_def smap_ok_put smap_find_put smap_put_values
      split: option.split)

lemma real_enqueueSubmission_inv:
  assumes "markers_inv s"
  shows "markers_inv (real_enqueueSubmission db now sd s)"
    "work (real_enqueueSubmission db now sd s) = add_mset sd (work s)"
proof (atomize (full), cases "markers s")
  case Nil
  with assms show "markers_inv (real_enqueueSubmission db now sd s) \<and>
    work (real_enqueueSubmission db now sd s) = add_mset sd (work s)"
    by (simp add: real_enqueueSubmission_def markers_inv_def work_def)
next
  case (Cons cc rest)
  have "work (s\<lparr>markers := rest\<rparr>) = work s" by (simp add: work_def)
  with Cons assms issue_inv [of "s\<lparr>markers := rest\<rparr>" cc db now sd]
  show "markers_inv (real_enqueueSubmission db now sd s) \<and>
    work (real_enqueueSubmission db now sd s) = add_mset sd (work s)"
    by (simp add: real_enqueueSubmission_def markers_inv_def)
qed

lemma real_enqueueMarker_inv:
  assumes "markers_inv s" "cc \<notin> set (markers s)" "smap_find (issued s) cc = None"
  shows "markers_inv (real_enqueueMarker db now cc s)" "work (real_enqueueMarker db now cc s) = work s"
proof (atomize (full), cases "problems s")
  case Nil
  with assms show "markers_inv (real_enqueueMarker db now cc s) \<and>
    work (real_enqueueMarker db now cc s) = work s"
    by (simp add: real_enqueueMarker_def markers_inv_def work_def)
next
  case (Cons sd rest)
  have "add_mset sd (work (s\<lparr>problems := rest\<rparr>)) = work s" using Cons by (simp add: work_def)
  with Cons assms issue_inv [of "s\<lparr>problems := rest\<rparr>" cc db now sd]
  show "markers_inv (real_enqueueMarker db now cc s) \<and>
    work (real_enqueueMarker db now cc s) = work s"
    by (simp add: real_enqueueMarker_def markers_inv_def)
qed

lemma erase_inv:
  assumes "markers_inv s" "smap_find (issued s) cc = Some sd"
  shows "markers_inv (s\<lparr>issued := smap_erase cc (issued s)\<rparr>)"
    "add_mset sd (work (s\<lparr>issued := smap_erase cc (issued s)\<rparr>)) = work s"
  using assms smap_erase_values [OF assms(2)]
  by (auto simp: markers_inv_def smap_ok_erase smap_find_erase work_def)

lemma enqueueMarker_inv:
  assumes "markers_inv s"
  shows "markers_inv (enqueueMarker db now cc s)" "work (enqueueMarker db now cc s) = work s"
  using assms real_enqueueMarker_inv [OF assms, of cc db now] by (auto simp: enqueueMarker_def)

lemma preemptMarker_inv:
  assumes "markers_inv s"
  shows "markers_inv (preemptMarker db now cc s)" "work (preemptMarker db now cc s) = work s"
proof (atomize (full), cases "smap_find (issued s) cc")
  case None
  with assms show "markers_inv (preemptMarker db now cc s) \<and> work (preemptMarker db now cc s) = work s"
    by (auto simp: preemptMarker_def markers_inv_def work_def dest: notin_set_remove1)
next
  case (Some sd)
  then have "cc \<notin> set (markers s)" using assms by (auto simp: markers_inv_def)
  with Some erase_inv [OF assms Some]
    real_enqueueSubmission_inv [of "s\<lparr>issued := smap_erase cc (issued s)\<rparr>" db now sd]
  show "markers_inv (preemptMarker db now cc s) \<and> work (preemptMarker db now cc s) = work s"
    by (simp add: preemptMarker_def)
qed

lemma real_enqueueSubmission_keeps:
  assumes "markers_inv s" "smap_find (issued s) cc = Some x"
  shows "smap_find (issued (real_enqueueSubmission db now sd s)) cc = Some x"
    "cc \<notin> set (markers (real_enqueueSubmission db now sd s))"
  using assms
  by (cases "markers s";
      auto simp: real_enqueueSubmission_def issue_def markers_inv_def smap_find_put
        split: option.split)+

lemma notifyMarked_inv:
  assumes "markers_inv s"
  shows "markers_inv (notifyMarked db now cc sub s)"
    "work (notifyMarked db now cc sub s) +
       (if smap_find (issued s) cc = Some sub then {#sub#} else {#}) = work s"
proof (atomize (full), cases "smap_find (issued s) cc")
  case None
  with assms show "markers_inv (notifyMarked db now cc sub s) \<and>
    work (notifyMarked db now cc sub s) +
      (if smap_find (issued s) cc = Some sub then {#sub#} else {#}) = work s"
    by (simp add: notifyMarked_def)
next
  case (Some sd)
  define s1 where "s1 = (if sub \<noteq> sd then real_enqueueSubmission db now sd s else s)"
  let ?s2 = "s1\<lparr>issued := smap_erase cc (issued s1)\<rparr>"
  have s1: "markers_inv s1" "smap_find (issued s1) cc = Some sd" "cc \<notin> set (markers s1)"
    "work s1 = (if sub \<noteq> sd then add_mset sd (work s) else work s)"
    using assms Some real_enqueueSubmission_inv [OF assms] real_enqueueSubmission_keeps [OF assms Some]
    by (auto simp: s1_def markers_inv_def)
  have "smap_find (issued ?s2) cc = None" using s1 by (simp add: markers_inv_def smap_find_erase)
  with s1 real_enqueueMarker_inv [OF erase_inv(1) [OF s1(1,2)], of cc db now] erase_inv(2) [OF s1(1,2)]
  have "markers_inv (notifyMarked db now cc sub s)"
    "add_mset sd (work (notifyMarked db now cc sub s)) = work s1"
    using Some by (simp_all add: notifyMarked_def s1_def [symmetric])
  with s1(4) Some show "markers_inv (notifyMarked db now cc sub s) \<and>
    work (notifyMarked db now cc sub s) +
      (if smap_find (issued s) cc = Some sub then {#sub#} else {#}) = work s"
    by (auto split: if_splits)
qed

lemma timeout_one_inv:
  assumes "markers_inv s"
  shows "markers_inv (timeout_one db now e s) \<and> work (timeout_one db now e s) = work s"
proof -
  obtain t cc sd where e: "e = (t, cc, sd)" by (cases e)
  let ?s = "s\<lparr>issue_times := remove1 e (issue_times s)\<rparr>"
  have "markers_inv ?s" "work ?s = work s" using assms by (simp_all add: markers_inv_def work_def)
  with e erase_inv [of ?s cc sd]
    real_enqueueSubmission_inv [of "?s\<lparr>issued := smap_erase cc (issued ?s)\<rparr>" db now sd]
  show ?thesis by (simp add: timeout_one_def Let_def)
qed

lemma checkForTimeouts_inv:
  "markers_inv s \<Longrightarrow> markers_inv (checkForTimeouts db now s) \<and> work (checkForTimeouts db now s) = work s"
proof (induction db now s rule: checkForTimeouts.induct)
  case (1 db now s)
  then show ?case
    using timeout_one_inv [OF 1(2)] by (subst (1 2) checkForTimeouts.simps) auto
qed

section \<open>The dispatcher as a machine\<close>

datatype markers_op =
    Enqueue_marker cc
  | Preempt_marker cc
  | Enqueue_submission u32
  | Notify_marked cc u32
  | Check_timeouts

text \<open>One call, with the database and the clock it sees.\<close>

fun markers_step :: "submission_db \<times> time_t \<times> markers_op \<Rightarrow> markers_state \<Rightarrow> markers_state" where
  "markers_step (db, now, Enqueue_marker cc) s = enqueueMarker db now cc s"
| "markers_step (db, now, Preempt_marker cc) s = preemptMarker db now cc s"
| "markers_step (db, now, Enqueue_submission sd) s = enqueueSubmission db now sd s"
| "markers_step (db, now, Notify_marked cc sd) s = notifyMarked db now cc sd s"
| "markers_step (db, now, Check_timeouts) s = checkForTimeouts db now s"

fun step_accepted :: "submission_db \<times> time_t \<times> markers_op \<Rightarrow> markers_state \<Rightarrow> u32 multiset" where
  "step_accepted (db, now, Enqueue_submission sd) s = {#sd#}"
| "step_accepted _ s = {#}"

fun step_completed :: "submission_db \<times> time_t \<times> markers_op \<Rightarrow> markers_state \<Rightarrow> u32 multiset" where
  "step_completed (db, now, Notify_marked cc sd) s =
     (if smap_find (issued s) cc = Some sd then {#sd#} else {#})"
| "step_completed _ s = {#}"

interpretation mk: conserving markers_step markers_inv work step_accepted step_completed
proof
  fix e :: "submission_db \<times> time_t \<times> markers_op" and s
  assume inv: "markers_inv s"
  obtain db now op where e: "e = (db, now, op)" by (cases e)
  note invs = inv real_enqueueSubmission_inv preemptMarker_inv enqueueMarker_inv notifyMarked_inv
    checkForTimeouts_inv
  show "markers_inv (markers_step e s)"
    using e by (cases op) (simp_all add: enqueueSubmission_def invs)
  show "work (markers_step e s) + step_completed e s = work s + step_accepted e s"
    using e by (cases op) (simp_all add: enqueueSubmission_def invs)
qed


type_synonym markers_event = "submission_db \<times> time_t \<times> markers_op"

fun markers_run :: "markers_event list \<Rightarrow> markers_state \<Rightarrow> markers_state" where
  "markers_run [] s = s"
| "markers_run (e # es) s = markers_run es (markers_step e s)"

fun run_accepted :: "markers_event list \<Rightarrow> u32 multiset" where
  "run_accepted [] = {#}"
| "run_accepted ((db, now, Enqueue_submission sd) # es) = add_mset sd (run_accepted es)"
| "run_accepted (_ # es) = run_accepted es"

fun run_completed :: "markers_event list \<Rightarrow> markers_state \<Rightarrow> u32 multiset" where
  "run_completed [] s = {#}"
| "run_completed (e # es) s = step_completed e s + run_completed es (markers_step e s)"

lemma mk_run: "mk.run es s = markers_run es s"
  by (induction es s rule: markers_run.induct) simp_all

lemma mk_run_accepted: "mk.run_accepted es s = run_accepted es"
  by (induction es arbitrary: s rule: run_accepted.induct) simp_all

lemma mk_run_completed: "mk.run_completed es s = run_completed es s"
  by (induction es s rule: run_completed.induct) simp_all

lemma markers_inv_new: "markers_inv (markers_new lim)" "work (markers_new lim) = {#}"
  by (simp_all add: markers_new_def markers_inv_def work_def)

lemma run_conserves:
  "markers_inv (markers_run es (markers_new lim)) \<and>
   work (markers_run es (markers_new lim)) + run_completed es (markers_new lim) = run_accepted es"
  using mk.run_invar [OF markers_inv_new(1), of es] mk.run_work [OF markers_inv_new(1), of es]
  by (simp add: mk_run mk_run_accepted mk_run_completed markers_inv_new)

text \<open>A submission that is in progress once is held by at most one connection.\<close>

lemma held_once:
  assumes "count (work s) x \<le> 1" "smap_find (issued s) cc = Some x"
  shows "x \<notin> set (problems s)" "smap_find (issued s) cc' = Some x \<Longrightarrow> cc' = cc"
proof -
  have "x \<in># image_mset snd (mset (issued s))"
    using smap_find_in [OF assms(2)] by (auto intro: rev_image_eqI)
  then have "0 < count (image_mset snd (mset (issued s))) x" by (simp only: count_greater_zero_iff)
  with assms(1) have "count (mset (problems s)) x = 0" unfolding work_def count_union by linarith
  then show "x \<notin> set (problems s)" by (metis count_mset_0_iff)
  assume "smap_find (issued s) cc' = Some x"
  then show "cc' = cc"
  proof (rule_tac ccontr)
    assume c': "smap_find (issued s) cc' = Some x" and ne: "cc' \<noteq> cc"
    have "{#(cc, x), (cc', x)#} \<subseteq># mset (issued s)"
      using smap_find_in [OF assms(2)] smap_find_in [OF c'] ne
      by (simp add: insert_subset_eq_iff in_diff_count)
    then have "image_mset snd {#(cc, x), (cc', x)#} \<subseteq># image_mset snd (mset (issued s))"
      by (rule image_mset_subseteq_mono)
    then have "2 \<le> count (image_mset snd (mset (issued s))) x"
      by (auto dest: mset_subset_eq_count [of _ _ x])
    with assms(1) show False by (simp add: work_def)
  qed
qed

section \<open>No idle marker while submissions wait\<close>

definition db_works :: "submission_db \<Rightarrow> bool" where
  "db_works db \<longleftrightarrow> (\<exists>retrieve. db = Some retrieve \<and> (\<forall>sd. retrieve sd \<noteq> None))"

definition not_idle :: "markers_state \<Rightarrow> bool" where
  "not_idle s \<longleftrightarrow> markers s = [] \<or> problems s = []"

lemma issue_queues:
  "db_works db \<Longrightarrow> markers (issue db now cc sd s) = markers s \<and> problems (issue db now cc sd s) = problems s"
proof -
  assume "db_works db"
  then obtain retrieve where "db = Some retrieve" "retrieve sd \<noteq> None" by (auto simp: db_works_def)
  then show ?thesis by (auto simp: issue_def)
qed

lemma real_enqueueSubmission_not_idle:
  "db_works db \<Longrightarrow> not_idle s \<Longrightarrow> not_idle (real_enqueueSubmission db now sd s)"
  by (auto simp: not_idle_def real_enqueueSubmission_def issue_queues split: list.split)

lemma real_enqueueMarker_not_idle:
  "db_works db \<Longrightarrow> not_idle s \<Longrightarrow> not_idle (real_enqueueMarker db now cc s)"
  by (auto simp: not_idle_def real_enqueueMarker_def issue_queues split: list.split)

lemma not_idle_frame [simp]:
  "not_idle (s\<lparr>issued := i\<rparr>) = not_idle s" "not_idle (s\<lparr>issue_times := h\<rparr>) = not_idle s"
  by (simp_all add: not_idle_def)

lemma checkForTimeouts_not_idle:
  "db_works db \<Longrightarrow> not_idle s \<Longrightarrow> not_idle (checkForTimeouts db now s)"
proof (induction db now s rule: checkForTimeouts.induct)
  case (1 db now s)
  have "not_idle (timeout_one db now e s)" for e
    using 1(2,3) by (simp add: timeout_one_def Let_def real_enqueueSubmission_not_idle split: prod.split)
  with 1 show ?case by (subst checkForTimeouts.simps) simp
qed

lemma markers_step_not_idle:
  assumes "db_works db" "not_idle s"
  shows "not_idle (markers_step (db, now, op) s)"
proof (cases op)
  case (Preempt_marker cc)
  have "not_idle (s\<lparr>markers := remove1 cc (markers s)\<rparr>)"
    using assms(2) by (auto simp: not_idle_def)
  with Preempt_marker assms show ?thesis
    by (simp add: preemptMarker_def real_enqueueSubmission_not_idle split: option.split)
qed (use assms in \<open>simp_all add: enqueueMarker_def enqueueSubmission_def notifyMarked_def Let_def
      real_enqueueSubmission_not_idle real_enqueueMarker_not_idle checkForTimeouts_not_idle
      split: option.split\<close>)

lemma markers_run_not_idle:
  "list_all (\<lambda>(db, now, op). db_works db) es \<Longrightarrow> not_idle s \<Longrightarrow> not_idle (markers_run es s)"
  by (induction es s rule: markers_run.induct) (auto simp: markers_step_not_idle)

section \<open>Timeouts\<close>

text \<open>Every issued submission has an entry in the heap.\<close>

definition heap_covers :: "markers_state \<Rightarrow> bool" where
  "heap_covers s \<longleftrightarrow> (\<forall>cc sd. smap_find (issued s) cc = Some sd \<longrightarrow> (\<exists>t. (t, cc, sd) \<in> set (issue_times s)))"

lemma heap_top_max: "e \<in> set h \<Longrightarrow> fst e \<le> fst (heap_top h)"
proof -
  assume "e \<in> set h"
  then have "e \<le> heap_top h" by (simp add: heap_top_def)
  then show ?thesis by (auto simp: less_eq_prod_def)
qed

lemma timeout_one_no_idle:
  assumes "markers s = []" "markers_inv s" "heap_covers s" "e \<in> set (issue_times s)"
  shows "markers (timeout_one db now e s) = []" "heap_covers (timeout_one db now e s)"
    "issue_times (timeout_one db now e s) = remove1 e (issue_times s)"
proof -
  obtain t cc sd where e: "e = (t, cc, sd)" by (cases e)
  show "markers (timeout_one db now e s) = []"
    "issue_times (timeout_one db now e s) = remove1 e (issue_times s)"
    using e assms(1) by (simp_all add: timeout_one_def Let_def real_enqueueSubmission_def)
  show "heap_covers (timeout_one db now e s)"
    unfolding heap_covers_def
  proof (intro allI impI)
    fix c x assume *: "smap_find (issued (timeout_one db now e s)) c = Some x"
    have "smap_find (issued s) c = Some x" "(c, x) \<noteq> (cc, sd)"
      using * e assms(1,2)
      by (auto simp: timeout_one_def Let_def real_enqueueSubmission_def markers_inv_def
          smap_find_erase split: if_splits)
    with assms(3) obtain t' where "(t', c, x) \<in> set (issue_times s)" "(t', c, x) \<noteq> e"
      using e by (auto simp: heap_covers_def)
    then show "\<exists>t. (t, c, x) \<in> set (issue_times (timeout_one db now e s))"
      using e assms(1)
      by (intro exI [of _ t']) (simp add: timeout_one_def Let_def real_enqueueSubmission_def)
  qed
qed

lemma checkForTimeouts_all_expired:
  "markers s = [] \<Longrightarrow> markers_inv s \<Longrightarrow> heap_covers s \<Longrightarrow>
   \<forall>e\<in>set (issue_times s). expired now (timeout s) e \<Longrightarrow>
   issued (checkForTimeouts db now s) = [] \<and> issue_times (checkForTimeouts db now s) = [] \<and>
   markers (checkForTimeouts db now s) = []"
proof (induction db now s rule: checkForTimeouts.induct)
  case (1 db now s)
  show ?case
  proof (cases "issue_times s = []")
    case True
    then have "smap_find (issued s) cc = None" for cc
      using 1(4) by (auto simp: heap_covers_def)
    then have "issued s = []" by (metis smap_find_dom list.set_intros(1) neq_Nil_conv rev_image_eqI)
    with True 1(2) show ?thesis by (subst (1 2 3) checkForTimeouts.simps) simp
  next
    case False
    then have top: "heap_top (issue_times s) \<in> set (issue_times s)" by (rule heap_top_in)
    with 1(5) have ex: "expired now (timeout s) (heap_top (issue_times s))" by blast
    note one = timeout_one_no_idle [OF 1(2-4) top, of db now]
    have "\<forall>e\<in>set (issue_times (timeout_one db now (heap_top (issue_times s)) s)).
      expired now (timeout s) e"
      using 1(5) one(3) by (auto dest: notin_set_remove1)
    then show ?thesis
      using 1(1) [OF _ one(1) _ one(2)] False ex timeout_one_inv [OF 1(3)]
      by (subst (1 2 3) checkForTimeouts.simps) simp
  qed
qed


section \<open>Properties\<close>

text \<open>
  Claim C7. No submission is lost or invented by the dispatcher. After any sequence of
  calls, with any behaviour of the database, the submissions that wait or are issued,
  together with those reported marked by the marker that held them, are exactly the
  submissions that were enqueued; and no connection waits twice or waits while it holds
  a submission.
\<close>

theorem submissions_conserved:
  "markers_inv (markers_run es (markers_new limit)) \<and>
   work (markers_run es (markers_new limit)) + run_completed es (markers_new limit) = run_accepted es"
  by (rule run_conserves)

text \<open>
  Claim C25. When each submission is enqueued at most once, no two markers ever hold the
  same submission, and a submission that is issued does not wait in the queue.
\<close>

theorem submission_issued_to_one_marker:
  assumes "\<forall>x. count (run_accepted es) x \<le> 1"
    and "smap_find (issued (markers_run es (markers_new limit))) cc = Some sd"
  shows "sd \<notin> set (problems (markers_run es (markers_new limit))) \<and>
    (smap_find (issued (markers_run es (markers_new limit))) cc' = Some sd \<longrightarrow> cc' = cc)"
proof -
  have "count (work (markers_run es (markers_new limit))) sd \<le> count (run_accepted es) sd"
    using run_conserves [of es limit] by (metis count_union le_add1)
  with assms(1) have "count (work (markers_run es (markers_new limit))) sd \<le> 1"
    using order_trans by blast
  then show ?thesis using held_once [OF _ assms(2)] by blast
qed

definition example_db :: submission_db where
  "example_db = Some (\<lambda>sd. Some (''x'', ''C++'', 3))"

definition example_events :: "markers_event list" where
  "example_events = [(example_db, 10, Enqueue_submission 16), (example_db, 11, Enqueue_submission 32),
     (example_db, 12, Enqueue_marker 1), (example_db, 500, Enqueue_marker 2)]"

lemma example_run:
  "issued (markers_run example_events (markers_new 60)) = [(1, 16), (2, 32)]"
  "issue_times (markers_run example_events (markers_new 60)) = [(500, 2, 32), (12, 1, 16)]"
  "run_accepted example_events = {#16, 32#}"
  by (simp_all add: example_events_def example_db_def markers_new_def enqueueSubmission_def
      enqueueMarker_def real_enqueueSubmission_def real_enqueueMarker_def issue_def)

theorem submission_issued_to_one_marker_witness:
  "32 \<notin> set (problems (markers_run example_events (markers_new 60)))"
proof -
  have "\<forall>x. count (run_accepted example_events) x \<le> 1" by (simp add: example_run)
  moreover have "smap_find (issued (markers_run example_events (markers_new 60))) 2 = Some 32"
    by (simp add: example_run)
  ultimately show ?thesis
    using submission_issued_to_one_marker [of example_events 60 2 32] by blast
qed

text \<open>
  Claim C19. While the database answers, the dispatcher never lets a marker idle next to
  a waiting submission: after any sequence of calls one of the two queues is empty.
\<close>

theorem no_idle_marker:
  assumes "list_all (\<lambda>(db, now, op). db_works db) es"
  shows "markers (markers_run es (markers_new limit)) = [] \<or>
    problems (markers_run es (markers_new limit)) = []"
  using markers_run_not_idle [OF assms, of "markers_new limit"]
  by (simp add: not_idle_def markers_new_def)

theorem no_idle_marker_witness:
  "markers (markers_run example_events (markers_new 60)) = [] \<or>
   problems (markers_run example_events (markers_new 60)) = []"
  by (rule no_idle_marker) (simp add: example_events_def example_db_def db_works_def)




end
