(* ===== verification/Wire.thy ===== *)
theory Wire
  imports Prelude "HOL-Library.Char_ord"
begin

text \<open>
  Bytes in memory as the message classes use them: 32-bit words stored through a pointer
  (little-endian hosts), C strings, a write cursor into an allocated buffer, and a read
  cursor. Writing past the end of the buffer and reading past its end are outcomes of
  their own.
\<close>

section \<open>Words and characters\<close>

definition le32 :: "u32 \<Rightarrow> bytes" where
  "le32 w = (let n = uint w in
     [word_of_int n, word_of_int (n div 256), word_of_int (n div 65536), word_of_int (n div 16777216)])"

definition of_le32 :: "bytes \<Rightarrow> u32" where
  "of_le32 bs = word_of_int (uint (bs ! 0) + 256 * uint (bs ! 1) + 65536 * uint (bs ! 2) +
     16777216 * uint (bs ! 3))"

text \<open>The conversion of a \<^verbatim>\<open>size_t\<close> to \<^verbatim>\<open>uint32_t\<close>.\<close>

definition u32_of :: "nat \<Rightarrow> u32" where
  "u32_of n = word_of_nat n"

definition byte_of :: "char \<Rightarrow> u8" where
  "byte_of c = word_of_nat (of_char c)"

definition char_of_byte :: "u8 \<Rightarrow> char" where
  "char_of_byte b = char_of (unat b)"

definition bytes_of :: "string \<Rightarrow> bytes" where
  "bytes_of s = map byte_of s"

definition string_of_bytes :: "bytes \<Rightarrow> string" where
  "string_of_bytes bs = map char_of_byte bs"

text \<open>\<^verbatim>\<open>s.c_str()\<close> as C functions see it ends at the first null character.\<close>

definition c_str :: "string \<Rightarrow> string" where
  "c_str s = takeWhile (\<lambda>c. c \<noteq> CHR 0x00) s"

definition no_nul :: "string \<Rightarrow> bool" where
  "no_nul s \<longleftrightarrow> CHR 0x00 \<notin> set s"

section \<open>Writing\<close>

text \<open>
  A write cursor: the bytes before it and the bytes of the buffer from it on, or None
  after a write beyond the end.
\<close>

type_synonym writer = "(bytes \<times> bytes) option"

definition put :: "bytes \<Rightarrow> writer \<Rightarrow> writer" where
  "put bs st = (case st of None \<Rightarrow> None | Some (done, room) \<Rightarrow>
     if length bs \<le> length room then Some (done @ bs, drop (length bs) room) else None)"

definition skip :: "nat \<Rightarrow> writer \<Rightarrow> writer" where
  "skip n st = (case st of None \<Rightarrow> None | Some (done, room) \<Rightarrow>
     if n \<le> length room then Some (done @ take n room, drop n room) else None)"

definition put_u32 :: "u32 \<Rightarrow> writer \<Rightarrow> writer" where
  "put_u32 w = put (le32 w)"

text \<open>\<^verbatim>\<open>strcpy(pos, s.c_str()); pos += strlen(pos) + 1\<close>.\<close>

definition put_str :: "string \<Rightarrow> writer \<Rightarrow> writer" where
  "put_str s = put (bytes_of (c_str s) @ [0])"

text \<open>\<^verbatim>\<open>strcpy(pos, s.c_str()); pos += s.length() + 1\<close>.\<close>

definition put_str_len :: "string \<Rightarrow> writer \<Rightarrow> writer" where
  "put_str_len s st = skip (length s - length (c_str s)) (put_str s st)"

section \<open>Reading\<close>

text \<open>
  What a \<^verbatim>\<open>load\<close> function does: it returns an object and the number of bytes it used, or
  rejects the input (\<^verbatim>\<open>~0U\<close>), or reads outside the buffer.
\<close>

datatype 'a loaded = Loaded 'a nat | Rejected | Out_of_bounds

definition with_u32 :: "bytes \<Rightarrow> (u32 \<Rightarrow> bytes \<Rightarrow> 'a loaded) \<Rightarrow> 'a loaded" where
  "with_u32 bs k = (if length bs < 4 then Out_of_bounds else k (of_le32 (take 4 bs)) (drop 4 bs))"

definition with_str :: "bytes \<Rightarrow> (string \<Rightarrow> bytes \<Rightarrow> 'a loaded) \<Rightarrow> 'a loaded" where
  "with_str bs k = (if 0 \<in> set bs
     then k (string_of_bytes (takeWhile (\<lambda>b. b \<noteq> 0) bs)) (tl (dropWhile (\<lambda>b. b \<noteq> 0) bs))
     else Out_of_bounds)"

definition with_bytes :: "nat \<Rightarrow> bytes \<Rightarrow> (bytes \<Rightarrow> bytes \<Rightarrow> 'a loaded) \<Rightarrow> 'a loaded" where
  "with_bytes n bs k = (if n \<le> length bs then k (take n bs) (drop n bs) else Out_of_bounds)"

text \<open>
  \<^verbatim>\<open>Message::checkStringTerms\<close>: whether \<open>nzeros\<close> terminators occur within \<open>sz\<close> bytes; None
  when it reads past the end of the buffer to find out.
\<close>

fun checkStringTerms :: "bytes \<Rightarrow> nat \<Rightarrow> nat \<Rightarrow> bool option" where
  "checkStringTerms bs sz nzeros =
     (if sz = 0 \<or> nzeros = 0 then Some (nzeros = 0)
      else case bs of
             [] \<Rightarrow> None
           | b # bs' \<Rightarrow> checkStringTerms bs' (sz - 1) (if b = 0 then nzeros - 1 else nzeros))"

declare checkStringTerms.simps [simp del]

definition if_terms :: "bytes \<Rightarrow> u32 \<Rightarrow> nat \<Rightarrow> 'a loaded \<Rightarrow> 'a loaded \<Rightarrow> 'a loaded" where
  "if_terms bs sz n yes no = (case checkStringTerms bs (unat sz) n of
       None \<Rightarrow> Out_of_bounds | Some b \<Rightarrow> if b then yes else no)"

text \<open>\<^verbatim>\<open>strnlen\<close>, and the count of null bytes from an offset up to \<open>sz\<close>.\<close>

fun strnlen :: "bytes \<Rightarrow> nat \<Rightarrow> nat option" where
  "strnlen bs n =
     (if n = 0 then Some 0
      else case bs of
             [] \<Rightarrow> None
           | b # bs' \<Rightarrow> if b = 0 then Some 0 else map_option Suc (strnlen bs' (n - 1)))"

declare strnlen.simps [simp del]

definition zeros :: "nat \<Rightarrow> bytes \<Rightarrow> nat \<Rightarrow> nat option" where
  "zeros off bs sz =
     (if off < sz \<and> length bs < sz then None
      else Some (length (filter (\<lambda>b. b = 0) (drop off (take sz bs)))))"

text \<open>A sequence of writes.\<close>

definition writes :: "(writer \<Rightarrow> writer) list \<Rightarrow> writer \<Rightarrow> writer" where
  "writes fs st = fold (\<lambda>f. f) fs st"

section \<open>Facts\<close>

lemma le32_length [simp]: "length (le32 w) = 4"
  by (simp add: le32_def Let_def)

lemma bytes_sum:
  assumes "0 \<le> x" "x < (4294967296 :: int)"
  shows "x mod 256 + 256 * (x div 256 mod 256) + 65536 * (x div 65536 mod 256) +
    16777216 * (x div 16777216 mod 256) = x"
proof -
  have d: "x div 65536 = x div 256 div 256" "x div 16777216 = x div 256 div 256 div 256"
    by (simp_all add: zdiv_zmult2_eq [symmetric])
  have "x div 256 div 256 div 256 < 256" using assms by (simp add: d(2) [symmetric])
  moreover have "0 \<le> x div 256 div 256 div 256" using assms by simp
  ultimately have "x div 256 div 256 div 256 mod 256 = x div 256 div 256 div 256" by simp
  moreover have "256 * (x div 256 div 256 div 256) + x div 256 div 256 mod 256 = x div 256 div 256"
    "256 * (x div 256 div 256) + x div 256 mod 256 = x div 256" "256 * (x div 256) + x mod 256 = x"
    by simp_all
  ultimately show ?thesis unfolding d by linarith
qed

lemma of_le32_le32 [simp]: "of_le32 (le32 w) = w"
proof -
  define n where "n = uint w"
  have n: "0 \<le> n" "n < 4294967296" using uint_lt2p [of w] by (simp_all add: n_def)
  have "of_le32 (le32 w) = word_of_int (n mod 256 + 256 * (n div 256 mod 256) +
      65536 * (n div 65536 mod 256) + 16777216 * (n div 16777216 mod 256))"
    unfolding of_le32_def le32_def Let_def n_def [symmetric] by (simp add: uint_word_of_int)
  also have "\<dots> = w" by (simp only: bytes_sum [OF n]) (simp add: n_def)
  finally show ?thesis .
qed

lemma byte_of_inverse [simp]: "char_of_byte (byte_of c) = c"
  by (simp add: char_of_byte_def byte_of_def unat_of_nat)

lemma byte_of_zero: "byte_of c = 0 \<longleftrightarrow> c = CHR 0x00"
proof
  assume "byte_of c = 0"
  then have "c = char_of_byte 0" using byte_of_inverse [of c] by simp
  moreover have "char_of_byte 0 = CHR 0x00" by code_simp
  ultimately show "c = CHR 0x00" by simp
qed (simp add: byte_of_def)

lemma bytes_of_simps [simp]:
  "string_of_bytes (bytes_of s) = s" "length (bytes_of s) = length s"
  "length (string_of_bytes bs) = length bs"
  by (simp_all add: bytes_of_def string_of_bytes_def comp_def)

lemma c_str_no_nul [simp]: "no_nul s \<Longrightarrow> c_str s = s"
  by (auto simp: c_str_def no_nul_def intro: takeWhile_eq_all_conv [THEN iffD2])

lemma no_nul_bytes: "no_nul s \<Longrightarrow> 0 \<notin> set (bytes_of s)"
  by (auto simp: no_nul_def bytes_of_def byte_of_zero)

lemma put_put: "put b (put a st) = put (a @ b) st"
  by (auto simp: put_def add.commute split: option.split)

lemma put_none [simp]: "put b None = None"
  by (simp add: put_def)

lemma put_nil [simp]: "put [] st = st"
  by (simp add: put_def split: option.split)

lemma put_fits: "length room = length bs \<Longrightarrow> put bs (Some ([], room)) = Some (bs, [])"
  by (simp add: put_def)

lemma skip_0 [simp]: "skip 0 st = st"
  by (simp add: skip_def split: option.split)

text \<open>The encoding of a string without null characters.\<close>

definition enc_str :: "string \<Rightarrow> bytes" where
  "enc_str s = bytes_of s @ [0]"

lemma enc_str_length [simp]: "length (enc_str s) = length s + 1"
  by (simp add: enc_str_def)

lemma put_str_simps [simp]:
  "no_nul s \<Longrightarrow> put_str s = put (enc_str s)"
  "no_nul s \<Longrightarrow> put_str_len s = put (enc_str s)"
  by (auto simp: put_str_def put_str_len_def enc_str_def fun_eq_iff)

lemma with_u32_le32 [simp]: "with_u32 (le32 w @ rest) k = k w rest"
  by (simp add: with_u32_def)

lemma takeWhile_nonzero:
  "no_nul s \<Longrightarrow> takeWhile (\<lambda>b. b \<noteq> 0) (bytes_of s @ 0 # rest) = bytes_of s"
  "no_nul s \<Longrightarrow> dropWhile (\<lambda>b. b \<noteq> 0) (bytes_of s @ 0 # rest) = 0 # rest"
  using no_nul_bytes [of s] by (induction s) (auto simp: bytes_of_def no_nul_def)

lemma with_str_enc [simp]: "no_nul s \<Longrightarrow> with_str (enc_str s @ rest) k = k s rest"
  by (simp add: with_str_def enc_str_def takeWhile_nonzero)

lemma with_bytes_append [simp]: "n = length bs \<Longrightarrow> with_bytes n (bs @ rest) k = k bs rest"
  by (simp add: with_bytes_def)

lemma checkStringTerms_0 [simp]: "checkStringTerms bs sz 0 = Some True"
  by (simp add: checkStringTerms.simps)

lemma checkStringTerms_sz_0 [simp]: "checkStringTerms bs 0 (Suc n) = Some False"
  by (simp add: checkStringTerms.simps)

lemma checkStringTerms_nonzero:
  "0 \<notin> set a \<Longrightarrow> length a \<le> sz \<Longrightarrow>
   checkStringTerms (a @ bs) sz (Suc n) = checkStringTerms bs (sz - length a) (Suc n)"
proof (induction a arbitrary: sz)
  case (Cons x a)
  then show ?case by (cases sz) (simp_all add: checkStringTerms.simps [of "x # a @ bs"])
qed simp

lemma checkStringTerms_enc [simp]:
  "no_nul s \<Longrightarrow> length s < sz \<Longrightarrow>
   checkStringTerms (enc_str s @ bs) sz (Suc n) = checkStringTerms bs (sz - length s - 1) n"
  using no_nul_bytes [of s] checkStringTerms_nonzero [of "bytes_of s" sz "0 # bs" n]
  by (simp add: enc_str_def checkStringTerms.simps [of "0 # bs"])

text \<open>Within the buffer the check never reads outside, and success means the strings are there.\<close>

lemma checkStringTerms_safe: "sz \<le> length bs \<Longrightarrow> checkStringTerms bs sz n \<noteq> None"
proof (induction bs sz n rule: checkStringTerms.induct)
  case (1 bs sz n)
  then show ?case by (subst checkStringTerms.simps) (auto split: list.split)
qed

lemma checkStringTerms_one:
  "checkStringTerms bs sz (Suc 0) = Some True \<Longrightarrow>
   0 \<in> set bs \<and> length (takeWhile (\<lambda>b. b \<noteq> 0) bs) < sz"
proof (induction bs sz "Suc 0" rule: checkStringTerms.induct)
  case (1 bs sz)
  from 1(2) have sz: "0 < sz" by (cases sz) auto
  then obtain b bs' where bs: "bs = b # bs'" using 1(2)
    by (cases bs) (auto simp: checkStringTerms.simps [of "[]"])
  show ?case
  proof (cases "b = 0")
    case True
    then show ?thesis using bs sz by simp
  next
    case False
    then have "checkStringTerms bs' (sz - 1) (Suc 0) = Some True"
      using 1(2) bs sz by (simp add: checkStringTerms.simps [of "b # bs'"])
    then show ?thesis using 1(1) [of b bs'] bs sz False by auto
  qed
qed

lemma with_u32_cong [fundef_cong]:
  "bs = bs' \<Longrightarrow> (\<And>w rest. length rest < length bs' \<Longrightarrow> k w rest = k' w rest) \<Longrightarrow>
   with_u32 bs k = with_u32 bs' k'"
  by (auto simp: with_u32_def)

lemma with_str_cong [fundef_cong]:
  assumes "bs = bs'" "\<And>s rest. length rest < length bs' \<Longrightarrow> k s rest = k' s rest"
  shows "with_str bs k = with_str bs' k'"
proof (cases "0 \<in> set bs'")
  case True
  then have "dropWhile (\<lambda>b. b \<noteq> 0) bs' \<noteq> []" by (auto simp: dropWhile_eq_Nil_conv)
  then have "length (tl (dropWhile (\<lambda>b. b \<noteq> 0) bs')) < length bs'"
    using length_dropWhile_le [of "\<lambda>b. b \<noteq> 0" bs'] by (cases "dropWhile (\<lambda>b. b \<noteq> 0) bs'") auto
  then show ?thesis using assms by (simp add: with_str_def)
next
  case False
  then show ?thesis using assms(1) by (simp add: with_str_def)
qed

lemma with_bytes_cong [fundef_cong]:
  "n = n' \<Longrightarrow> bs = bs' \<Longrightarrow> (\<And>d rest. length rest \<le> length bs' \<Longrightarrow> k d rest = k' d rest) \<Longrightarrow>
   with_bytes n bs k = with_bytes n' bs' k'"
  by (auto simp: with_bytes_def)

lemma writes_simps [simp]: "writes [] st = st" "writes (f # fs) st = writes fs (f st)"
  by (simp_all add: writes_def)

lemma put_u32_put [simp]: "put_u32 w (put a st) = put (a @ le32 w) st"
  by (simp add: put_u32_def put_put)

lemma strnlen_enc: "no_nul s \<Longrightarrow> length s < n \<Longrightarrow> strnlen (enc_str s @ bs) n = Some (length s)"
proof (induction s arbitrary: n)
  case Nil
  then show ?case by (simp add: strnlen.simps enc_str_def bytes_of_def)
next
  case (Cons c s)
  then have "byte_of c \<noteq> 0" "no_nul s" by (auto simp: no_nul_def byte_of_zero)
  with Cons show ?case
    by (cases n) (simp_all add: strnlen.simps [of "_ # _"] enc_str_def bytes_of_def)
qed

lemma strnlen_safe: "n \<le> length bs \<Longrightarrow> strnlen bs n \<noteq> None"
proof (induction bs n rule: strnlen.induct)
  case (1 bs n)
  then show ?case by (subst strnlen.simps) (auto split: list.split)
qed

lemma strnlen_found: "strnlen bs n = Some l \<Longrightarrow> l \<noteq> n \<Longrightarrow> n \<le> length bs \<Longrightarrow> 0 \<in> set bs"
proof (induction bs n arbitrary: l rule: strnlen.induct)
  case (1 bs n)
  show ?case
  proof (cases bs)
    case Nil
    with 1(2-4) show ?thesis by (auto simp: strnlen.simps split: if_splits)
  next
    case (Cons b bs')
    show ?thesis
    proof (cases "b = 0")
      case False
      with 1(2,3) Cons obtain l' where "n \<noteq> 0" "strnlen bs' (n - 1) = Some l'" "l = Suc l'"
        by (auto simp: strnlen.simps [of "b # bs'"] split: if_splits)
      with 1(1) [OF _ Cons False] 1(3,4) Cons show ?thesis by auto
    qed (use Cons in simp)
  qed
qed

end
