(* ===== verification/Message_Codec.thy ===== *)
theory Message_Codec
  imports Wire
begin

text \<open>
  The base class of the messages servers exchange, \<^verbatim>\<open>include/message.h\<close> and
  \<^verbatim>\<open>src/message.C\<close>: packing an object into a buffer, the blob that travels and is stored
  in the database, and the contract every message class meets with its
  \<^verbatim>\<open>storageRequired\<close>, \<^verbatim>\<open>store\<close> and \<^verbatim>\<open>load\<close>.
\<close>

section \<open>Packing\<close>

text \<open>
  The outcome of \<^verbatim>\<open>store\<close>: the bytes written and the untouched rest of the buffer, a
  refusal (\<^verbatim>\<open>~0U\<close>), or a write beyond the buffer.
\<close>

datatype store_result = Stored bytes bytes | Store_refused | Store_overrun

definition stored :: "writer \<Rightarrow> store_result" where
  "stored st = (case st of None \<Rightarrow> Store_overrun | Some (done, room) \<Rightarrow> Stored done room)"

text \<open>
  The part of \<^verbatim>\<open>Message::makeMessage\<close> that fills \<^verbatim>\<open>_data\<close>: \<open>buffer\<close> is the fresh allocation
  of \<^verbatim>\<open>storageRequired()\<close> bytes, whose contents are arbitrary. The whole buffer becomes the
  data, whatever part of it was written.
\<close>

definition pack :: "u32 \<Rightarrow> (u32 \<Rightarrow> writer \<Rightarrow> store_result) \<Rightarrow> bytes \<Rightarrow> bytes option" where
  "pack sz store buffer =
     (if sz = - 1 then None
      else case store sz (Some ([], buffer)) of
             Stored done room \<Rightarrow> Some (done @ room)
           | Store_refused \<Rightarrow> None
           | Store_overrun \<Rightarrow> None)"

section \<open>Blobs\<close>

definition MESSAGE_SIGNATURE_SIZE :: nat where "MESSAGE_SIGNATURE_SIZE = 128"

text \<open>\<^verbatim>\<open>sizeof(st_blob)\<close>: four words, the signature, one byte of data; packed.\<close>

definition sizeof_st_blob :: nat where "sizeof_st_blob = 4 * 4 + MESSAGE_SIGNATURE_SIZE + 1"

record message_head =
  mh_server_id :: u32
  mh_message_id :: u32
  mh_time :: u32
  mh_signature :: bytes

definition makeBlob :: "message_head \<Rightarrow> u32 \<Rightarrow> bytes \<Rightarrow> bytes" where
  "makeBlob h type_id data =
     le32 (mh_server_id h) @ le32 (mh_message_id h) @ le32 (mh_time h) @ le32 type_id @
     mh_signature h @ data"

text \<open>
  The fields \<^verbatim>\<open>buildMessage(blob, blob_len)\<close> takes from a blob: None for a blob shorter than
  \<^verbatim>\<open>st_blob\<close>.
\<close>

definition splitBlob :: "bytes \<Rightarrow> (message_head \<times> u32 \<times> bytes) option" where
  "splitBlob blob =
     (if length blob < sizeof_st_blob then None
      else Some (\<lparr>mh_server_id = of_le32 (take 4 blob), mh_message_id = of_le32 (take 4 (drop 4 blob)),
                  mh_time = of_le32 (take 4 (drop 8 blob)),
                  mh_signature = take MESSAGE_SIGNATURE_SIZE (drop 16 blob)\<rparr>,
                 of_le32 (take 4 (drop 12 blob)), drop (16 + MESSAGE_SIGNATURE_SIZE) blob))"

text \<open>\<^verbatim>\<open>setMessageId\<close> clears the signature; it only acts once the message is made.\<close>

definition setMessageId :: "u32 \<Rightarrow> message_head \<Rightarrow> message_head" where
  "setMessageId i h =
     (if mh_server_id h = 0 \<and> mh_time h = 0 then h
      else h\<lparr>mh_message_id := i, mh_signature := replicate MESSAGE_SIGNATURE_SIZE 0\<rparr>)"

lemma splitBlob_makeBlob:
  assumes "length (mh_signature h) = MESSAGE_SIGNATURE_SIZE" "data \<noteq> []"
  shows "splitBlob (makeBlob h type_id data) = Some (h, type_id, data)"
proof -
  have "length (makeBlob h type_id data) = 16 + MESSAGE_SIGNATURE_SIZE + length data"
    using assms(1) by (simp add: makeBlob_def)
  moreover have "0 < length data" using assms(2) by simp
  ultimately have "\<not> length (makeBlob h type_id data) < sizeof_st_blob"
    by (simp add: sizeof_st_blob_def)
  then show ?thesis using assms(1) by (simp add: splitBlob_def makeBlob_def)
qed

section \<open>Sizes\<close>

lemma unat_of_size: "n < 2 ^ 32 \<Longrightarrow> unat (u32_of n) = n"
  by (simp add: u32_of_def unat_of_nat)

lemma u32_bound: "unat (w :: u32) < 2 ^ 32"
  by (rule order.strict_trans2 [OF unsigned_less]) simp

lemma u32_of_unat [simp]: "u32_of (unat w) = w"
  by (simp add: u32_of_def)

lemma u32_of_0 [simp]: "u32_of 0 = 0"
  by (simp add: u32_of_def)

text \<open>Sizes as words: comparison, and subtraction without wrap-around.\<close>

lemma size_diff: "a \<le> n \<Longrightarrow> u32_of n - u32_of a = u32_of (n - a)"
  by (simp add: u32_of_def of_nat_diff)

lemma size_diff_num: "numeral a \<le> n \<Longrightarrow> u32_of n - numeral a = u32_of (n - numeral a)"
  by (simp add: u32_of_def of_nat_diff)

lemma size_less: "a < 2 ^ 32 \<Longrightarrow> b < 2 ^ 32 \<Longrightarrow> u32_of a < u32_of b \<longleftrightarrow> a < b"
  by (simp add: word_less_nat_alt unat_of_size)

lemma size_less_num: "a < 2 ^ 32 \<Longrightarrow> u32_of a < numeral b \<longleftrightarrow> a < unat (numeral b :: u32)"
  "a < 2 ^ 32 \<Longrightarrow> numeral b < u32_of a \<longleftrightarrow> unat (numeral b :: u32) < a"
  by (simp_all add: word_less_nat_alt unat_of_size)


section \<open>The contract of a message class\<close>

text \<open>
  A well-formed object fits exactly into the storage it asks for, and loading what was
  stored restores it and uses all of it, whatever the buffer held before.
\<close>

locale message_codec =
  fixes required :: "'m \<Rightarrow> u32"
    and store :: "'m \<Rightarrow> u32 \<Rightarrow> writer \<Rightarrow> store_result"
    and load :: "bytes \<Rightarrow> u32 \<Rightarrow> 'm loaded"
    and wf :: "'m \<Rightarrow> bool"
  assumes required_valid: "wf m \<Longrightarrow> required m \<noteq> - 1 \<and> required m \<noteq> 0"
    and store_load: "wf m \<Longrightarrow> length buffer = unat (required m) \<Longrightarrow>
      \<exists>bs. store m (required m) (Some ([], buffer)) = Stored bs [] \<and>
        length bs = unat (required m) \<and> load bs (required m) = Loaded m (length bs)"
begin

lemma pack_load:
  assumes "wf m" "length buffer = unat (required m)"
  shows "\<exists>data. pack (required m) (store m) buffer = Some data \<and> data \<noteq> [] \<and>
    length data = unat (required m) \<and> load data (required m) = Loaded m (length data)"
proof -
  from store_load [OF assms] obtain bs where bs: "store m (required m) (Some ([], buffer)) = Stored bs []"
    "length bs = unat (required m)" "load bs (required m) = Loaded m (length bs)" by blast
  moreover have "bs \<noteq> []" using bs(2) required_valid [OF assms(1)] by (auto simp: unat_eq_0)
  ultimately show ?thesis using required_valid [OF assms(1)] by (simp add: pack_def)
qed

text \<open>From an object through the blob back to the object.\<close>

lemma blob_roundtrip:
  assumes "wf m" "length buffer = unat (required m)" "length (mh_signature h) = MESSAGE_SIGNATURE_SIZE"
  shows "\<exists>data. pack (required m) (store m) buffer = Some data \<and>
    splitBlob (makeBlob h type_id data) = Some (h, type_id, data) \<and>
    load data (u32_of (length data)) = Loaded m (length data)"
proof -
  from pack_load [OF assms(1,2)] obtain data where d: "pack (required m) (store m) buffer = Some data"
    "data \<noteq> []" "length data = unat (required m)" "load data (required m) = Loaded m (length data)"
    by blast
  then have "u32_of (length data) = required m" by simp
  with d splitBlob_makeBlob [OF assms(3) d(2), of type_id] show ?thesis by metis
qed

end

text \<open>A class whose \<^verbatim>\<open>load\<close> reads only the buffer it was given, whatever the bytes are.\<close>

locale safe_codec = message_codec +
  assumes load_safe: "length bs = unat sz \<Longrightarrow> load bs sz \<noteq> Out_of_bounds"
begin

lemma load_accepts_or_rejects:
  "length bs = unat sz \<Longrightarrow> (\<exists>m n. load bs sz = Loaded m n) \<or> load bs sz = Rejected"
  using load_safe [of bs sz] by (cases "load bs sz") auto

end

section \<open>Safe reading\<close>

text \<open>When a reader leaves the buffer.\<close>

lemma with_u32_oob:
  "with_u32 bs k = Out_of_bounds \<longleftrightarrow>
   length bs < 4 \<or> k (of_le32 (take 4 bs)) (drop 4 bs) = Out_of_bounds"
  by (simp add: with_u32_def)

lemma with_bytes_oob:
  "with_bytes n bs k = Out_of_bounds \<longleftrightarrow> length bs < n \<or> k (take n bs) (drop n bs) = Out_of_bounds"
  by (auto simp: with_bytes_def)

lemma with_str_oob:
  assumes "with_str bs k = Out_of_bounds" "0 \<in> set bs"
  shows "\<exists>s rest. bs = s @ 0 # rest \<and> 0 \<notin> set s \<and> k (string_of_bytes s) rest = Out_of_bounds"
proof -
  obtain s rest where bs: "bs = s @ 0 # rest" "0 \<notin> set s" using assms(2) by (meson split_list_first)
  have "takeWhile (\<lambda>b. b \<noteq> 0) (s @ 0 # rest) = s" "dropWhile (\<lambda>b. b \<noteq> 0) (s @ 0 # rest) = 0 # rest"
    using bs(2) by (auto simp: takeWhile_append takeWhile_eq_all_conv [THEN iffD2] dropWhile_append
        split: if_splits)
  then show ?thesis using assms(1) bs by (auto simp: with_str_def)
qed

lemma if_terms_oob:
  assumes "if_terms bs sz (Suc 0) yes no = Out_of_bounds" "unat sz \<le> length bs" "no \<noteq> Out_of_bounds"
  shows "yes = Out_of_bounds \<and> 0 \<in> set bs \<and> length (takeWhile (\<lambda>b. b \<noteq> 0) bs) < unat sz"
proof -
  obtain b where b: "checkStringTerms bs (unat sz) 1 = Some b"
    using checkStringTerms_safe [OF assms(2), of 1] by auto
  with assms(1,3) have "b" "yes = Out_of_bounds" by (auto simp: if_terms_def split: if_splits)
  with b checkStringTerms_one [of bs "unat sz"] show ?thesis by simp
qed

lemma zeros_oob: "length bs = unat sz \<Longrightarrow> zeros off bs (unat sz) \<noteq> None"
  by (simp add: zeros_def)

lemma last_field [simp]:
  "with_u32 (le32 w) k = k w []"
  "no_nul s \<Longrightarrow> with_str (enc_str s) f = f s []"
  "n = length bs \<Longrightarrow> with_bytes n bs g = g bs []"
  using with_u32_le32 [of w "[]" k] with_str_enc [of s "[]" f] with_bytes_append [of n bs "[]" g]
  by simp_all

lemma last_terms [simp]:
  "no_nul s \<Longrightarrow> length s < n \<Longrightarrow> checkStringTerms (enc_str s) n (Suc 0) = Some True"
  using checkStringTerms_enc [of s n "[]" 0] by simp

lemma put_u32_start [simp]: "put_u32 w (Some x) = put (le32 w) (Some x)"
  by (simp add: put_u32_def)

text \<open>To meet the contract it is enough to give the encoding.\<close>

lemma codec_encoding:
  assumes "store m sz (Some ([], buffer)) = stored (put e (Some ([], buffer)))"
    and "length e = unat sz" and "length buffer = unat sz" and "load e sz = Loaded m (length e)"
  shows "\<exists>bs. store m sz (Some ([], buffer)) = Stored bs [] \<and> length bs = unat sz \<and>
    load bs sz = Loaded m (length bs)"
  using assms by (intro exI [of _ e]) (simp add: put_fits stored_def)

lemma size_valid: "0 < n \<Longrightarrow> n < 2 ^ 32 - 1 \<Longrightarrow>
    (u32_of n) \<noteq> - 1 \<and> (u32_of n) \<noteq> 0 \<and> unat (u32_of n) = n"
proof -
  assume n: "0 < n" "n < 2 ^ 32 - 1"
  then have u: "unat (u32_of n) = n" by (intro unat_of_size) simp
  moreover have "(u32_of n) \<noteq> - 1"
  proof
    assume "(u32_of n) = - 1"
    then have "int n = uint (- 1 :: u32)" using u by (metis uint_nat)
    moreover have "uint (- 1 :: u32) = 4294967295" by code_simp
    ultimately show False using n by simp
  qed
  moreover have "(u32_of n) \<noteq> 0" using u n(1) by (metis unat_0 less_irrefl)
  ultimately show ?thesis by blast
qed

lemma zeros_within: "length bs = n \<Longrightarrow> zeros off bs n = Some (length (filter (\<lambda>b. b = 0) (drop off bs)))"
  by (simp add: zeros_def)

lemma filter_zero_enc [simp]: "no_nul s \<Longrightarrow> filter (\<lambda>b. b = 0) (enc_str s) = [0]"
  using no_nul_bytes [of s] by (simp add: enc_str_def filter_empty_conv) (metis (full_types) filter_False)

end
