(* ===== verification/Messages_Basic.thy ===== *)
theory Messages_Basic
  imports Message_Codec Std_Map
begin

text \<open>
  The small message classes: start/stop events (\<^verbatim>\<open>src/act_startstop.C\<close>), passwords
  (\<^verbatim>\<open>src/act_passwd.C\<close>), bonuses (\<^verbatim>\<open>src/act_bonus.C\<close>), clarifications (\<^verbatim>\<open>src/act_clarify.C\<close>),
  and the creation of groups, users and servers (\<^verbatim>\<open>src/message_create*.C\<close>). For each: its
  fields, \<^verbatim>\<open>storageRequired\<close>, \<^verbatim>\<open>store\<close> and \<^verbatim>\<open>load\<close>.
\<close>

section \<open>\<^verbatim>\<open>MsgStartStop\<close>\<close>

record MsgStartStop =
  ss_group_id :: u32
  ss_time :: u32
  ss_action :: u32

definition MsgStartStop_required :: "MsgStartStop \<Rightarrow> u32" where
  "MsgStartStop_required m = 12"

definition MsgStartStop_store :: "MsgStartStop \<Rightarrow> u32 \<Rightarrow> writer \<Rightarrow> store_result" where
  "MsgStartStop_store m sz st =
     (if sz < 12 then Store_refused
      else stored (writes [put_u32 (ss_group_id m), put_u32 (ss_time m), put_u32 (ss_action m)] st))"

definition MsgStartStop_load :: "bytes \<Rightarrow> u32 \<Rightarrow> MsgStartStop loaded" where
  "MsgStartStop_load bs sz =
     (if sz < 12 then Rejected
      else with_u32 bs (\<lambda>g bs. with_u32 bs (\<lambda>t bs. with_u32 bs (\<lambda>a bs.
             Loaded \<lparr>ss_group_id = g, ss_time = t, ss_action = a\<rparr> 12))))"

section \<open>\<^verbatim>\<open>PasswdMessage\<close>\<close>

record PasswdMessage =
  pw_user_id :: u32
  pw_newpass :: string

definition PasswdMessage_required :: "PasswdMessage \<Rightarrow> u32" where
  "PasswdMessage_required m = u32_of (4 + length (pw_newpass m) + 1)"

definition PasswdMessage_store :: "PasswdMessage \<Rightarrow> u32 \<Rightarrow> writer \<Rightarrow> store_result" where
  "PasswdMessage_store m sz st =
     (if sz < PasswdMessage_required m then Store_refused
      else stored (writes [put_u32 (pw_user_id m), put_str (pw_newpass m)] st))"

definition PasswdMessage_load :: "bytes \<Rightarrow> u32 \<Rightarrow> PasswdMessage loaded" where
  "PasswdMessage_load bs sz =
     (if sz < 4 then Rejected
      else case strnlen (drop 4 bs) (unat (sz - 4)) of
             None \<Rightarrow> Out_of_bounds
           | Some n \<Rightarrow>
               if n = unat (sz - 4) then Rejected
               else with_u32 bs (\<lambda>u rest. with_str rest (\<lambda>s _.
                      Loaded \<lparr>pw_user_id = u, pw_newpass = s\<rparr> (4 + length s + 1))))"

section \<open>\<^verbatim>\<open>BonusMessage\<close>\<close>

text \<open>Points and seconds are signed; their words are copied.\<close>

record BonusMessage =
  bn_user_id :: u32
  bn_points :: u32
  bn_seconds :: u32

definition BonusMessage_required :: "BonusMessage \<Rightarrow> u32" where
  "BonusMessage_required m = 12"

definition BonusMessage_store :: "BonusMessage \<Rightarrow> u32 \<Rightarrow> writer \<Rightarrow> store_result" where
  "BonusMessage_store m sz st =
     (if sz < BonusMessage_required m then Store_refused
      else stored (writes [put_u32 (bn_user_id m), put_u32 (bn_points m), put_u32 (bn_seconds m)] st))"

definition BonusMessage_load :: "bytes \<Rightarrow> u32 \<Rightarrow> BonusMessage loaded" where
  "BonusMessage_load bs sz =
     (if sz < 12 then Rejected
      else with_u32 bs (\<lambda>u bs. with_u32 bs (\<lambda>p bs. with_u32 bs (\<lambda>s bs.
             Loaded \<lparr>bn_user_id = u, bn_points = p, bn_seconds = s\<rparr> 12))))"

section \<open>\<^verbatim>\<open>ClarificationMessage\<close>\<close>

record ClarificationMessage =
  cl_request :: u32
  cl_clarification_request_id :: u32
  cl_clarification_id :: u32
  cl_user_id :: u32
  cl_prob_id :: u32
  cl_time :: u32
  cl_server_id :: u32
  cl_text :: string

definition ClarificationMessage_required :: "ClarificationMessage \<Rightarrow> u32" where
  "ClarificationMessage_required m = u32_of (7 * 4 + length (cl_text m) + 1)"

definition ClarificationMessage_store :: "ClarificationMessage \<Rightarrow> u32 \<Rightarrow> writer \<Rightarrow> store_result" where
  "ClarificationMessage_store m sz st =
     stored (writes [put_u32 (cl_request m), put_u32 (cl_clarification_request_id m),
       put_u32 (cl_clarification_id m), put_u32 (cl_user_id m), put_u32 (cl_prob_id m),
       put_u32 (cl_time m), put_u32 (cl_server_id m), put_str_len (cl_text m)] st)"

definition ClarificationMessage_load :: "bytes \<Rightarrow> u32 \<Rightarrow> ClarificationMessage loaded" where
  "ClarificationMessage_load bs sz =
     (if sz \<le> 28 then Rejected
      else with_u32 bs (\<lambda>r bs. with_u32 bs (\<lambda>q bs. with_u32 bs (\<lambda>c bs. with_u32 bs (\<lambda>u bs.
           with_u32 bs (\<lambda>p bs. with_u32 bs (\<lambda>t bs. with_u32 bs (\<lambda>s bs.
             if_terms bs (sz - 28) 1
               (with_str bs (\<lambda>x _.
                  Loaded \<lparr>cl_request = r, cl_clarification_request_id = q, cl_clarification_id = c,
                    cl_user_id = u, cl_prob_id = p, cl_time = t, cl_server_id = s, cl_text = x\<rparr>
                    (28 + length x + 1)))
               Rejected))))))))"

section \<open>\<^verbatim>\<open>Message_CreateGroup\<close>\<close>

record CreateGroup =
  cg_group_id :: u32
  cg_groupname :: string

definition CreateGroup_required :: "CreateGroup \<Rightarrow> u32" where
  "CreateGroup_required m = u32_of (length (cg_groupname m) + 1 + 4)"

definition CreateGroup_store :: "CreateGroup \<Rightarrow> u32 \<Rightarrow> writer \<Rightarrow> store_result" where
  "CreateGroup_store m sz st =
     (if sz < CreateGroup_required m then Store_refused
      else stored (writes [put_u32 (cg_group_id m), put_str_len (cg_groupname m)] st))"

definition CreateGroup_load :: "bytes \<Rightarrow> u32 \<Rightarrow> CreateGroup loaded" where
  "CreateGroup_load bs sz = (case zeros 4 bs (unat sz) of
       None \<Rightarrow> Out_of_bounds
     | Some n \<Rightarrow>
         if n < 1 then Rejected
         else with_u32 bs (\<lambda>g bs. with_str bs (\<lambda>s _.
                Loaded \<lparr>cg_group_id = g, cg_groupname = s\<rparr> (4 + length s + 1))))"

section \<open>\<^verbatim>\<open>Message_CreateUser\<close>\<close>

record CreateUser =
  cu_user_id :: u32
  cu_type :: u32
  cu_group_id :: u32
  cu_requestor_id :: u32
  cu_username :: string
  cu_friendlyname :: string
  cu_password :: string

definition CreateUser_required :: "CreateUser \<Rightarrow> u32" where
  "CreateUser_required m = u32_of
     (length (cu_username m) + length (cu_friendlyname m) + length (cu_password m) + 3 + 4 * 4)"

definition CreateUser_store :: "CreateUser \<Rightarrow> u32 \<Rightarrow> writer \<Rightarrow> store_result" where
  "CreateUser_store m sz st =
     (if sz < CreateUser_required m then Store_refused
      else stored (writes [put_u32 (cu_user_id m), put_u32 (cu_type m), put_u32 (cu_group_id m),
        put_u32 (cu_requestor_id m), put_str_len (cu_username m), put_str_len (cu_friendlyname m),
        put_str_len (cu_password m)] st))"

definition CreateUser_load :: "bytes \<Rightarrow> u32 \<Rightarrow> CreateUser loaded" where
  "CreateUser_load bs sz = (case zeros 16 bs (unat sz) of
       None \<Rightarrow> Out_of_bounds
     | Some n \<Rightarrow>
         if n < 3 then Rejected
         else with_u32 bs (\<lambda>u bs. with_u32 bs (\<lambda>t bs. with_u32 bs (\<lambda>g bs. with_u32 bs (\<lambda>r bs.
              with_str bs (\<lambda>x bs. with_str bs (\<lambda>y bs. with_str bs (\<lambda>z _.
                Loaded \<lparr>cu_user_id = u, cu_type = t, cu_group_id = g, cu_requestor_id = r,
                  cu_username = x, cu_friendlyname = y, cu_password = z\<rparr>
                  (16 + (length x + 1) + (length y + 1) + (length z + 1))))))))))"

section \<open>\<^verbatim>\<open>Message_CreateServer\<close>\<close>

record CreateServer =
  cs_server_id :: u32
  cs_name :: string
  cs_attribs :: "(string, string) smap"

definition addAttribute :: "string \<Rightarrow> string \<Rightarrow> CreateServer \<Rightarrow> CreateServer" where
  "addAttribute k v m = m\<lparr>cs_attribs := smap_put k v (cs_attribs m)\<rparr>"

definition CreateServer_required :: "CreateServer \<Rightarrow> u32" where
  "CreateServer_required m = u32_of (4 + length (cs_name m) + 1 +
     sum_list (map (\<lambda>(k, v). length k + length v + 2) (cs_attribs m)))"

definition CreateServer_store :: "CreateServer \<Rightarrow> u32 \<Rightarrow> writer \<Rightarrow> store_result" where
  "CreateServer_store m sz st =
     (if sz < CreateServer_required m then Store_refused
      else stored (writes ([put_u32 (cs_server_id m), put_str_len (cs_name m)] @
        concat (map (\<lambda>(k, v). [put_str_len k, put_str_len v]) (cs_attribs m))) st))"

text \<open>The loop over the attributes, while more than one terminator is left.\<close>

fun load_attribs ::
  "nat \<Rightarrow> bytes \<Rightarrow> (string, string) smap \<Rightarrow> ((string, string) smap \<Rightarrow> bytes \<Rightarrow> CreateServer loaded) \<Rightarrow>
   CreateServer loaded" where
  "load_attribs n bs m k =
     (if n > 1 then with_str bs (\<lambda>a bs. with_str bs (\<lambda>v bs. load_attribs (n - 2) bs (smap_put a v m) k))
      else k m bs)"

declare load_attribs.simps [simp del]

definition CreateServer_load :: "bytes \<Rightarrow> u32 \<Rightarrow> CreateServer loaded" where
  "CreateServer_load bs sz = (case zeros 4 bs (unat sz) of
       None \<Rightarrow> Out_of_bounds
     | Some n \<Rightarrow>
         if n = 0 then Rejected
         else with_u32 bs (\<lambda>i bs1. with_str bs1 (\<lambda>s bs2. load_attribs (n - 1) bs2 [] (\<lambda>m rest.
                Loaded \<lparr>cs_server_id = i, cs_name = s, cs_attribs = m\<rparr> (length bs - length rest)))))"

section \<open>The contracts\<close>

interpretation startstop: safe_codec MsgStartStop_required MsgStartStop_store MsgStartStop_load
  "\<lambda>m. True"
proof
  fix m :: MsgStartStop and buffer :: bytes
  assume "length buffer = unat (MsgStartStop_required m)"
  then show "\<exists>bs. MsgStartStop_store m (MsgStartStop_required m) (Some ([], buffer)) = Stored bs [] \<and>
      length bs = unat (MsgStartStop_required m) \<and>
      MsgStartStop_load bs (MsgStartStop_required m) = Loaded m (length bs)"
    by (intro codec_encoding [of _ _ _ _ "le32 (ss_group_id m) @ le32 (ss_time m) @ le32 (ss_action m)"])
      (simp_all add: MsgStartStop_store_def MsgStartStop_load_def MsgStartStop_required_def)
next
  fix bs :: bytes and sz :: u32
  assume "length bs = unat sz"
  then show "MsgStartStop_load bs sz \<noteq> Out_of_bounds"
    by (auto simp: MsgStartStop_load_def word_less_nat_alt with_u32_oob)
qed (simp add: MsgStartStop_required_def)

definition PasswdMessage_wf :: "PasswdMessage \<Rightarrow> bool" where
  "PasswdMessage_wf m \<longleftrightarrow> no_nul (pw_newpass m) \<and> 4 + length (pw_newpass m) + 1 < 2 ^ 32 - 1"

interpretation passwd: safe_codec PasswdMessage_required PasswdMessage_store PasswdMessage_load
  PasswdMessage_wf
proof
  fix m :: PasswdMessage and buffer :: bytes
  assume wf: "PasswdMessage_wf m"
  let ?n = "4 + length (pw_newpass m) + 1"
  have sz: "PasswdMessage_required m \<noteq> - 1 \<and> PasswdMessage_required m \<noteq> 0 \<and>
    unat (PasswdMessage_required m) = ?n"
    using size_valid [of ?n] wf unfolding PasswdMessage_required_def PasswdMessage_wf_def by simp
  then show "PasswdMessage_required m \<noteq> - 1 \<and> PasswdMessage_required m \<noteq> 0" by blast
  have ge: "\<not> PasswdMessage_required m < 4" using sz by (simp add: word_less_nat_alt)
  have d: "unat (PasswdMessage_required m - 4) = length (pw_newpass m) + 1"
    using sz by (simp add: unat_sub word_le_nat_alt)
  assume len: "length buffer = unat (PasswdMessage_required m)"
  show "\<exists>bs. PasswdMessage_store m (PasswdMessage_required m) (Some ([], buffer)) = Stored bs [] \<and>
      length bs = unat (PasswdMessage_required m) \<and>
      PasswdMessage_load bs (PasswdMessage_required m) = Loaded m (length bs)"
    by (rule codec_encoding [of _ _ _ _ "le32 (pw_user_id m) @ enc_str (pw_newpass m)"])
      (use wf len sz ge d strnlen_enc [of "pw_newpass m" "length (pw_newpass m) + 1" "[]"] in
        \<open>simp_all add: PasswdMessage_store_def PasswdMessage_load_def PasswdMessage_wf_def put_put\<close>)
next
  fix bs :: bytes and sz :: u32
  assume len: "length bs = unat sz"
  show "PasswdMessage_load bs sz \<noteq> Out_of_bounds"
  proof (cases "sz < 4")
    case False
    then have n: "unat (sz - 4) = length (drop 4 bs)" "4 \<le> length bs"
      using len by (simp_all add: unat_sub word_le_nat_alt word_less_nat_alt)
    then obtain l where l: "strnlen (drop 4 bs) (unat (sz - 4)) = Some l"
      using strnlen_safe [of "unat (sz - 4)" "drop 4 bs"] by auto
    with False n strnlen_found [OF l] show ?thesis
      by (auto simp: PasswdMessage_load_def with_u32_oob dest: with_str_oob)
  qed (simp add: PasswdMessage_load_def)
qed

interpretation bonus: safe_codec BonusMessage_required BonusMessage_store BonusMessage_load
  "\<lambda>m. True"
proof
  fix m :: BonusMessage and buffer :: bytes
  assume "length buffer = unat (BonusMessage_required m)"
  then show "\<exists>bs. BonusMessage_store m (BonusMessage_required m) (Some ([], buffer)) = Stored bs [] \<and>
      length bs = unat (BonusMessage_required m) \<and>
      BonusMessage_load bs (BonusMessage_required m) = Loaded m (length bs)"
    by (intro codec_encoding [of _ _ _ _ "le32 (bn_user_id m) @ le32 (bn_points m) @ le32 (bn_seconds m)"])
      (simp_all add: BonusMessage_store_def BonusMessage_load_def BonusMessage_required_def)
next
  fix bs :: bytes and sz :: u32
  assume "length bs = unat sz"
  then show "BonusMessage_load bs sz \<noteq> Out_of_bounds"
    by (auto simp: BonusMessage_load_def word_less_nat_alt with_u32_oob)
qed (simp add: BonusMessage_required_def)

definition ClarificationMessage_wf :: "ClarificationMessage \<Rightarrow> bool" where
  "ClarificationMessage_wf m \<longleftrightarrow> no_nul (cl_text m) \<and> 7 * 4 + length (cl_text m) + 1 < 2 ^ 32 - 1"

interpretation clarification: safe_codec ClarificationMessage_required ClarificationMessage_store
  ClarificationMessage_load ClarificationMessage_wf
proof
  fix m :: ClarificationMessage and buffer :: bytes
  assume wf: "ClarificationMessage_wf m"
  let ?n = "7 * 4 + length (cl_text m) + 1" and ?r = "ClarificationMessage_required m"
  have sz: "?r \<noteq> - 1 \<and> ?r \<noteq> 0 \<and> unat ?r = ?n"
    using size_valid [of ?n] wf unfolding ClarificationMessage_required_def ClarificationMessage_wf_def
    by simp
  then show "?r \<noteq> - 1 \<and> ?r \<noteq> 0" by blast
  have ge: "\<not> ?r \<le> 28" and d: "unat (?r - 28) = length (cl_text m) + 1"
    using sz by (simp_all add: unat_sub word_le_nat_alt)
  assume len: "length buffer = unat ?r"
  show "\<exists>bs. ClarificationMessage_store m ?r (Some ([], buffer)) = Stored bs [] \<and>
      length bs = unat ?r \<and> ClarificationMessage_load bs ?r = Loaded m (length bs)"
    by (rule codec_encoding [of _ _ _ _ "le32 (cl_request m) @ le32 (cl_clarification_request_id m) @
        le32 (cl_clarification_id m) @ le32 (cl_user_id m) @ le32 (cl_prob_id m) @ le32 (cl_time m) @
        le32 (cl_server_id m) @ enc_str (cl_text m)"])
      (use wf len sz ge d in \<open>simp_all add: ClarificationMessage_store_def ClarificationMessage_load_def
        ClarificationMessage_wf_def put_put if_terms_def\<close>)
next
  fix bs :: bytes and sz :: u32
  assume len: "length bs = unat sz"
  show "ClarificationMessage_load bs sz \<noteq> Out_of_bounds"
  proof (cases "sz \<le> 28")
    case False
    then have n: "unat (sz - 28) = length (drop 28 bs)" "28 \<le> length bs"
      using len by (simp_all add: unat_sub word_le_nat_alt)
    with False show ?thesis
      by (auto simp: ClarificationMessage_load_def with_u32_oob dest!: if_terms_oob with_str_oob)
  qed (simp add: ClarificationMessage_load_def)
qed

definition CreateGroup_wf :: "CreateGroup \<Rightarrow> bool" where
  "CreateGroup_wf m \<longleftrightarrow> no_nul (cg_groupname m) \<and> length (cg_groupname m) + 1 + 4 < 2 ^ 32 - 1"

lemma zeros_positive:
  "zeros off bs n = Some z \<Longrightarrow> 0 < z \<Longrightarrow> length bs = n \<Longrightarrow> 0 \<in> set (drop off bs) \<and> off < length bs"
proof -
  assume "zeros off bs n = Some z" "0 < z" "length bs = n"
  then have ne: "filter (\<lambda>b. b = 0) (drop off bs) \<noteq> []" by (auto simp: zeros_def)
  then have "0 \<in> set (drop off bs)" by (auto simp: filter_empty_conv)
  moreover from this have "off < length bs" by (metis drop_all empty_iff empty_set not_le)
  ultimately show ?thesis by blast
qed

interpretation creategroup: safe_codec CreateGroup_required CreateGroup_store CreateGroup_load
  CreateGroup_wf
proof
  fix m :: CreateGroup and buffer :: bytes
  assume wf: "CreateGroup_wf m"
  let ?n = "length (cg_groupname m) + 1 + 4" and ?r = "CreateGroup_required m"
  have sz: "?r \<noteq> - 1 \<and> ?r \<noteq> 0 \<and> unat ?r = ?n"
    using size_valid [of ?n] wf unfolding CreateGroup_required_def CreateGroup_wf_def by simp
  then show "?r \<noteq> - 1 \<and> ?r \<noteq> 0" by blast
  assume len: "length buffer = unat ?r"
  show "\<exists>bs. CreateGroup_store m ?r (Some ([], buffer)) = Stored bs [] \<and>
      length bs = unat ?r \<and> CreateGroup_load bs ?r = Loaded m (length bs)"
    by (rule codec_encoding [of _ _ _ _ "le32 (cg_group_id m) @ enc_str (cg_groupname m)"])
      (use wf len sz in \<open>simp_all add: CreateGroup_store_def CreateGroup_load_def CreateGroup_wf_def
        put_put zeros_within\<close>)
next
  fix bs :: bytes and sz :: u32
  assume len: "length bs = unat sz"
  obtain z where z: "zeros 4 bs (unat sz) = Some z" using zeros_oob [OF len, of 4] by auto
  with zeros_positive [OF z _ len] show "CreateGroup_load bs sz \<noteq> Out_of_bounds"
    by (auto simp: CreateGroup_load_def with_u32_oob dest!: with_str_oob)
qed

text \<open>The number of terminators left bounds the number of strings that can be read.\<close>

abbreviation zc :: "bytes \<Rightarrow> nat" where
  "zc bs \<equiv> length (filter (\<lambda>b. b = 0) bs)"

lemma zc_drop: "0 < zc (drop n bs) \<Longrightarrow> n < length bs"
  by (rule ccontr) simp

lemma with_str_zc:
  assumes "with_str bs k = Out_of_bounds" "0 < zc bs"
  shows "\<exists>s rest. zc bs = Suc (zc rest) \<and> k (string_of_bytes s) rest = Out_of_bounds"
proof -
  have "0 \<in> set bs" using assms(2) by (auto simp: filter_empty_conv)
  from with_str_oob [OF assms(1) this] obtain s rest where
    "bs = s @ 0 # rest" "0 \<notin> set s" "k (string_of_bytes s) rest = Out_of_bounds" by blast
  moreover from this have "filter (\<lambda>b. b = 0) s = []" by (auto simp: filter_empty_conv)
  ultimately show ?thesis by (intro exI [of _ s] exI [of _ rest]) simp
qed

definition CreateUser_wf :: "CreateUser \<Rightarrow> bool" where
  "CreateUser_wf m \<longleftrightarrow> no_nul (cu_username m) \<and> no_nul (cu_friendlyname m) \<and> no_nul (cu_password m) \<and>
     length (cu_username m) + length (cu_friendlyname m) + length (cu_password m) + 3 + 4 * 4 < 2 ^ 32 - 1"

interpretation createuser: safe_codec CreateUser_required CreateUser_store CreateUser_load
  CreateUser_wf
proof
  fix m :: CreateUser and buffer :: bytes
  assume wf: "CreateUser_wf m"
  let ?n = "length (cu_username m) + length (cu_friendlyname m) + length (cu_password m) + 3 + 4 * 4"
    and ?r = "CreateUser_required m"
  have sz: "?r \<noteq> - 1 \<and> ?r \<noteq> 0 \<and> unat ?r = ?n"
    using size_valid [of ?n] wf unfolding CreateUser_required_def CreateUser_wf_def by simp
  then show "?r \<noteq> - 1 \<and> ?r \<noteq> 0" by blast
  assume len: "length buffer = unat ?r"
  show "\<exists>bs. CreateUser_store m ?r (Some ([], buffer)) = Stored bs [] \<and>
      length bs = unat ?r \<and> CreateUser_load bs ?r = Loaded m (length bs)"
    by (rule codec_encoding [of _ _ _ _ "le32 (cu_user_id m) @ le32 (cu_type m) @ le32 (cu_group_id m) @
        le32 (cu_requestor_id m) @ enc_str (cu_username m) @ enc_str (cu_friendlyname m) @
        enc_str (cu_password m)"])
      (use wf len sz in \<open>simp_all add: CreateUser_store_def CreateUser_load_def CreateUser_wf_def
        put_put zeros_within\<close>)
next
  fix bs :: bytes and sz :: u32
  assume len: "length bs = unat sz"
  show "CreateUser_load bs sz \<noteq> Out_of_bounds"
  proof
    assume oob: "CreateUser_load bs sz = Out_of_bounds"
    have z: "zeros 16 bs (unat sz) = Some (zc (drop 16 bs))" using len by (simp add: zeros_within)
    with oob have three: "3 \<le> zc (drop 16 bs)"
      by (auto simp: CreateUser_load_def split: if_splits)
    then have long: "16 < length bs" using zc_drop [of 16 bs] by linarith
    with oob z three have "with_str (drop 16 bs) (\<lambda>x bs'. with_str bs' (\<lambda>y bs''. with_str bs'' (\<lambda>z _.
      Loaded \<lparr>cu_user_id = of_le32 (take 4 bs), cu_type = of_le32 (take 4 (drop 4 bs)),
        cu_group_id = of_le32 (take 4 (drop 8 bs)), cu_requestor_id = of_le32 (take 4 (drop 12 bs)),
        cu_username = x, cu_friendlyname = y, cu_password = z\<rparr>
        (16 + (length x + 1) + (length y + 1) + (length z + 1))))) = Out_of_bounds"
      by (auto simp: CreateUser_load_def with_u32_oob)
    with three show False by (auto dest!: with_str_zc)
  qed
qed

definition enc_attribs :: "(string \<times> string) list \<Rightarrow> bytes" where
  "enc_attribs kvs = concat (map (\<lambda>(k, v). enc_str k @ enc_str v) kvs)"

definition CreateServer_wf :: "CreateServer \<Rightarrow> bool" where
  "CreateServer_wf m \<longleftrightarrow> no_nul (cs_name m) \<and> smap_ok (cs_attribs m) \<and>
     list_all (\<lambda>(k, v). no_nul k \<and> no_nul v) (cs_attribs m) \<and>
     4 + length (cs_name m) + 1 + sum_list (map (\<lambda>(k, v). length k + length v + 2) (cs_attribs m))
       < 2 ^ 32 - 1"

lemma enc_attribs_length:
  "length (enc_attribs kvs) = sum_list (map (\<lambda>(k, v). length k + length v + 2) kvs)"
  by (induction kvs) (auto simp: enc_attribs_def)

lemma writes_attribs:
  "list_all (\<lambda>(k, v). no_nul k \<and> no_nul v) kvs \<Longrightarrow>
   writes (concat (map (\<lambda>(k, v). [put_str_len k, put_str_len v]) kvs)) (put e st) =
     put (e @ enc_attribs kvs) st"
proof (induction kvs arbitrary: e)
  case (Cons kv kvs)
  then show ?case by (cases kv) (simp add: put_put enc_attribs_def)
qed (simp add: enc_attribs_def)

lemma load_attribs_enc:
  "list_all (\<lambda>(k, v). no_nul k \<and> no_nul v) kvs \<Longrightarrow>
   load_attribs (2 * length kvs) (enc_attribs kvs @ rest) m f =
     f (fold (\<lambda>(k, v). smap_put k v) kvs m) rest"
proof (induction kvs arbitrary: m)
  case Nil
  then show ?case by (simp add: load_attribs.simps enc_attribs_def)
next
  case (Cons kv kvs)
  obtain k v where "kv = (k, v)" by (cases kv)
  with Cons show ?case by (subst load_attribs.simps) (simp add: enc_attribs_def)
qed

lemma zc_attribs:
  "list_all (\<lambda>(k, v). no_nul k \<and> no_nul v) kvs \<Longrightarrow> zc (enc_attribs kvs) = 2 * length kvs"
  by (induction kvs) (auto simp: enc_attribs_def)

lemma load_attribs_safe:
  "n \<le> zc bs \<Longrightarrow> (\<And>m rest. f m rest \<noteq> Out_of_bounds) \<Longrightarrow> load_attribs n bs m f \<noteq> Out_of_bounds"
proof (induction n arbitrary: bs m rule: less_induct)
  case (less n)
  show ?case
  proof (cases "n > 1")
    case False
    with less(3) show ?thesis by (simp add: load_attribs.simps)
  next
    case True
    show ?thesis
    proof
      assume "load_attribs n bs m f = Out_of_bounds"
      then have "with_str bs (\<lambda>a bs. with_str bs (\<lambda>v bs. load_attribs (n - 2) bs (smap_put a v m) f))
        = Out_of_bounds" using True by (simp add: load_attribs.simps [of n])
      moreover have "0 < zc bs" using True less(2) by linarith
      ultimately obtain s1 r1 where r1: "zc bs = Suc (zc r1)" "with_str r1 (\<lambda>v bs.
          load_attribs (n - 2) bs (smap_put (string_of_bytes s1) v m) f) = Out_of_bounds"
        using with_str_zc [of bs] by blast
      moreover have "0 < zc r1" using True less(2) r1(1) by linarith
      ultimately obtain s2 r2 where "zc r1 = Suc (zc r2)"
        "load_attribs (n - 2) r2 (smap_put (string_of_bytes s1) (string_of_bytes s2) m) f = Out_of_bounds"
        using with_str_zc [of r1] by blast
      moreover have "n - 2 < n" "n - 2 \<le> zc r2" using True less(2) r1(1) calculation(1) by linarith+
      ultimately show False using less(1) [of "n - 2" r2] less(3) by blast
    qed
  qed
qed

interpretation createserver: safe_codec CreateServer_required CreateServer_store CreateServer_load
  CreateServer_wf
proof
  fix m :: CreateServer and buffer :: bytes
  assume wf: "CreateServer_wf m"
  let ?n = "4 + length (cs_name m) + 1 + sum_list (map (\<lambda>(k, v). length k + length v + 2) (cs_attribs m))"
    and ?r = "CreateServer_required m"
  have sz: "?r \<noteq> - 1 \<and> ?r \<noteq> 0 \<and> unat ?r = ?n"
    using size_valid [of ?n] wf unfolding CreateServer_required_def CreateServer_wf_def by simp
  then show "?r \<noteq> - 1 \<and> ?r \<noteq> 0" by blast
  have kvs: "list_all (\<lambda>(k, v). no_nul k \<and> no_nul v) (cs_attribs m)" and name: "no_nul (cs_name m)"
    and ok: "smap_ok (cs_attribs m)" using wf by (simp_all add: CreateServer_wf_def)
  assume len: "length buffer = unat ?r"
  show "\<exists>bs. CreateServer_store m ?r (Some ([], buffer)) = Stored bs [] \<and>
      length bs = unat ?r \<and> CreateServer_load bs ?r = Loaded m (length bs)"
    by (rule codec_encoding [of _ _ _ _ "le32 (cs_server_id m) @ enc_str (cs_name m) @ enc_attribs (cs_attribs m)"])
      (use name len sz load_attribs_enc [OF kvs, of "[]" "[]"] in
       \<open>simp_all add: CreateServer_store_def CreateServer_load_def put_put writes_attribs [OF kvs]
         enc_attribs_length zeros_within zc_attribs [OF kvs] smap_rebuild [OF ok]\<close>)
next
  fix bs :: bytes and sz :: u32
  assume len: "length bs = unat sz"
  show "CreateServer_load bs sz \<noteq> Out_of_bounds"
  proof
    assume oob: "CreateServer_load bs sz = Out_of_bounds"
    let ?n = "zc (drop 4 bs)"
    have z: "zeros 4 bs (unat sz) = Some ?n" using len by (simp add: zeros_within)
    with oob have pos: "0 < ?n" by (auto simp: CreateServer_load_def split: if_splits)
    then have long: "4 < length bs" by (rule zc_drop)
    with oob z pos have "with_str (drop 4 bs) (\<lambda>s bs2. load_attribs (?n - 1) bs2 [] (\<lambda>m rest.
        Loaded \<lparr>cs_server_id = of_le32 (take 4 bs), cs_name = s, cs_attribs = m\<rparr>
          (length bs - length rest))) = Out_of_bounds"
      by (auto simp: CreateServer_load_def with_u32_oob split: if_splits)
    from with_str_zc [OF this pos] obtain s rest where "?n = Suc (zc rest)"
      "load_attribs (?n - 1) rest [] (\<lambda>m rest'. Loaded \<lparr>cs_server_id = of_le32 (take 4 bs),
        cs_name = string_of_bytes s, cs_attribs = m\<rparr> (length bs - length rest')) = Out_of_bounds" by blast
    then show False using load_attribs_safe [of "?n - 1" rest] by auto
  qed
qed

end
