(* ===== verification/Messages_Contest.thy ===== *)
theory Messages_Contest
  imports Messages_Basic
begin

text \<open>
  The message classes that carry bulk data: submissions (\<^verbatim>\<open>src/act_submit.C\<close>), marks with
  their files (\<^verbatim>\<open>src/act_mark.C\<close>) and problem updates (\<^verbatim>\<open>src/act_problemmanip.C\<close>).
\<close>

section \<open>\<^verbatim>\<open>SubmissionMessage\<close>\<close>

record SubmissionMessage =
  sm_submission_id :: u32
  sm_user_id :: u32
  sm_prob_id :: u32
  sm_time :: u32
  sm_server_id :: u32
  sm_content :: bytes
  sm_language :: string

definition SubmissionMessage_required :: "SubmissionMessage \<Rightarrow> u32" where
  "SubmissionMessage_required m =
     u32_of (6 * 4 + length (sm_content m) + (length (sm_language m) + 1))"

definition SubmissionMessage_store :: "SubmissionMessage \<Rightarrow> u32 \<Rightarrow> writer \<Rightarrow> store_result" where
  "SubmissionMessage_store m sz st =
     stored (writes [put_u32 (sm_submission_id m), put_u32 (sm_user_id m), put_u32 (sm_prob_id m),
       put_u32 (sm_time m), put_u32 (sm_server_id m), put_u32 (u32_of (length (sm_content m))),
       put (sm_content m), put_str_len (sm_language m)] st)"

text \<open>\<^verbatim>\<open>load\<close> reads six words but takes only five off the remaining size.\<close>

definition SubmissionMessage_load :: "bytes \<Rightarrow> u32 \<Rightarrow> SubmissionMessage loaded" where
  "SubmissionMessage_load bs sz =
     (if sz < 24 then Rejected
      else with_u32 bs (\<lambda>i bs. with_u32 bs (\<lambda>u bs. with_u32 bs (\<lambda>p bs. with_u32 bs (\<lambda>t bs.
           with_u32 bs (\<lambda>s bs. with_u32 bs (\<lambda>content_size bs.
             let sz1 = sz - 5 * 4 in
             if sz1 < content_size then Rejected
             else with_bytes (unat content_size) bs (\<lambda>content bs.
               if_terms bs (sz1 - content_size) 1
                 (with_str bs (\<lambda>lang _.
                    Loaded \<lparr>sm_submission_id = i, sm_user_id = u, sm_prob_id = p, sm_time = t,
                      sm_server_id = s, sm_content = content, sm_language = lang\<rparr>
                      (24 + unat content_size + (length lang + 1))))
                 Rejected))))))))"

section \<open>\<^verbatim>\<open>MarkMessage\<close>\<close>

text \<open>A file of a mark: \<^verbatim>\<open>len\<close> is the length of the data.\<close>

record mark_file =
  mf_name :: string
  mf_data :: bytes

record MarkMessage =
  mm_submission_id :: u32
  mm_marker :: u32
  mm_result :: u32
  mm_time :: u32
  mm_server_id :: u32
  mm_comment :: string
  mm_files :: "mark_file list"

definition addFile :: "string \<Rightarrow> bytes \<Rightarrow> MarkMessage \<Rightarrow> MarkMessage" where
  "addFile name data m = m\<lparr>mm_files := mm_files m @ [\<lparr>mf_name = name, mf_data = data\<rparr>]\<rparr>"

definition MarkMessage_required :: "MarkMessage \<Rightarrow> u32" where
  "MarkMessage_required m = u32_of (4 * 5 + (length (mm_comment m) + 1) +
     sum_list (map (\<lambda>f. length (mf_name f) + 1 + 4 + length (mf_data f)) (mm_files m)))"

definition MarkMessage_store :: "MarkMessage \<Rightarrow> u32 \<Rightarrow> writer \<Rightarrow> store_result" where
  "MarkMessage_store m sz st =
     stored (writes ([put_u32 (mm_submission_id m), put_u32 (mm_marker m), put_u32 (mm_result m),
       put_u32 (mm_time m), put_u32 (mm_server_id m), put_str (mm_comment m)] @
       concat (map (\<lambda>f. [put_str (mf_name f), put_u32 (u32_of (length (mf_data f))), put (mf_data f)])
         (mm_files m))) st)"

function load_files ::
  "bytes \<Rightarrow> u32 \<Rightarrow> mark_file list \<Rightarrow> (mark_file list \<Rightarrow> bytes \<Rightarrow> MarkMessage loaded) \<Rightarrow>
   MarkMessage loaded" where
  "load_files bs sz fs k =
     (if sz > 4 then
        if_terms bs (sz - 4) 1
          (with_str bs (\<lambda>name bs1. with_u32 bs1 (\<lambda>len bs2.
             let sz2 = sz - u32_of (length name + 1) - 4
             in if sz2 < len then Rejected
                else with_bytes (unat len) bs2 (\<lambda>d bs3.
                       load_files bs3 (sz2 - len) (fs @ [\<lparr>mf_name = name, mf_data = d\<rparr>]) k))))
          (k fs bs)
      else k fs bs)"
  by pat_completeness auto

termination load_files
  by (relation "measure (\<lambda>(bs, sz, fs, k). length bs)") auto

declare load_files.simps [simp del]

definition MarkMessage_load :: "bytes \<Rightarrow> u32 \<Rightarrow> MarkMessage loaded" where
  "MarkMessage_load bs0 sz =
     (if sz < 20 then Rejected
      else with_u32 bs0 (\<lambda>i bs. with_u32 bs (\<lambda>u bs. with_u32 bs (\<lambda>r bs. with_u32 bs (\<lambda>t bs.
           with_u32 bs (\<lambda>s bs.
             if_terms bs (sz - 20) 1
               (with_str bs (\<lambda>c bs. load_files bs (sz - 20 - u32_of (length c + 1)) [] (\<lambda>fs rest.
                  Loaded \<lparr>mm_submission_id = i, mm_marker = u, mm_result = r, mm_time = t,
                    mm_server_id = s, mm_comment = c, mm_files = fs\<rparr> (length bs0 - length rest))))
               Rejected))))))"

section \<open>\<^verbatim>\<open>ProbMessage\<close>\<close>

text \<open>A file attribute; an empty name means that the stored file is kept.\<close>

record prob_file =
  pf_name :: string
  pf_data :: bytes

record ProbMessage =
  pm_prob_id :: u32
  pm_update_time :: u32
  pm_deps :: "u32 list"
  pm_type :: string
  pm_ints :: "(string, u32) smap"
  pm_strings :: "(string, string) smap"
  pm_files :: "(string, prob_file) smap"

definition addIntAttrib :: "string \<Rightarrow> u32 \<Rightarrow> ProbMessage \<Rightarrow> ProbMessage" where
  "addIntAttrib name v m = m\<lparr>pm_ints := smap_put name v (pm_ints m)\<rparr>"

definition addStringAttrib :: "string \<Rightarrow> string \<Rightarrow> ProbMessage \<Rightarrow> ProbMessage" where
  "addStringAttrib name v m = m\<lparr>pm_strings := smap_put name v (pm_strings m)\<rparr>"

definition addFileAttrib :: "string \<Rightarrow> string \<Rightarrow> bytes \<Rightarrow> ProbMessage \<Rightarrow> ProbMessage" where
  "addFileAttrib name filename buffer m =
     m\<lparr>pm_files := smap_put name \<lparr>pf_name = filename, pf_data = buffer\<rparr> (pm_files m)\<rparr>"

definition keepFileAttrib :: "string \<Rightarrow> ProbMessage \<Rightarrow> ProbMessage" where
  "keepFileAttrib name m = m\<lparr>pm_files := smap_put name \<lparr>pf_name = [], pf_data = []\<rparr> (pm_files m)\<rparr>"

definition prob_size :: "ProbMessage \<Rightarrow> nat" where
  "prob_size m = 4 + 4 + (length (pm_type m) + 1) + (1 + length (pm_deps m)) * 4 +
     sum_list (map (\<lambda>(k, v). 1 + length k + 1 + 4) (pm_ints m)) +
     sum_list (map (\<lambda>(k, v). 1 + length k + length v + 2) (pm_strings m)) +
     sum_list (map (\<lambda>(k, f). 1 + length k + 1 + length (pf_name f) + 1 + 4 + length (pf_data f))
       (pm_files m))"

definition ProbMessage_required :: "ProbMessage \<Rightarrow> u32" where
  "ProbMessage_required m = (if pm_prob_id m = - 1 then - 1 else u32_of (prob_size m))"

definition ProbMessage_store :: "ProbMessage \<Rightarrow> u32 \<Rightarrow> writer \<Rightarrow> store_result" where
  "ProbMessage_store m sz st =
     stored (writes ([put_u32 (pm_prob_id m), put_u32 (pm_update_time m),
         put_u32 (u32_of (length (pm_deps m)))] @
       map put_u32 (pm_deps m) @ [put_str_len (pm_type m)] @
       concat (map (\<lambda>(k, v). [put (bytes_of ''I''), put_str_len k, put_u32 v]) (pm_ints m)) @
       concat (map (\<lambda>(k, v). [put (bytes_of ''S''), put_str_len k, put_str_len v]) (pm_strings m)) @
       concat (map (\<lambda>(k, f). [put (bytes_of ''F''), put_str_len k, put_str_len (pf_name f),
         put_u32 (u32_of (length (pf_data f))), put (pf_data f)]) (pm_files m))) st)"

fun load_deps :: "nat \<Rightarrow> bytes \<Rightarrow> u32 list \<Rightarrow> (u32 list \<Rightarrow> bytes \<Rightarrow> ProbMessage loaded) \<Rightarrow> ProbMessage loaded" where
  "load_deps 0 bs ds k = k ds bs"
| "load_deps (Suc n) bs ds k = with_u32 bs (\<lambda>d bs. load_deps n bs (ds @ [d]) k)"

text \<open>The loop over the attributes; \<open>len0\<close> is the length of the whole buffer.\<close>

function load_attrs :: "bytes \<Rightarrow> u32 \<Rightarrow> nat \<Rightarrow> ProbMessage \<Rightarrow> ProbMessage loaded" where
  "load_attrs bs sz len0 m =
     (if sz = 0 then Loaded m (len0 - length bs)
      else case bs of
        [] \<Rightarrow> Out_of_bounds
      | b # bs1 \<Rightarrow>
          (let sz1 = sz - 1 in
           if b = byte_of (CHR ''S'') then
             if_terms bs1 sz1 2
               (with_str bs1 (\<lambda>a bs2. with_str bs2 (\<lambda>v bs3.
                  load_attrs bs3 (sz1 - u32_of (length a + length v + 2)) len0 (addStringAttrib a v m))))
               Rejected
           else if b = byte_of (CHR ''I'') then
             if_terms bs1 (sz1 - 4) 1
               (with_str bs1 (\<lambda>a bs2. with_u32 bs2 (\<lambda>v bs3.
                  load_attrs bs3 (sz1 - u32_of (length a + 1 + 4)) len0 (addIntAttrib a v m))))
               Rejected
           else if b = byte_of (CHR ''F'') then
             (if sz1 \<le> 4 then Rejected
              else if_terms bs1 (sz1 - 4) 2
                (with_str bs1 (\<lambda>a bs2. with_str bs2 (\<lambda>name bs3. with_u32 bs3 (\<lambda>filesize bs4.
                   let sz2 = sz1 - u32_of (length a + length name + 2 + 4) in
                   if name = [] then load_attrs bs4 sz2 len0 (keepFileAttrib a m)
                   else if sz2 < filesize then Rejected
                   else with_bytes (unat filesize) bs4 (\<lambda>d bs5.
                          load_attrs bs5 (sz2 - filesize) len0 (addFileAttrib a name d m))))))
                Rejected)
           else Rejected))"
  by pat_completeness auto

termination load_attrs
  by (relation "measure (\<lambda>(bs, sz, len0, m). length bs)") auto

declare load_attrs.simps [simp del]

definition ProbMessage_load :: "bytes \<Rightarrow> u32 \<Rightarrow> ProbMessage loaded" where
  "ProbMessage_load bs0 sz =
     (if sz < 8 then Rejected
      else with_u32 bs0 (\<lambda>i bs. with_u32 bs (\<lambda>t bs. with_u32 bs (\<lambda>deps_size bs.
           load_deps (unat deps_size) bs [] (\<lambda>ds bs.
             let sz1 = sz - 8 - (1 + deps_size) * 4 in
             if_terms bs sz1 1
               (with_str bs (\<lambda>ty bs.
                  load_attrs bs (sz1 - u32_of (length ty + 1)) (length bs0)
                    \<lparr>pm_prob_id = i, pm_update_time = t, pm_deps = ds, pm_type = ty,
                     pm_ints = [], pm_strings = [], pm_files = []\<rparr>))
               Rejected)))))"

section \<open>Submissions\<close>

definition SubmissionMessage_wf :: "SubmissionMessage \<Rightarrow> bool" where
  "SubmissionMessage_wf m \<longleftrightarrow> no_nul (sm_language m) \<and>
     6 * 4 + length (sm_content m) + (length (sm_language m) + 1) < 2 ^ 32 - 1"

interpretation submission: message_codec SubmissionMessage_required SubmissionMessage_store
  SubmissionMessage_load SubmissionMessage_wf
proof
  fix m :: SubmissionMessage and buffer :: bytes
  assume wf: "SubmissionMessage_wf m"
  let ?c = "length (sm_content m)" and ?l = "length (sm_language m) + 1"
  let ?n = "6 * 4 + ?c + ?l" and ?r = "SubmissionMessage_required m"
  have n: "?n < 2 ^ 32 - 1" and nul: "no_nul (sm_language m)"
    using wf by (simp_all add: SubmissionMessage_wf_def)
  have sz: "?r \<noteq> - 1 \<and> ?r \<noteq> 0 \<and> unat ?r = ?n"
    using size_valid [OF _ n] unfolding SubmissionMessage_required_def by simp
  then show "?r \<noteq> - 1 \<and> ?r \<noteq> 0" by blast
  have r1: "?r - 20 = u32_of (4 + ?c + ?l)"
    by (simp add: SubmissionMessage_required_def size_diff_num)
  have u: "unat (u32_of ?c) = ?c" "unat (u32_of (4 + ?c + ?l)) = 4 + ?c + ?l"
    using n by (auto intro!: unat_of_size)
  have lt: "\<not> ?r < 24" "\<not> u32_of (4 + ?c + ?l) < (u32_of ?c)"
    using sz u by (simp_all only: word_less_nat_alt) simp_all
  have r2: "unat ((u32_of (4 + ?c + ?l)) - u32_of ?c) = 4 + ?l"
    using size_diff [of ?c "4 + ?c + ?l"] n by (simp add: unat_of_size)
  assume len: "length buffer = unat ?r"
  show "\<exists>bs. SubmissionMessage_store m ?r (Some ([], buffer)) = Stored bs [] \<and>
      length bs = unat ?r \<and> SubmissionMessage_load bs ?r = Loaded m (length bs)"
  proof (rule codec_encoding [of _ _ _ _ "le32 (sm_submission_id m) @ le32 (sm_user_id m) @
        le32 (sm_prob_id m) @ le32 (sm_time m) @ le32 (sm_server_id m) @ le32 (u32_of ?c) @
        sm_content m @ enc_str (sm_language m)"])
    show "SubmissionMessage_load (le32 (sm_submission_id m) @ le32 (sm_user_id m) @
        le32 (sm_prob_id m) @ le32 (sm_time m) @ le32 (sm_server_id m) @ le32 (u32_of ?c) @
        sm_content m @ enc_str (sm_language m)) ?r = Loaded m (length (le32 (sm_submission_id m) @
        le32 (sm_user_id m) @ le32 (sm_prob_id m) @ le32 (sm_time m) @ le32 (sm_server_id m) @
        le32 (u32_of ?c) @ sm_content m @ enc_str (sm_language m)))"
      using nul lt u(1) r2
      by (simp add: SubmissionMessage_load_def r1 if_terms_def Let_def)
  qed (use nul len sz in \<open>simp_all add: SubmissionMessage_store_def put_put\<close>)
qed

section \<open>Marks\<close>

definition enc_files :: "mark_file list \<Rightarrow> bytes" where
  "enc_files fs = concat (map (\<lambda>f. enc_str (mf_name f) @ le32 (u32_of (length (mf_data f))) @ mf_data f) fs)"

lemma enc_files_length:
  "length (enc_files fs) = sum_list (map (\<lambda>f. length (mf_name f) + 1 + 4 + length (mf_data f)) fs)"
  by (induction fs) (auto simp: enc_files_def)

lemma writes_files:
  "list_all (\<lambda>f. no_nul (mf_name f)) fs \<Longrightarrow>
   writes (concat (map (\<lambda>f. [put_str (mf_name f), put_u32 (u32_of (length (mf_data f))), put (mf_data f)]) fs))
     (put e st) = put (e @ enc_files fs) st"
  by (induction fs arbitrary: e) (simp_all add: put_put enc_files_def)

lemma load_files_enc:
  "list_all (\<lambda>f. no_nul (mf_name f)) fs \<Longrightarrow> length (enc_files fs) < 2 ^ 32 \<Longrightarrow>
   load_files (enc_files fs) (u32_of (length (enc_files fs))) acc k = k (acc @ fs) []"
proof (induction fs arbitrary: acc)
  case Nil
  then show ?case by (subst load_files.simps) (simp add: enc_files_def)
next
  case (Cons f fs)
  let ?n = "length (mf_name f)" and ?d = "length (mf_data f)" and ?e = "enc_files fs"
  define N where "N = length (enc_files (f # fs))"
  have enc: "enc_files (f # fs) = enc_str (mf_name f) @ le32 (u32_of ?d) @ mf_data f @ ?e"
    by (simp add: enc_files_def)
  then have N: "N = ?n + 5 + ?d + length ?e" by (simp add: N_def)
  have lt: "N < 2 ^ 32" using Cons.prems(2) by (simp only: N_def)
  have gt: "4 < u32_of N" using lt N by (simp add: size_less_num)
  have u: "unat (u32_of N - 4) = N - 4" "?n < N - 4"
    using lt N by (simp_all add: size_diff_num unat_of_size)
  have s2: "u32_of N - u32_of (Suc ?n) - 4 = u32_of (?d + length ?e)"
    using size_diff [of "Suc ?n" N] N by (simp add: size_diff_num)
  have s3: "\<not> u32_of (?d + length ?e) < u32_of ?d" "unat (u32_of ?d) = ?d"
    "u32_of (?d + length ?e) - u32_of ?d = u32_of (length ?e)"
    using lt N size_less [of "?d + length ?e" ?d] size_diff [of ?d "?d + length ?e"]
    by (simp_all add: unat_of_size)
  have eta: "\<lparr>mf_name = mf_name f, mf_data = mf_data f\<rparr> = f" by simp
  have IH: "load_files ?e (u32_of (length ?e)) (acc @ [f]) k = k (acc @ f # fs) []"
    using Cons.IH [of "acc @ [f]"] Cons.prems(1) lt N by simp
  have "load_files (enc_str (mf_name f) @ le32 (u32_of ?d) @ mf_data f @ ?e) (u32_of N) acc k =
      k (acc @ f # fs) []"
    using Cons.prems(1) gt u s2 s3 IH by (subst load_files.simps) (simp add: if_terms_def Let_def eta)
  then show ?case by (simp only: N_def enc)
qed

lemma load_files_safe:
  "length bs = unat sz \<Longrightarrow> (\<And>fs rest. k fs rest \<noteq> Out_of_bounds) \<Longrightarrow> load_files bs sz fs k \<noteq> Out_of_bounds"
proof (induction bs sz fs k rule: load_files.induct)
  case (1 bs sz fs k)
  show ?case
  proof (cases "sz > 4")
    case False
    with 1(3) show ?thesis by (simp add: load_files.simps)
  next
    case True
    then have sz4: "unat (sz - 4) = unat sz - 4" "4 < unat sz"
      by (simp_all add: unat_sub word_less_nat_alt word_le_nat_alt)
    show ?thesis
    proof
      assume "load_files bs sz fs k = Out_of_bounds"
      then have "if_terms bs (sz - 4) (Suc 0)
          (with_str bs (\<lambda>name bs1. with_u32 bs1 (\<lambda>len bs2.
             let sz2 = sz - u32_of (length name + 1) - 4
             in if sz2 < len then Rejected
                else with_bytes (unat len) bs2 (\<lambda>d bs3.
                       load_files bs3 (sz2 - len) (fs @ [\<lparr>mf_name = name, mf_data = d\<rparr>]) k))))
          (k fs bs) = Out_of_bounds"
        using True by (subst (asm) load_files.simps) simp
      from if_terms_oob [OF this] sz4 1(2,3) have ws: "with_str bs (\<lambda>name bs1. with_u32 bs1 (\<lambda>len bs2.
             let sz2 = sz - u32_of (length name + 1) - 4
             in if sz2 < len then Rejected
                else with_bytes (unat len) bs2 (\<lambda>d bs3.
                       load_files bs3 (sz2 - len) (fs @ [\<lparr>mf_name = name, mf_data = d\<rparr>]) k))) = Out_of_bounds"
        and z: "0 \<in> set bs" "length (takeWhile (\<lambda>b. b \<noteq> 0) bs) < unat sz - 4" by auto
      from with_str_oob [OF ws z(1)] obtain s rest where bs: "bs = s @ 0 # rest" "0 \<notin> set s"
        and oob: "with_u32 rest (\<lambda>len bs2.
             let sz2 = sz - u32_of (length s + 1) - 4
             in if sz2 < len then Rejected
                else with_bytes (unat len) bs2 (\<lambda>d bs3.
                       load_files bs3 (sz2 - len)
                         (fs @ [\<lparr>mf_name = string_of_bytes s, mf_data = d\<rparr>]) k)) = Out_of_bounds"
        by auto
      have "takeWhile (\<lambda>b. b \<noteq> 0) bs = s" using bs by (auto simp: takeWhile_append takeWhile_eq_all_conv [THEN iffD2] split: if_splits)
      with z(2) bs 1(2) have l: "length s + 5 \<le> unat sz" "length rest = unat sz - length s - 1" by simp_all
      define len where "len = of_le32 (take 4 rest)"
      let ?sz2 = "sz - u32_of (length s + 1) - 4"
      have u: "unat (u32_of (length s + 1)) = length s + 1"
        using l(1) u32_bound [of sz] by (intro unat_of_size) simp
      have "unat (sz - u32_of (length s + 1)) = unat sz - (length s + 1)"
        using l(1) u by (simp add: unat_sub word_le_nat_alt)
      then have sz2: "unat ?sz2 = length rest - 4"
        using l by (simp add: unat_sub word_le_nat_alt)
      from oob l have "\<not> ?sz2 < len" "with_bytes (unat len) (drop 4 rest) (\<lambda>d bs3.
          load_files bs3 (?sz2 - len) (fs @ [\<lparr>mf_name = string_of_bytes s, mf_data = d\<rparr>]) k) = Out_of_bounds"
        by (auto simp: with_u32_oob len_def Let_def split: if_splits)
      moreover from this(1) have le: "unat len \<le> length rest - 4" "len \<le> ?sz2"
        using sz2 by (simp_all add: word_less_nat_alt word_le_nat_alt)
      ultimately have "load_files (drop (unat len) (drop 4 rest)) (?sz2 - len)
          (fs @ [\<lparr>mf_name = string_of_bytes s, mf_data = take (unat len) (drop 4 rest)\<rparr>]) k = Out_of_bounds"
        by (auto simp: with_bytes_oob)
      moreover have "length (drop (unat len) (drop 4 rest)) = unat (?sz2 - len)"
        using le sz2 by (simp add: unat_sub)
      moreover have "length rest < length bs" "length (drop 4 rest) < length rest"
        "length (drop (unat len) (drop 4 rest)) \<le> length (drop 4 rest)" using bs l by auto
      moreover note \<open>\<not> ?sz2 < len\<close>
      ultimately have "load_files (drop (unat len) (drop 4 rest))
          (sz - u32_of (length (string_of_bytes s) + 1) - 4 - len)
          (fs @ [\<lparr>mf_name = string_of_bytes s, mf_data = take (unat len) (drop 4 rest)\<rparr>]) k \<noteq> Out_of_bounds"
        by (intro 1(1) [OF True _ _ refl, of rest "drop 4 rest"]) (simp_all add: 1(3))
      then show False using \<open>load_files (drop (unat len) (drop 4 rest)) (?sz2 - len) _ k = _\<close> by simp
    qed
  qed
qed


definition MarkMessage_wf :: "MarkMessage \<Rightarrow> bool" where
  "MarkMessage_wf m \<longleftrightarrow> no_nul (mm_comment m) \<and> list_all (\<lambda>f. no_nul (mf_name f)) (mm_files m) \<and>
     4 * 5 + (length (mm_comment m) + 1) + length (enc_files (mm_files m)) < 2 ^ 32 - 1"

interpretation mark: safe_codec MarkMessage_required MarkMessage_store MarkMessage_load MarkMessage_wf
proof
  fix m :: MarkMessage and buffer :: bytes
  assume wf: "MarkMessage_wf m"
  let ?c = "length (mm_comment m)" and ?e = "enc_files (mm_files m)" and ?r = "MarkMessage_required m"
  define N where "N = 20 + (?c + 1) + length ?e"
  have N: "N < 2 ^ 32 - 1" and nul: "no_nul (mm_comment m)"
    and files: "list_all (\<lambda>f. no_nul (mf_name f)) (mm_files m)"
    using wf by (simp_all add: MarkMessage_wf_def N_def)
  have r: "?r = u32_of N" by (simp add: MarkMessage_required_def N_def enc_files_length)
  have sz: "u32_of N \<noteq> - 1 \<and> u32_of N \<noteq> 0 \<and> unat (u32_of N) = N"
    using size_valid [OF _ N] by (simp add: N_def)
  then show "?r \<noteq> - 1 \<and> ?r \<noteq> 0" by (simp add: r)
  have lt: "\<not> u32_of N < 20" using sz by (simp add: word_less_nat_alt N_def)
  have d: "u32_of N - 20 = u32_of (N - 20)" "u32_of (N - 20) - u32_of (Suc ?c) = u32_of (length ?e)"
    "unat (u32_of (N - 20)) = N - 20" "?c < N - 20"
    using N size_diff [of "Suc ?c" "N - 20"] by (simp_all add: N_def size_diff_num unat_of_size)
  have len_e: "length ?e < 2 ^ 32" using N by (simp add: N_def)
  assume len: "length buffer = unat ?r"
  let ?enc = "le32 (mm_submission_id m) @ le32 (mm_marker m) @ le32 (mm_result m) @ le32 (mm_time m) @
    le32 (mm_server_id m) @ enc_str (mm_comment m) @ ?e"
  show "\<exists>bs. MarkMessage_store m ?r (Some ([], buffer)) = Stored bs [] \<and>
      length bs = unat ?r \<and> MarkMessage_load bs ?r = Loaded m (length bs)"
  proof (rule codec_encoding [of _ _ _ _ ?enc])
    show "length ?enc = unat ?r" using sz r by (simp add: N_def)
    show "MarkMessage_store m ?r (Some ([], buffer)) = stored (put ?enc (Some ([], buffer)))"
      using nul writes_files [OF files] by (simp add: MarkMessage_store_def put_put)
    show "MarkMessage_load ?enc ?r = Loaded m (length ?enc)"
      using nul lt d load_files_enc [OF files len_e]
      by (simp add: MarkMessage_load_def r if_terms_def)
  qed (rule len)
next
  fix bs :: bytes and sz :: u32
  assume len: "length bs = unat sz"
  show "MarkMessage_load bs sz \<noteq> Out_of_bounds"
  proof
    assume oob: "MarkMessage_load bs sz = Out_of_bounds"
    have ge: "\<not> sz < 20" using oob by (auto simp: MarkMessage_load_def)
    then have n: "unat (sz - 20) = length (drop 20 bs)" "20 \<le> length bs"
      using len by (simp_all add: unat_sub word_le_nat_alt word_less_nat_alt)
    let ?k = "\<lambda>c fs rest. Loaded \<lparr>mm_submission_id = of_le32 (take 4 bs),
        mm_marker = of_le32 (take 4 (drop 4 bs)), mm_result = of_le32 (take 4 (drop 8 bs)),
        mm_time = of_le32 (take 4 (drop 12 bs)), mm_server_id = of_le32 (take 4 (drop 16 bs)),
        mm_comment = c, mm_files = fs\<rparr> (length bs - length rest)"
    have "if_terms (drop 20 bs) (sz - 20) (Suc 0) (with_str (drop 20 bs) (\<lambda>c bs.
        load_files bs (sz - 20 - u32_of (length c + 1)) [] (?k c))) Rejected = Out_of_bounds"
      using oob ge n(2) by (auto simp: MarkMessage_load_def with_u32_oob)
    from if_terms_oob [OF this] n obtain ws: "with_str (drop 20 bs) (\<lambda>c bs.
        load_files bs (sz - 20 - u32_of (length c + 1)) [] (?k c)) = Out_of_bounds"
      and z: "0 \<in> set (drop 20 bs)" by auto
    from with_str_oob [OF ws z] obtain s rest where b: "drop 20 bs = s @ 0 # rest"
      and lf: "load_files rest (sz - 20 - u32_of (length s + 1)) [] (?k (string_of_bytes s)) = Out_of_bounds"
      by auto
    have l: "unat (sz - 20) = length s + 1 + length rest" using n(1) b by simp
    then have "unat (u32_of (length s + 1)) = length s + 1"
      using u32_bound [of "sz - 20"] by (intro unat_of_size) simp
    then have "unat (sz - 20 - u32_of (length s + 1)) = length rest"
      using l by (simp add: unat_sub word_le_nat_alt)
    with lf load_files_safe [of rest "sz - 20 - u32_of (length s + 1)" "?k (string_of_bytes s)"] show False
      by simp
  qed
qed

section \<open>Problem updates\<close>

definition enc_ints :: "(string \<times> u32) list \<Rightarrow> bytes" where
  "enc_ints kvs = concat (map (\<lambda>(k, v). bytes_of ''I'' @ enc_str k @ le32 v) kvs)"

definition enc_strings :: "(string \<times> string) list \<Rightarrow> bytes" where
  "enc_strings kvs = concat (map (\<lambda>(k, v). bytes_of ''S'' @ enc_str k @ enc_str v) kvs)"

definition enc_prob_files :: "(string \<times> prob_file) list \<Rightarrow> bytes" where
  "enc_prob_files kvs = concat (map (\<lambda>(k, f). bytes_of ''F'' @ enc_str k @ enc_str (pf_name f) @
     le32 (u32_of (length (pf_data f))) @ pf_data f) kvs)"

definition enc_deps :: "u32 list \<Rightarrow> bytes" where
  "enc_deps ds = concat (map le32 ds)"

definition file_ok :: "prob_file \<Rightarrow> bool" where
  "file_ok f \<longleftrightarrow> no_nul (pf_name f) \<and> (pf_name f = [] \<longrightarrow> pf_data f = [])"

definition ProbMessage_wf :: "ProbMessage \<Rightarrow> bool" where
  "ProbMessage_wf m \<longleftrightarrow> pm_prob_id m \<noteq> - 1 \<and> no_nul (pm_type m) \<and> prob_size m < 2 ^ 32 - 1 \<and>
     smap_ok (pm_ints m) \<and> smap_ok (pm_strings m) \<and> smap_ok (pm_files m) \<and>
     list_all (\<lambda>(k, v). no_nul k) (pm_ints m) \<and>
     list_all (\<lambda>(k, v). no_nul k \<and> no_nul v) (pm_strings m) \<and>
     list_all (\<lambda>(k, f). no_nul k \<and> file_ok f) (pm_files m)"

lemma enc_prob_lengths:
  "length (enc_ints is) = sum_list (map (\<lambda>(k, v). 1 + length k + 1 + 4) is)"
  "length (enc_strings ss) = sum_list (map (\<lambda>(k, v). 1 + length k + length v + 2) ss)"
  "length (enc_prob_files fs) =
     sum_list (map (\<lambda>(k, f). 1 + length k + 1 + length (pf_name f) + 1 + 4 + length (pf_data f)) fs)"
  "length (enc_deps ds) = length ds * 4"
proof -
  show "length (enc_ints is) = sum_list (map (\<lambda>(k, v). 1 + length k + 1 + 4) is)"
    by (induction "is") (auto simp: enc_ints_def)
  show "length (enc_strings ss) = sum_list (map (\<lambda>(k, v). 1 + length k + length v + 2) ss)"
    by (induction ss) (auto simp: enc_strings_def)
  show "length (enc_prob_files fs) =
     sum_list (map (\<lambda>(k, f). 1 + length k + 1 + length (pf_name f) + 1 + 4 + length (pf_data f)) fs)"
    by (induction fs) (auto simp: enc_prob_files_def)
  show "length (enc_deps ds) = length ds * 4"
    by (induction ds) (auto simp: enc_deps_def)
qed

lemma writes_append: "writes (a @ b) st = writes b (writes a st)"
  by (simp add: writes_def)

lemma writes_deps: "writes (map put_u32 ds) (put e st) = put (e @ enc_deps ds) st"
  by (induction ds arbitrary: e) (simp_all add: enc_deps_def)

lemma writes_ints:
  "list_all (\<lambda>(k, v). no_nul k) kvs \<Longrightarrow>
   writes (concat (map (\<lambda>(k, v). [put (bytes_of ''I''), put_str_len k, put_u32 v]) kvs)) (put e st) =
     put (e @ enc_ints kvs) st"
  by (induction kvs arbitrary: e) (auto simp: enc_ints_def put_put)

lemma writes_strings:
  "list_all (\<lambda>(k, v). no_nul k \<and> no_nul v) kvs \<Longrightarrow>
   writes (concat (map (\<lambda>(k, v). [put (bytes_of ''S''), put_str_len k, put_str_len v]) kvs)) (put e st) =
     put (e @ enc_strings kvs) st"
  by (induction kvs arbitrary: e) (auto simp: enc_strings_def put_put)

lemma writes_prob_files:
  "list_all (\<lambda>(k, f). no_nul k \<and> file_ok f) kvs \<Longrightarrow>
   writes (concat (map (\<lambda>(k, f). [put (bytes_of ''F''), put_str_len k, put_str_len (pf_name f),
     put_u32 (u32_of (length (pf_data f))), put (pf_data f)]) kvs)) (put e st) =
     put (e @ enc_prob_files kvs) st"
  by (induction kvs arbitrary: e) (auto simp: enc_prob_files_def put_put file_ok_def)

lemma load_deps_enc:
  "load_deps (length ds) (enc_deps ds @ rest) acc k = k (acc @ ds) rest"
  by (induction ds arbitrary: acc) (simp_all add: enc_deps_def)

text \<open>The markers of the three kinds of attributes.\<close>

lemma marker_bytes:
  "bytes_of ''I'' = [byte_of (CHR ''I'')]" "bytes_of ''S'' = [byte_of (CHR ''S'')]"
  "bytes_of ''F'' = [byte_of (CHR ''F'')]"
  "byte_of (CHR ''I'') \<noteq> byte_of (CHR ''S'')" "byte_of (CHR ''F'') \<noteq> byte_of (CHR ''S'')"
  "byte_of (CHR ''F'') \<noteq> byte_of (CHR ''I'')"
  by (simp_all add: bytes_of_def) code_simp+

text \<open>One attribute of each kind, read from a buffer whose size is its length.\<close>

lemma size_diff_1: "0 < n \<Longrightarrow> u32_of n - 1 = u32_of (n - 1)"
  using size_diff [of 1 n] by (simp add: u32_of_def)

lemma u32_of_pos: "0 < n \<Longrightarrow> n < 2 ^ 32 \<Longrightarrow> u32_of n \<noteq> 0"
  using unat_of_size [of n] by (metis less_irrefl unat_0)

lemma load_attrs_int:
  assumes "no_nul k" "N = length k + 6 + length rest" "N < 2 ^ 32"
  shows "load_attrs (byte_of (CHR ''I'') # enc_str k @ le32 v @ rest) (u32_of N) len0 m =
    load_attrs rest (u32_of (length rest)) len0 (addIntAttrib k v m)"
proof -
  define M where "M = N - 1"
  have s: "u32_of N - 1 = u32_of M" "u32_of (M) - 4 = u32_of (M - 4)"
    "u32_of (M) - u32_of (5 + length k) = u32_of (length rest)" "u32_of N \<noteq> 0"
    using M_def assms(2,3) size_diff [of "5 + length k" "M"]
    by (simp_all add: size_diff_1 size_diff_num u32_of_pos)
  have u: "unat (u32_of (M - 4)) = M - 4" "length k < M - 4"
    using M_def assms(2,3) by (simp_all add: unat_of_size)
  show ?thesis
    using assms(1) u s(3,4) by (subst load_attrs.simps)
      (simp add: Let_def s(1,2) marker_bytes if_terms_def)
qed

lemma load_attrs_string:
  assumes "no_nul k" "no_nul v" "N = length k + length v + 3 + length rest" "N < 2 ^ 32"
  shows "load_attrs (byte_of (CHR ''S'') # enc_str k @ enc_str v @ rest) (u32_of N) len0 m =
    load_attrs rest (u32_of (length rest)) len0 (addStringAttrib k v m)"
proof -
  define M where "M = N - 1"
  have s: "u32_of N - 1 = u32_of M"
    "u32_of (M) - u32_of (Suc (Suc (length k + length v))) = u32_of (length rest)" "u32_of N \<noteq> 0"
    using M_def assms(3,4) size_diff [of "Suc (Suc (length k + length v))" "M"]
    by (simp_all add: size_diff_1 u32_of_pos)
  have u: "unat (u32_of (M)) = M" "length k < M" "length v < M - length k - 1"
    using M_def assms(3,4) by (simp_all add: unat_of_size)
  have terms: "checkStringTerms (enc_str k @ enc_str v @ rest) (M) 2 = Some True"
    using assms(1,2) u(2,3) by (simp add: numeral_2_eq_2)
  show ?thesis
    using assms(1,2) u(1) s(2,3) terms
    by (subst load_attrs.simps) (simp add: Let_def s(1) if_terms_def)
qed

lemma load_attrs_file:
  assumes "no_nul k" "file_ok f" "N = length k + length (pf_name f) + 7 + length (pf_data f) + length rest"
    "N < 2 ^ 32"
  shows "load_attrs (byte_of (CHR ''F'') # enc_str k @ enc_str (pf_name f) @
      le32 (u32_of (length (pf_data f))) @ pf_data f @ rest) (u32_of N) len0 m =
    load_attrs rest (u32_of (length rest)) len0 (m\<lparr>pm_files := smap_put k f (pm_files m)\<rparr>)"
proof -
  define M where "M = N - 1"
  let ?n = "length (pf_name f)" and ?d = "length (pf_data f)"
  have s: "u32_of N - 1 = u32_of M" "u32_of (M) - 4 = u32_of (M - 4)"
    "u32_of (M) - u32_of (6 + (length k + ?n)) = u32_of (?d + length rest)" "u32_of N \<noteq> 0"
    "u32_of (?d + length rest) - u32_of ?d = u32_of (length rest)"
    using M_def assms(3,4) size_diff [of "6 + (length k + ?n)" "M"] size_diff [of ?d "?d + length rest"]
    by (simp_all add: size_diff_1 size_diff_num u32_of_pos)
  have u: "unat (u32_of (M - 4)) = M - 4" "length k < M - 4" "?n < M - 4 - length k - 1"
    "\<not> u32_of (M) \<le> 4" "unat (u32_of ?d) = ?d" "\<not> u32_of (?d + length rest) < u32_of ?d"
    using M_def assms(3,4) size_less [of "?d + length rest" ?d]
    by (simp_all add: unat_of_size word_le_nat_alt)
  have nul: "no_nul (pf_name f)" using assms(2) by (simp add: file_ok_def)
  have terms: "checkStringTerms (enc_str k @ enc_str (pf_name f) @ xs) (M - 4) 2 = Some True" for xs
    using assms(1) nul u(2,3) by (simp add: numeral_2_eq_2)
  have eta: "\<lparr>pf_name = pf_name f, pf_data = pf_data f\<rparr> = f" by simp
  show ?thesis
  proof (cases "pf_name f = []")
    case True
    then have d: "pf_data f = []" using assms(2) by (simp add: file_ok_def)
    have fe: "\<lparr>pf_name = [], pf_data = []\<rparr> = f" using eta True d by metis
    show ?thesis
      using assms(1) nul u s terms True d
      by (subst load_attrs.simps) (simp add: Let_def marker_bytes if_terms_def keepFileAttrib_def fe)
  next
    case False
    then show ?thesis
      using assms(1) nul u s terms
      by (subst load_attrs.simps)
        (simp add: Let_def marker_bytes if_terms_def addFileAttrib_def eta)
  qed
qed

lemma load_attrs_ints:
  "list_all (\<lambda>(k, v). no_nul k) kvs \<Longrightarrow> length (enc_ints kvs @ rest) < 2 ^ 32 \<Longrightarrow>
   load_attrs (enc_ints kvs @ rest) (u32_of (length (enc_ints kvs @ rest))) len0 m =
   load_attrs rest (u32_of (length rest)) len0
     (m\<lparr>pm_ints := fold (\<lambda>(k, v). smap_put k v) kvs (pm_ints m)\<rparr>)"
proof (induction kvs arbitrary: m)
  case (Cons kv kvs)
  obtain k v where kv: "kv = (k, v)" by (cases kv)
  then show ?case
    using Cons load_attrs_int [of k "length (enc_ints (kv # kvs) @ rest)" "enc_ints kvs @ rest" v len0 m]
    by (simp add: enc_ints_def marker_bytes addIntAttrib_def)
qed (simp add: enc_ints_def)

lemma load_attrs_strings:
  "list_all (\<lambda>(k, v). no_nul k \<and> no_nul v) kvs \<Longrightarrow> length (enc_strings kvs @ rest) < 2 ^ 32 \<Longrightarrow>
   load_attrs (enc_strings kvs @ rest) (u32_of (length (enc_strings kvs @ rest))) len0 m =
   load_attrs rest (u32_of (length rest)) len0
     (m\<lparr>pm_strings := fold (\<lambda>(k, v). smap_put k v) kvs (pm_strings m)\<rparr>)"
proof (induction kvs arbitrary: m)
  case (Cons kv kvs)
  obtain k v where kv: "kv = (k, v)" by (cases kv)
  then show ?case
    using Cons load_attrs_string [of k v "length (enc_strings (kv # kvs) @ rest)" "enc_strings kvs @ rest" len0 m]
    by (simp add: enc_strings_def marker_bytes addStringAttrib_def)
qed (simp add: enc_strings_def)

lemma load_attrs_files:
  "list_all (\<lambda>(k, f). no_nul k \<and> file_ok f) kvs \<Longrightarrow> length (enc_prob_files kvs @ rest) < 2 ^ 32 \<Longrightarrow>
   load_attrs (enc_prob_files kvs @ rest) (u32_of (length (enc_prob_files kvs @ rest))) len0 m =
   load_attrs rest (u32_of (length rest)) len0
     (m\<lparr>pm_files := fold (\<lambda>(k, v). smap_put k v) kvs (pm_files m)\<rparr>)"
proof (induction kvs arbitrary: m)
  case (Cons kv kvs)
  obtain k f where kv: "kv = (k, f)" by (cases kv)
  then show ?case
    using Cons load_attrs_file [of k f "length (enc_prob_files (kv # kvs) @ rest)" "enc_prob_files kvs @ rest" len0 m]
    by (simp add: enc_prob_files_def marker_bytes)
qed (simp add: enc_prob_files_def)

lemma load_attrs_all:
  assumes "ProbMessage_wf m" "r = m\<lparr>pm_ints := [], pm_strings := [], pm_files := []\<rparr>"
    "e = enc_ints (pm_ints m) @ enc_strings (pm_strings m) @ enc_prob_files (pm_files m)"
    "length e < 2 ^ 32"
  shows "load_attrs e (u32_of (length e)) len0 r = Loaded m len0"
proof -
  have ok: "smap_ok (pm_ints m)" "smap_ok (pm_strings m)" "smap_ok (pm_files m)"
    "list_all (\<lambda>(k, v). no_nul k) (pm_ints m)" "list_all (\<lambda>(k, v). no_nul k \<and> no_nul v) (pm_strings m)"
    "list_all (\<lambda>(k, f). no_nul k \<and> file_ok f) (pm_files m)"
    using assms(1) by (simp_all add: ProbMessage_wf_def)
  show ?thesis
    using assms(2-4) load_attrs_ints [OF ok(4), of "enc_strings (pm_strings m) @ enc_prob_files (pm_files m)" len0 r]
      load_attrs_strings [OF ok(5), of "enc_prob_files (pm_files m)" len0 "r\<lparr>pm_ints := pm_ints m\<rparr>"]
      load_attrs_files [OF ok(6), of "[]" len0 "r\<lparr>pm_ints := pm_ints m, pm_strings := pm_strings m\<rparr>"]
    by (simp add: smap_rebuild ok load_attrs.simps [of "[]"])
qed

interpretation prob: message_codec ProbMessage_required ProbMessage_store ProbMessage_load ProbMessage_wf
proof
  fix m :: ProbMessage and buffer :: bytes
  assume wf: "ProbMessage_wf m"
  let ?r = "ProbMessage_required m" and ?ds = "pm_deps m"
  define e where "e = enc_ints (pm_ints m) @ enc_strings (pm_strings m) @ enc_prob_files (pm_files m)"
  define N where "N = prob_size m"
  have N: "N < 2 ^ 32 - 1" "N = 12 + length ?ds * 4 + (length (pm_type m) + 1) + length e"
    using wf by (simp_all add: ProbMessage_wf_def N_def prob_size_def e_def enc_prob_lengths)
  have r: "?r = u32_of N" using wf by (simp add: ProbMessage_required_def ProbMessage_wf_def N_def)
  have sz: "u32_of N \<noteq> - 1 \<and> u32_of N \<noteq> 0 \<and> unat (u32_of N) = N"
    using size_valid [OF _ N(1)] N(2) by simp
  then show "?r \<noteq> - 1 \<and> ?r \<noteq> 0" by (simp add: r)
  have nul: "no_nul (pm_type m)" using wf by (simp add: ProbMessage_wf_def)
  let ?t = "length (pm_type m)"
  have lt: "\<not> u32_of N < 8" using sz N(2) by (simp add: word_less_nat_alt)
  have d: "(1 + u32_of (length ?ds)) * 4 = u32_of (4 + length ?ds * 4)"
    by (simp add: u32_of_def algebra_simps)
  define T where "T = ?t + 1 + length e"
  have d2: "u32_of N - 8 - u32_of (4 + length ?ds * 4) = u32_of T"
    "u32_of T - u32_of (Suc ?t) = u32_of (length e)"
    "unat (u32_of T) = T" "unat (u32_of (length ?ds)) = length ?ds"
    "length e < 2 ^ 32" "?t < T"
    using N size_diff [of "4 + length ?ds * 4" "N - 8"] size_diff [of "Suc ?t" T]
    by (simp_all add: T_def size_diff_num unat_of_size)
  have d3: "u32_of N - u32_of (length ?ds) * 4 - 12 = u32_of T"
    using d2(1) by (simp add: d [symmetric] algebra_simps)
  assume len: "length buffer = unat ?r"
  let ?enc = "le32 (pm_prob_id m) @ le32 (pm_update_time m) @ le32 (u32_of (length ?ds)) @
    enc_deps ?ds @ enc_str (pm_type m) @ e"
  show "\<exists>bs. ProbMessage_store m ?r (Some ([], buffer)) = Stored bs [] \<and>
      length bs = unat ?r \<and> ProbMessage_load bs ?r = Loaded m (length bs)"
  proof (rule codec_encoding [of _ _ _ _ ?enc])
    show "length ?enc = unat ?r" using sz r N(2) by (simp add: enc_prob_lengths)
    show "ProbMessage_store m ?r (Some ([], buffer)) = stored (put ?enc (Some ([], buffer)))"
      using wf by (simp add: ProbMessage_store_def ProbMessage_wf_def put_put writes_append writes_deps
          writes_ints writes_strings writes_prob_files e_def)
    have "load_attrs e (u32_of (length e)) (length ?enc) \<lparr>pm_prob_id = pm_prob_id m,
        pm_update_time = pm_update_time m, pm_deps = ?ds, pm_type = pm_type m, pm_ints = [],
        pm_strings = [], pm_files = []\<rparr> = Loaded m (length ?enc)"
      by (rule load_attrs_all [OF wf _ e_def d2(5)]) simp
    then show "ProbMessage_load ?enc ?r = Loaded m (length ?enc)"
      using nul lt d2(2-6) d3 load_deps_enc [of ?ds "enc_str (pm_type m) @ e" "[]"]
      by (simp add: ProbMessage_load_def r if_terms_def Let_def)
  qed (rule len)
qed

end
