(* ===== verification/Message_Registry.thy ===== *)
theory Message_Registry
  imports Messages_Contest
begin

text \<open>
  All message classes together: their type ids (\<^verbatim>\<open>include/message_type_ids.h\<close>), packing by
  dynamic dispatch, the table of functors that the daemon and its modules register, and
  \<^verbatim>\<open>Message::buildMessage\<close>, which turns a blob from a peer back into an object.
\<close>

section \<open>Types and dispatch\<close>

datatype message =
    M_CreateServer CreateServer
  | M_CreateUser CreateUser
  | M_Passwd PasswdMessage
  | M_Prob ProbMessage
  | M_Submission SubmissionMessage
  | M_StartStop MsgStartStop
  | M_Mark MarkMessage
  | M_Clarification ClarificationMessage
  | M_CreateGroup CreateGroup
  | M_Bonus BonusMessage

definition TYPE_ID_CREATESERVER :: u32 where "TYPE_ID_CREATESERVER = 1"
definition TYPE_ID_CREATEUSER :: u32 where "TYPE_ID_CREATEUSER = 2"
definition TYPE_ID_UPDATEPASS :: u32 where "TYPE_ID_UPDATEPASS = 3"
definition TYPE_ID_PROBLEMUPDATE :: u32 where "TYPE_ID_PROBLEMUPDATE = 4"
definition TYPE_ID_SUBMISSION :: u32 where "TYPE_ID_SUBMISSION = 5"
definition TYPE_ID_STARTSTOP :: u32 where "TYPE_ID_STARTSTOP = 6"
definition TYPE_ID_SUBMISSION_MARK :: u32 where "TYPE_ID_SUBMISSION_MARK = 7"
definition TYPE_ID_CLARIFICATION :: u32 where "TYPE_ID_CLARIFICATION = 8"
definition TYPE_ID_CREATEGROUP :: u32 where "TYPE_ID_CREATEGROUP = 9"
definition TYPE_ID_SETBONUS :: u32 where "TYPE_ID_SETBONUS = 10"

lemmas type_id_defs = TYPE_ID_CREATESERVER_def TYPE_ID_CREATEUSER_def TYPE_ID_UPDATEPASS_def
  TYPE_ID_PROBLEMUPDATE_def TYPE_ID_SUBMISSION_def TYPE_ID_STARTSTOP_def
  TYPE_ID_SUBMISSION_MARK_def TYPE_ID_CLARIFICATION_def TYPE_ID_CREATEGROUP_def TYPE_ID_SETBONUS_def

fun message_type_id :: "message \<Rightarrow> u32" where
  "message_type_id (M_CreateServer m) = TYPE_ID_CREATESERVER"
| "message_type_id (M_CreateUser m) = TYPE_ID_CREATEUSER"
| "message_type_id (M_Passwd m) = TYPE_ID_UPDATEPASS"
| "message_type_id (M_Prob m) = TYPE_ID_PROBLEMUPDATE"
| "message_type_id (M_Submission m) = TYPE_ID_SUBMISSION"
| "message_type_id (M_StartStop m) = TYPE_ID_STARTSTOP"
| "message_type_id (M_Mark m) = TYPE_ID_SUBMISSION_MARK"
| "message_type_id (M_Clarification m) = TYPE_ID_CLARIFICATION"
| "message_type_id (M_CreateGroup m) = TYPE_ID_CREATEGROUP"
| "message_type_id (M_Bonus m) = TYPE_ID_SETBONUS"

fun storageRequired :: "message \<Rightarrow> u32" where
  "storageRequired (M_CreateServer m) = CreateServer_required m"
| "storageRequired (M_CreateUser m) = CreateUser_required m"
| "storageRequired (M_Passwd m) = PasswdMessage_required m"
| "storageRequired (M_Prob m) = ProbMessage_required m"
| "storageRequired (M_Submission m) = SubmissionMessage_required m"
| "storageRequired (M_StartStop m) = MsgStartStop_required m"
| "storageRequired (M_Mark m) = MarkMessage_required m"
| "storageRequired (M_Clarification m) = ClarificationMessage_required m"
| "storageRequired (M_CreateGroup m) = CreateGroup_required m"
| "storageRequired (M_Bonus m) = BonusMessage_required m"

fun store :: "message \<Rightarrow> u32 \<Rightarrow> writer \<Rightarrow> store_result" where
  "store (M_CreateServer m) = CreateServer_store m"
| "store (M_CreateUser m) = CreateUser_store m"
| "store (M_Passwd m) = PasswdMessage_store m"
| "store (M_Prob m) = ProbMessage_store m"
| "store (M_Submission m) = SubmissionMessage_store m"
| "store (M_StartStop m) = MsgStartStop_store m"
| "store (M_Mark m) = MarkMessage_store m"
| "store (M_Clarification m) = ClarificationMessage_store m"
| "store (M_CreateGroup m) = CreateGroup_store m"
| "store (M_Bonus m) = BonusMessage_store m"

definition map_loaded :: "('a \<Rightarrow> 'b) \<Rightarrow> 'a loaded \<Rightarrow> 'b loaded" where
  "map_loaded f x = (case x of Loaded m n \<Rightarrow> Loaded (f m) n | Rejected \<Rightarrow> Rejected
     | Out_of_bounds \<Rightarrow> Out_of_bounds)"

text \<open>
  \<^verbatim>\<open>Message::_functors\<close> after start-up with all modules loaded: \<^verbatim>\<open>abacusd\<close> registers the first
  two, the action modules the others. No code registers \<^const>\<open>TYPE_ID_CREATEGROUP\<close>.
\<close>

definition functors :: "(u32 \<times> (bytes \<Rightarrow> u32 \<Rightarrow> message loaded)) list" where
  "functors = [
     (TYPE_ID_CREATESERVER, \<lambda>bs sz. map_loaded M_CreateServer (CreateServer_load bs sz)),
     (TYPE_ID_CREATEUSER, \<lambda>bs sz. map_loaded M_CreateUser (CreateUser_load bs sz)),
     (TYPE_ID_UPDATEPASS, \<lambda>bs sz. map_loaded M_Passwd (PasswdMessage_load bs sz)),
     (TYPE_ID_PROBLEMUPDATE, \<lambda>bs sz. map_loaded M_Prob (ProbMessage_load bs sz)),
     (TYPE_ID_SUBMISSION, \<lambda>bs sz. map_loaded M_Submission (SubmissionMessage_load bs sz)),
     (TYPE_ID_STARTSTOP, \<lambda>bs sz. map_loaded M_StartStop (MsgStartStop_load bs sz)),
     (TYPE_ID_SUBMISSION_MARK, \<lambda>bs sz. map_loaded M_Mark (MarkMessage_load bs sz)),
     (TYPE_ID_CLARIFICATION, \<lambda>bs sz. map_loaded M_Clarification (ClarificationMessage_load bs sz)),
     (TYPE_ID_SETBONUS, \<lambda>bs sz. map_loaded M_Bonus (BonusMessage_load bs sz))]"

section \<open>Building a message from a blob\<close>

datatype build_result =
    Built message_head message
  | Build_short           \<comment> \<open>shorter than the blob header\<close>
  | Build_unknown u32     \<comment> \<open>no functor for the type id\<close>
  | Build_rejected        \<comment> \<open>\<^verbatim>\<open>load\<close> returned \<^verbatim>\<open>~0U\<close>\<close>
  | Build_overread        \<comment> \<open>\<^verbatim>\<open>load\<close> read outside the buffer\<close>

definition buildMessage :: "bytes \<Rightarrow> build_result" where
  "buildMessage blob = (case splitBlob blob of
       None \<Rightarrow> Build_short
     | Some (h, type_id, data) \<Rightarrow>
         (case map_of functors type_id of
            None \<Rightarrow> Build_unknown type_id
          | Some load \<Rightarrow> (case load data (u32_of (length data)) of
                Loaded m n \<Rightarrow> Built h m
              | Rejected \<Rightarrow> Build_rejected
              | Out_of_bounds \<Rightarrow> Build_overread)))"

text \<open>The packing half of \<^verbatim>\<open>makeMessage\<close> followed by \<^verbatim>\<open>makeBlob\<close>.\<close>

definition makeMessageBlob :: "message_head \<Rightarrow> message \<Rightarrow> bytes \<Rightarrow> bytes option" where
  "makeMessageBlob h m buffer =
     map_option (makeBlob h (message_type_id m)) (pack (storageRequired m) (store m) buffer)"

section \<open>Contracts of all classes\<close>

fun message_wf :: "message \<Rightarrow> bool" where
  "message_wf (M_CreateServer m) = CreateServer_wf m"
| "message_wf (M_CreateUser m) = CreateUser_wf m"
| "message_wf (M_Passwd m) = PasswdMessage_wf m"
| "message_wf (M_Prob m) = ProbMessage_wf m"
| "message_wf (M_Submission m) = SubmissionMessage_wf m"
| "message_wf (M_StartStop m) = True"
| "message_wf (M_Mark m) = MarkMessage_wf m"
| "message_wf (M_Clarification m) = ClarificationMessage_wf m"
| "message_wf (M_CreateGroup m) = CreateGroup_wf m"
| "message_wf (M_Bonus m) = True"

text \<open>Loading by the class of the message, registered or not.\<close>

fun class_load :: "message \<Rightarrow> bytes \<Rightarrow> u32 \<Rightarrow> message loaded" where
  "class_load (M_CreateServer m) bs sz = map_loaded M_CreateServer (CreateServer_load bs sz)"
| "class_load (M_CreateUser m) bs sz = map_loaded M_CreateUser (CreateUser_load bs sz)"
| "class_load (M_Passwd m) bs sz = map_loaded M_Passwd (PasswdMessage_load bs sz)"
| "class_load (M_Prob m) bs sz = map_loaded M_Prob (ProbMessage_load bs sz)"
| "class_load (M_Submission m) bs sz = map_loaded M_Submission (SubmissionMessage_load bs sz)"
| "class_load (M_StartStop m) bs sz = map_loaded M_StartStop (MsgStartStop_load bs sz)"
| "class_load (M_Mark m) bs sz = map_loaded M_Mark (MarkMessage_load bs sz)"
| "class_load (M_Clarification m) bs sz = map_loaded M_Clarification (ClarificationMessage_load bs sz)"
| "class_load (M_CreateGroup m) bs sz = map_loaded M_CreateGroup (CreateGroup_load bs sz)"
| "class_load (M_Bonus m) bs sz = map_loaded M_Bonus (BonusMessage_load bs sz)"

lemma functors_class:
  "message_type_id m \<noteq> TYPE_ID_CREATEGROUP \<Longrightarrow> map_of functors (message_type_id m) = Some (class_load m)"
  by (cases m) (simp_all add: functors_def type_id_defs fun_eq_iff)

lemma functors_creategroup: "map_of functors TYPE_ID_CREATEGROUP = None"
  by (simp add: functors_def type_id_defs)

lemma any_pack_load:
  assumes "message_wf m" "length buffer = unat (storageRequired m)"
  shows "\<exists>data. pack (storageRequired m) (store m) buffer = Some data \<and> data \<noteq> [] \<and>
    length data = unat (storageRequired m) \<and>
    class_load m data (u32_of (length data)) = Loaded m (length data)"
proof (cases m)
  case (M_CreateServer x)
  with assms createserver.pack_load [of x buffer] show ?thesis by (auto simp: map_loaded_def)
next
  case (M_CreateUser x)
  with assms createuser.pack_load [of x buffer] show ?thesis by (auto simp: map_loaded_def)
next
  case (M_Passwd x)
  with assms passwd.pack_load [of x buffer] show ?thesis by (auto simp: map_loaded_def)
next
  case (M_Prob x)
  with assms prob.pack_load [of x buffer] show ?thesis by (auto simp: map_loaded_def)
next
  case (M_Submission x)
  with assms submission.pack_load [of x buffer] show ?thesis by (auto simp: map_loaded_def)
next
  case (M_StartStop x)
  with assms startstop.pack_load [of buffer x] show ?thesis by (auto simp: map_loaded_def)
next
  case (M_Mark x)
  with assms mark.pack_load [of x buffer] show ?thesis by (auto simp: map_loaded_def)
next
  case (M_Clarification x)
  with assms clarification.pack_load [of x buffer] show ?thesis by (auto simp: map_loaded_def)
next
  case (M_CreateGroup x)
  with assms creategroup.pack_load [of x buffer] show ?thesis by (auto simp: map_loaded_def)
next
  case (M_Bonus x)
  with assms bonus.pack_load [of buffer x] show ?thesis by (auto simp: map_loaded_def)
qed

lemma map_loaded_oob [simp]: "map_loaded f x = Out_of_bounds \<longleftrightarrow> x = Out_of_bounds"
  by (cases x) (simp_all add: map_loaded_def)

lemma registered_load_safe:
  assumes "map_of functors t = Some load" "t \<noteq> TYPE_ID_SUBMISSION" "t \<noteq> TYPE_ID_PROBLEMUPDATE"
    "length data = unat sz"
  shows "load data sz \<noteq> Out_of_bounds"
  using assms
  by (auto simp: functors_def type_id_defs startstop.load_safe passwd.load_safe bonus.load_safe
      clarification.load_safe creategroup.load_safe createuser.load_safe createserver.load_safe
      mark.load_safe split: if_splits)

lemma any_blob:
  assumes "message_wf m" "message_type_id m \<noteq> TYPE_ID_CREATEGROUP"
    "length buffer = unat (storageRequired m)" "length (mh_signature h) = MESSAGE_SIGNATURE_SIZE"
  shows "\<exists>blob. makeMessageBlob h m buffer = Some blob \<and> buildMessage blob = Built h m \<and>
    blob \<noteq> [] \<and> length blob = 144 + unat (storageRequired m)"
proof -
  obtain data where d: "pack (storageRequired m) (store m) buffer = Some data" "data \<noteq> []"
    "length data = unat (storageRequired m)"
    "class_load m data (u32_of (length data)) = Loaded m (length data)"
    using any_pack_load [OF assms(1,3)] by blast
  have "buildMessage (makeBlob h (message_type_id m) data) = Built h m"
    using d(2,4) by (simp add: buildMessage_def splitBlob_makeBlob assms(4) functors_class assms(2))
  moreover have "length (makeBlob h (message_type_id m) data) = 144 + length data"
    using assms(4) by (simp add: makeBlob_def MESSAGE_SIGNATURE_SIZE_def)
  moreover have "makeBlob h (message_type_id m) data \<noteq> []" using d(2) by (simp add: makeBlob_def)
  ultimately show ?thesis using d(1,3) by (simp add: makeMessageBlob_def)
qed

section \<open>Properties\<close>

text \<open>
  Claim C1. Every well-formed message of a registered class, packed into a fresh buffer of
  \<^verbatim>\<open>storageRequired\<close> bytes and made into a blob, is rebuilt by a peer with the same header and
  the same contents.
\<close>

theorem message_blob_roundtrip:
  assumes "message_wf m" "message_type_id m \<noteq> TYPE_ID_CREATEGROUP"
    "length buffer = unat (storageRequired m)" "length (mh_signature h) = MESSAGE_SIGNATURE_SIZE"
  shows "\<exists>blob. makeMessageBlob h m buffer = Some blob \<and> buildMessage blob = Built h m"
  using any_blob [OF assms] by blast

definition example_head :: message_head where
  "example_head = \<lparr>mh_server_id = 3, mh_message_id = 17, mh_time = 1000,
     mh_signature = replicate MESSAGE_SIGNATURE_SIZE 0\<rparr>"

definition example_submission :: SubmissionMessage where
  "example_submission = \<lparr>sm_submission_id = 19, sm_user_id = 5, sm_prob_id = 2, sm_time = 990,
     sm_server_id = 3, sm_content = [105, 110, 116], sm_language = ''C++''\<rparr>"

theorem message_blob_roundtrip_witness:
  "\<exists>blob. makeMessageBlob example_head (M_Submission example_submission) (replicate 31 0) = Some blob
     \<and> buildMessage blob = Built example_head (M_Submission example_submission)"
  by (rule message_blob_roundtrip)
    (simp_all add: example_submission_def example_head_def SubmissionMessage_wf_def no_nul_def
      type_id_defs SubmissionMessage_required_def u32_of_def)

text \<open>
  Claim C13. Whatever bytes a peer sends as a blob of fewer than \<open>2 ^ 32\<close> bytes, rebuilding it
  never reads outside the received buffer, for every type id except those of submissions and
  problem updates: malformed messages of the seven other classes and unknown type ids are
  refused.
\<close>

theorem buildMessage_safe:
  assumes "length blob < 2 ^ 32" "splitBlob blob = Some (h, t, data)"
    "t \<noteq> TYPE_ID_SUBMISSION" "t \<noteq> TYPE_ID_PROBLEMUPDATE"
  shows "buildMessage blob \<noteq> Build_overread"
proof -
  have "length data < 2 ^ 32" using assms(1,2) by (auto simp: splitBlob_def split: if_splits)
  then have "length data = unat (u32_of (length data))" by (simp only: unat_of_size)
  then have "map_of functors t = Some load \<Longrightarrow> load data (u32_of (length data)) \<noteq> Out_of_bounds" for load
    using registered_load_safe assms(3,4) by blast
  then show ?thesis
    using assms(2) by (auto simp: buildMessage_def split: option.splits loaded.splits)
qed

theorem buildMessage_safe_witness:
  "buildMessage (makeBlob example_head TYPE_ID_SUBMISSION_MARK [7, 0, 0]) \<noteq> Build_overread"
proof (rule buildMessage_safe)
  show "splitBlob (makeBlob example_head TYPE_ID_SUBMISSION_MARK [7, 0, 0]) =
      Some (example_head, TYPE_ID_SUBMISSION_MARK, [7, 0, 0])"
    by (rule splitBlob_makeBlob) (simp_all add: example_head_def)
qed (simp_all add: example_head_def MESSAGE_SIGNATURE_SIZE_def makeBlob_def type_id_defs)

lemma with_u32_enough:
  "4 \<le> length bs \<Longrightarrow> (\<And>w rest. length rest = length bs - 4 \<Longrightarrow> k w rest \<noteq> Out_of_bounds) \<Longrightarrow>
   with_u32 bs k \<noteq> Out_of_bounds"
  by (simp add: with_u32_def)

text \<open>
  Claim C33. \<^verbatim>\<open>SubmissionMessage::load\<close> subtracts five words from the size where it has read
  six, so a malformed submission makes it read past the end of the buffer, here when the buffer
  holds exactly the six words and announces four bytes of content. It never reads more than
  four bytes past the end.
\<close>

theorem submission_load_overread:
  assumes len: "unat sz + 4 \<le> length bs"
  shows "SubmissionMessage_load (replicate 20 0 @ [4, 0, 0, 0]) 24 = Out_of_bounds \<and>
    SubmissionMessage_load bs sz \<noteq> Out_of_bounds"
proof (intro conjI)
  show "SubmissionMessage_load (replicate 20 0 @ [4, 0, 0, 0]) 24 = Out_of_bounds"
    by code_simp
  show "SubmissionMessage_load bs sz \<noteq> Out_of_bounds"
  proof (cases "sz < 24")
    case False
    then have sz: "24 \<le> unat sz" by (simp add: word_less_nat_alt)
    have sz1: "unat (sz - 20) = unat sz - 20" using sz by (simp add: unat_sub_if')
    have tail: "(if sz - 5 * 4 < c then Rejected else with_bytes (unat c) r (\<lambda>content r'.
        if_terms r' (sz - 5 * 4 - c) 1 (with_str r' (\<lambda>lang _. Loaded (f content lang) (n content lang))) Rejected))
        \<noteq> (Out_of_bounds :: SubmissionMessage loaded)"
      if "length r = length bs - 24" for r c f n
    proof (cases "sz - 20 < c")
      case False
      then have c: "unat c \<le> unat sz - 20" by (simp add: word_less_nat_alt sz1)
      then have "unat (sz - 20 - c) = unat sz - 20 - unat c" using sz by (simp add: unat_sub_if' sz1)
      moreover have "unat sz - 20 - unat c \<le> length (drop (unat c) r)" using that len sz by simp
      moreover have "unat c \<le> length r" using that len sz c by linarith
      ultimately show ?thesis using False
        by (auto simp: with_bytes_def if_terms_def with_str_def checkStringTerms_safe
            dest: checkStringTerms_one split: option.splits)
    qed simp
    have "\<not> sz < 24" by (rule False)
    then show ?thesis
      unfolding SubmissionMessage_load_def Let_def
      by (simp only: if_False) (intro with_u32_enough tail, insert len sz, simp_all)
  qed (simp add: SubmissionMessage_load_def)
qed

theorem submission_load_overread_witness:
  "SubmissionMessage_load (replicate 20 0 @ [4, 0, 0, 0]) 24 = Out_of_bounds \<and>
   SubmissionMessage_load (replicate 20 0 @ [4, 0, 0, 0] @ [67, 0, 0, 0]) 24 \<noteq> Out_of_bounds"
  by (rule submission_load_overread) simp

lemma load_deps_short: "length bs < 4 * n \<Longrightarrow> load_deps n bs acc k = Out_of_bounds"
proof (induction n arbitrary: bs acc)
  case (Suc n)
  then show ?case by (simp add: with_u32_def)
qed simp

text \<open>
  \<^verbatim>\<open>ProbMessage::load\<close> trusts the number of dependencies: a buffer of at least eight
  bytes that has no room for the count, or for the dependencies it announces, is read past its
  end rather than refused.
\<close>

theorem prob_load_overread:
  assumes "8 \<le> sz" "length bs = unat sz"
    "length bs < 12 \<or> length bs - 12 < 4 * unat (of_le32 (take 4 (drop 8 bs)))"
  shows "ProbMessage_load bs sz = Out_of_bounds"
proof (cases "length bs < 12")
  case True
  then show ?thesis using assms(1) by (simp add: ProbMessage_load_def with_u32_def linorder_not_less [symmetric])
next
  case False
  then have "length (drop 12 bs) < 4 * unat (of_le32 (take 4 (drop 8 bs)))" using assms(3) by simp
  then have "load_deps (unat (of_le32 (take 4 (drop 8 bs)))) (drop 12 bs) [] k = Out_of_bounds"
    for k :: "u32 list \<Rightarrow> bytes \<Rightarrow> ProbMessage loaded" by (rule load_deps_short)
  then show ?thesis using False assms(1)
    by (simp add: ProbMessage_load_def with_u32_def linorder_not_less [symmetric])
qed

theorem prob_load_overread_witness: "ProbMessage_load [1, 0, 0, 0, 0, 0, 0, 0, 2, 0, 0, 0, 7, 0, 0, 0] 16 = Out_of_bounds"
  by (rule prob_load_overread) (simp_all, code_simp)

text \<open>
  The message that creates a group is packed and sent like any other, but its type
  id has no functor, so neither a peer nor the server that stored it can rebuild it from its
  blob.
\<close>

theorem creategroup_not_rebuilt:
  assumes "CreateGroup_wf g" "length buffer = unat (CreateGroup_required g)"
    "length (mh_signature h) = MESSAGE_SIGNATURE_SIZE"
  shows "\<exists>blob. makeMessageBlob h (M_CreateGroup g) buffer = Some blob \<and>
    buildMessage blob = Build_unknown TYPE_ID_CREATEGROUP"
proof -
  obtain data where d: "pack (CreateGroup_required g) (CreateGroup_store g) buffer = Some data" "data \<noteq> []"
    using any_pack_load [of "M_CreateGroup g" buffer] assms(1,2) by auto
  have "buildMessage (makeBlob h TYPE_ID_CREATEGROUP data) = Build_unknown TYPE_ID_CREATEGROUP"
    using d(2) by (simp add: buildMessage_def splitBlob_makeBlob assms(3) functors_creategroup)
  with d(1) show ?thesis by (simp add: makeMessageBlob_def)
qed

theorem creategroup_not_rebuilt_witness:
  "\<exists>blob. makeMessageBlob example_head (M_CreateGroup \<lparr>cg_group_id = 19, cg_groupname = ''juniors''\<rparr>)
       (replicate 12 0) = Some blob \<and> buildMessage blob = Build_unknown TYPE_ID_CREATEGROUP"
  by (rule creategroup_not_rebuilt)
    (simp_all add: CreateGroup_wf_def CreateGroup_required_def no_nul_def example_head_def u32_of_def)

end
