(* ===== verification/Udp.thy ===== *)
theory Udp
  imports Message_Registry Numerals "HOL-Library.Product_Lexorder"
begin

text \<open>
  The datagram messenger between servers, \<^verbatim>\<open>src/udpmessenger.C\<close>: a blob is cut into numbered
  fragments, each sent in an encrypted frame, and put together again by the receiver whatever
  order the frames arrive in. The cipher is a parameter: \<open>enc\<close> encrypts a frame and \<open>dec\<close>
  decrypts a datagram or fails.
\<close>

section \<open>Frames\<close>

text \<open>
  \<^verbatim>\<open>struct st_frame\<close>, packed; \<^verbatim>\<open>fragment_len\<close> and \<^verbatim>\<open>acking_server\<close> share a word. The last fragment
  has the top bit of its number set, number zero is an acknowledgement.
\<close>

record st_frame =
  f_server_id :: u32
  f_message_id :: u32
  f_fragment_num :: u16
  f_fragment_len :: u32
  f_data_checksum :: u32
  f_data :: bytes

definition ST_FRAME_SIZE :: nat where "ST_FRAME_SIZE = 19"
definition BUFFER_SIZE :: nat where "BUFFER_SIZE = 1408"
definition MAX_BLOCKSIZE :: nat where "MAX_BLOCKSIZE = 32"
definition MIN_FRAGMENT_SIZE :: u16 where "MIN_FRAGMENT_SIZE = 200"
definition MAX_FRAGMENT_SIZE :: u16 where "MAX_FRAGMENT_SIZE = 1390"

definition LAST_FRAGMENT :: u16 where "LAST_FRAGMENT = push_bit 15 1"

definition le16 :: "u16 \<Rightarrow> bytes" where
  "le16 w = [word_of_int (uint w), word_of_int (uint w div 256)]"

definition of_le16 :: "bytes \<Rightarrow> u16" where
  "of_le16 bs = word_of_int (uint (bs ! 0) + 256 * uint (bs ! 1))"

definition encode_frame :: "st_frame \<Rightarrow> bytes" where
  "encode_frame f = le32 (f_server_id f) @ le32 (f_message_id f) @ le16 (f_fragment_num f) @
     le32 (f_fragment_len f) @ le32 (f_data_checksum f) @ f_data f"

definition decode_frame :: "bytes \<Rightarrow> st_frame" where
  "decode_frame bs = \<lparr>f_server_id = of_le32 (take 4 bs), f_message_id = of_le32 (take 4 (drop 4 bs)),
     f_fragment_num = of_le16 (take 2 (drop 8 bs)), f_fragment_len = of_le32 (take 4 (drop 10 bs)),
     f_data_checksum = of_le32 (take 4 (drop 14 bs)), f_data = drop 18 bs\<rparr>"

text \<open>The exclusive or of the words, and of the remaining bytes read in big-endian order.\<close>

fun checksum :: "u32 \<Rightarrow> bytes \<Rightarrow> u32" where
  "checksum acc (a # b # c # d # data) = checksum (xor acc (of_le32 [a, b, c, d])) data"
| "checksum acc data = xor acc (fold (\<lambda>byte last. or (push_bit 8 last) (ucast byte)) data 0)"

section \<open>Sending\<close>

text \<open>The configured size, brought within limits at start-up.\<close>

definition max_fragment_size :: "u16 \<Rightarrow> u16" where
  "max_fragment_size conf =
     (if conf < MIN_FRAGMENT_SIZE then MIN_FRAGMENT_SIZE
      else if conf > MAX_FRAGMENT_SIZE then MAX_FRAGMENT_SIZE else conf)"

definition num_frags :: "u16 \<Rightarrow> u32 \<Rightarrow> u16" where
  "num_frags maxsize len = ucast ((len + ucast maxsize - 1) div ucast maxsize)"

definition fragment_frame :: "u32 \<Rightarrow> u32 \<Rightarrow> u32 \<Rightarrow> bytes \<Rightarrow> u16 \<Rightarrow> u16 \<Rightarrow> st_frame" where
  "fragment_frame seed server_id message_id blob numfrags i =
     (let len = u32_of (length blob);
          base_frag_size = len div ucast numfrags;
          num_large_frags = ucast (len mod ucast numfrags) :: u16;
          offset = base_frag_size * (ucast i - 1) + ucast (min (i - 1) num_large_frags);
          fragment_len = (if i \<le> num_large_frags then base_frag_size + 1 else base_frag_size);
          data = take (unat fragment_len) (drop (unat offset) blob)
      in \<lparr>f_server_id = server_id, f_message_id = message_id,
          f_fragment_num = (if i = numfrags then or i LAST_FRAGMENT else i),
          f_fragment_len = fragment_len, f_data_checksum = checksum seed data, f_data = data\<rparr>)"

text \<open>
  The loop that lists the fragment numbers counts in 16 bits: it ends unless there are 65535.
\<close>

definition fragment_numbers :: "u16 \<Rightarrow> u16 list option" where
  "fragment_numbers n = (if n = - 1 then None else Some (map word_of_nat [1..<Suc (unat n)]))"

datatype send_result =
    Sent "bytes list"
  | Send_failed              \<comment> \<open>\<^verbatim>\<open>false\<close>\<close>
  | Send_division_by_zero
  | Send_endless

text \<open>
  \<^verbatim>\<open>sendMessage\<close> to a server whose address is known: the datagrams in the order in which they are
  sent, a permutation by \<open>shuffle\<close> (\<^verbatim>\<open>random_shuffle\<close>). The guard tests bit 31 of a 16-bit number.
\<close>

definition sendMessage :: "(bytes \<Rightarrow> bytes) \<Rightarrow> (u16 list \<Rightarrow> u16 list) \<Rightarrow> u32 \<Rightarrow> u16 \<Rightarrow> u32 \<Rightarrow> u32 \<Rightarrow> bytes \<Rightarrow> send_result" where
  "sendMessage enc shuffle seed maxsize server_id message_id blob =
     (if length blob = 0 then Send_failed
      else let numfrags = num_frags maxsize (u32_of (length blob))
           in if numfrags = 0 then Send_division_by_zero
              else if and (ucast numfrags :: u32) (push_bit 31 1) \<noteq> 0 then Send_failed
              else case fragment_numbers numfrags of
                     None \<Rightarrow> Send_endless
                   | Some is \<Rightarrow> Sent (map (\<lambda>i. enc (encode_frame
                         (fragment_frame seed server_id message_id blob numfrags i))) (shuffle is)))"

text \<open>\<^verbatim>\<open>sendAck\<close> to one server: a frame with one byte of data that the checksum leaves out.\<close>

definition ack_frame :: "u32 \<Rightarrow> u32 \<Rightarrow> u32 \<Rightarrow> u32 \<Rightarrow> st_frame" where
  "ack_frame seed me server_id message_id =
     \<lparr>f_server_id = server_id, f_message_id = message_id, f_fragment_num = 0, f_fragment_len = me,
      f_data_checksum = checksum seed [], f_data = [0]\<rparr>"

section \<open>Receiving\<close>

record fragment_collection =
  fc_num_fragments :: u16
  fc_fragments_received :: u16
  fc_fragments :: "(u16, bytes) smap"

type_synonym fragment_map = "(u32 \<times> u32, fragment_collection) smap"

definition fc_new :: fragment_collection where
  "fc_new = \<lparr>fc_num_fragments = 0, fc_fragments_received = 0, fc_fragments = []\<rparr>"

text \<open>
  One new frame of a message: the collection afterwards and the blob when it is complete.
\<close>

definition add_fragment :: "u16 \<Rightarrow> bytes \<Rightarrow> fragment_collection \<Rightarrow> bytes option \<times> fragment_collection" where
  "add_fragment num data fc =
     (let lastfragment = (and num LAST_FRAGMENT \<noteq> 0);
          n = and num (LAST_FRAGMENT - 1);
          fc1 = (if fc_num_fragments fc \<le> n
                 then fc\<lparr>fc_num_fragments := n + (if lastfragment then 0 else 1)\<rparr> else fc)
      in if smap_find (fc_fragments fc1) n \<noteq> None then (None, fc1)
         else let fc2 = fc1\<lparr>fc_fragments_received := fc_fragments_received fc1 + 1,
                            fc_fragments := smap_put n data (fc_fragments fc1)\<rparr>
              in (if fc_fragments_received fc2 = fc_num_fragments fc2
                  then Some (concat (map snd (fc_fragments fc2))) else None, fc2))"

datatype udp_event =
    Discarded
  | Buffer_overflow
  | Acked u32 u32 u32          \<comment> \<open>\<^verbatim>\<open>putAck\<close> and \<^verbatim>\<open>downBackoff\<close>\<close>
  | Already_have u32 u32       \<comment> \<open>answered with \<^verbatim>\<open>sendAck\<close>\<close>
  | Collecting
  | Unbuildable u32 u32
  | Received message_head message

text \<open>
  One turn of the loop of \<^verbatim>\<open>getMessage\<close> on a datagram; \<open>has\<close> is \<^verbatim>\<open>Server::hasMessage\<close>. The buffer
  for the decrypted frame is smaller than the datagrams that are accepted.
\<close>

definition receive_datagram ::
  "(bytes \<Rightarrow> bytes option) \<Rightarrow> u32 \<Rightarrow> (u32 \<Rightarrow> u32 \<Rightarrow> bool) \<Rightarrow> bytes \<Rightarrow> fragment_map \<Rightarrow> udp_event \<times> fragment_map" where
  "receive_datagram dec seed has datagram fm =
     (if length datagram > BUFFER_SIZE + MAX_BLOCKSIZE then (Discarded, fm)
      else case dec datagram of
        None \<Rightarrow> (Discarded, fm)
      | Some packet \<Rightarrow>
          if length packet > BUFFER_SIZE then (Buffer_overflow, fm)
          else if length packet < ST_FRAME_SIZE then (Discarded, fm)
          else let f = decode_frame packet; key = (f_server_id f, f_message_id f)
               in if f_fragment_num f = 0 then (Acked (fst key) (snd key) (f_fragment_len f), fm)
                  else if length packet \<noteq> unat (f_fragment_len f) + ST_FRAME_SIZE - 1 then (Discarded, fm)
                  else if f_data_checksum f \<noteq> checksum seed (f_data f) then (Discarded, fm)
                  else if has (fst key) (snd key) then (Already_have (fst key) (snd key), fm)
                  else let fc = (case smap_find fm key of Some fc \<Rightarrow> fc | None \<Rightarrow> fc_new);
                           (blob, fc') = add_fragment (f_fragment_num f) (f_data f) fc
                       in case blob of
                            None \<Rightarrow> (Collecting, smap_put key fc' fm)
                          | Some b \<Rightarrow>
                              (case buildMessage b of
                                 Built h m \<Rightarrow> (Received h m, smap_erase key (smap_put key fc' fm))
                               | _ \<Rightarrow> (Unbuildable (fst key) (snd key), smap_put key fc' fm)))"

text \<open>
  \<^verbatim>\<open>getMessage\<close> on the datagrams that arrive: the message and the datagrams not yet read, or None
  when it is still waiting.
\<close>

fun getMessage ::
  "(bytes \<Rightarrow> bytes option) \<Rightarrow> u32 \<Rightarrow> (u32 \<Rightarrow> u32 \<Rightarrow> bool) \<Rightarrow> bytes list \<Rightarrow> fragment_map \<Rightarrow>
   (message_head \<times> message \<times> bytes list) option \<times> fragment_map" where
  "getMessage dec seed has [] fm = (None, fm)"
| "getMessage dec seed has (p # ps) fm =
     (case receive_datagram dec seed has p fm of
        (Received h m, fm') \<Rightarrow> (Some (h, m, ps), fm')
      | (_, fm') \<Rightarrow> getMessage dec seed has ps fm')"

section \<open>Backoff\<close>

record backoff =
  b_min_delay :: u32
  b_max_delay :: u32
  b_init_delay :: u32
  b_map :: "(u32, u32) smap"

text \<open>The configured delays, brought into order by \<^verbatim>\<open>initialise\<close>.\<close>

definition udp_initialise :: "u32 \<Rightarrow> u32 \<Rightarrow> u32 \<Rightarrow> backoff" where
  "udp_initialise init mn mx =
     (let mn' = (if mn < 100 then 100 else mn);
          mx' = (if mx < 1000 * mn' then 1000 * mn' else mx);
          init' = (if init < mn' \<or> init > mx' then mn' div 2 + mx' div 2 else init)
      in \<lparr>b_min_delay = mn', b_max_delay = mx', b_init_delay = init', b_map = []\<rparr>)"

definition getBackoff :: "u32 \<Rightarrow> backoff \<Rightarrow> u32 \<times> backoff" where
  "getBackoff server b = (case smap_find (b_map b) server of
       None \<Rightarrow> (b_init_delay b, b\<lparr>b_map := smap_put server (b_init_delay b) (b_map b)\<rparr>)
     | Some v \<Rightarrow> (v, b\<lparr>b_map := smap_put server
          (if v * 2 > b_max_delay b then b_max_delay b else v * 2) (b_map b)\<rparr>))"

definition downBackoff :: "u32 \<Rightarrow> backoff \<Rightarrow> backoff" where
  "downBackoff server b = (case smap_find (b_map b) server of
       None \<Rightarrow> b
     | Some v \<Rightarrow> b\<lparr>b_map := smap_put server
          (if v div 2 < b_min_delay b then b_min_delay b else v div 2) (b_map b)\<rparr>)"

end
