(* ===== verification/Udp_Transfer.thy ===== *)
theory Udp_Transfer
  imports Udp "HOL-Library.Multiset"
begin

text \<open>
  What the datagram messenger promises: fragments fit their buffer, the fragments of a blob give
  the blob back in any order and with repetitions, and so a message sent to a peer is received
  as it was. The delays between frames stay within their limits.
\<close>

section \<open>Frames\<close>

lemma le16_length [simp]: "length (le16 w) = 2"
  by (simp add: le16_def)

lemma of_le16_le16 [simp]: "of_le16 (le16 w) = w"
proof -
  define n where "n = uint w"
  have n: "0 \<le> n" "n < 65536" using uint_lt2p [of w] by (simp_all add: n_def)
  have "n mod 256 + 256 * (n div 256 mod 256) = n" using n by simp
  then have "of_le16 (le16 w) = word_of_int n"
    unfolding of_le16_def le16_def n_def [symmetric] by (simp add: uint_word_of_int)
  then show ?thesis by (simp add: n_def)
qed

lemma encode_frame_length [simp]: "length (encode_frame f) = 18 + length (f_data f)"
  by (simp add: encode_frame_def)

lemma decode_encode_frame [simp]: "decode_frame (encode_frame f) = f"
  by (simp add: encode_frame_def decode_frame_def)

section \<open>Cutting a blob\<close>

lemma concat_slices:
  assumes "f 0 = 0" "\<And>k. k < n \<Longrightarrow> f k \<le> f (Suc k)"
  shows "concat (map (\<lambda>k. take (f (Suc k) - f k) (drop (f k) xs)) [0..<n]) = take (f n) xs"
  using assms(2)
proof (induction n)
  case (Suc n)
  have "take (f (Suc n)) xs = take (f n) xs @ take (f (Suc n) - f n) (drop (f n) xs)"
    using Suc.prems [of n] by (simp add: take_add [symmetric])
  then show ?case using Suc by simp
qed (simp add: assms(1))

text \<open>The sizes as numbers: the first \<open>L mod N\<close> fragments are one byte longer.\<close>

definition frag_start :: "nat \<Rightarrow> nat \<Rightarrow> nat \<Rightarrow> nat" where
  "frag_start L N k = L div N * k + min k (L mod N)"

lemma frag_start_mono: "frag_start L N k \<le> frag_start L N (Suc k)"
  by (simp add: frag_start_def min_def)

lemma frag_start_end: "0 < N \<Longrightarrow> frag_start L N N = L"
  using mod_less_divisor [of N L] by (simp add: frag_start_def)

lemma frag_start_le: "k \<le> N \<Longrightarrow> 0 < N \<Longrightarrow> frag_start L N k \<le> L"
  using lift_Suc_mono_le [of "frag_start L N" k N, OF frag_start_mono] by (simp add: frag_start_end)

lemma frag_size:
  "frag_start L N (Suc k) - frag_start L N k = L div N + (if Suc k \<le> L mod N then 1 else 0)"
  by (cases "Suc k \<le> L mod N"; cases "k \<le> L mod N") (simp_all add: frag_start_def)

definition frag_data :: "bytes \<Rightarrow> nat \<Rightarrow> nat \<Rightarrow> bytes" where
  "frag_data blob N k = (let s = frag_start (length blob) N
     in take (s (Suc k) - s k) (drop (s k) blob))"

lemma concat_frag_data:
  assumes "0 < N"
  shows "concat (map (frag_data blob N) [0..<N]) = blob"
proof -
  have "concat (map (frag_data blob N) [0..<N]) = take (frag_start (length blob) N N) blob"
    unfolding frag_data_def Let_def
    by (rule concat_slices) (simp_all add: frag_start_mono, simp add: frag_start_def)
  then show ?thesis by (simp add: frag_start_end assms)
qed

text \<open>The number of fragments of a blob that fits into 32767 of them.\<close>

definition frag_count :: "bytes \<Rightarrow> u16 \<Rightarrow> nat" where
  "frag_count blob maxsize = (length blob + unat maxsize - 1) div unat maxsize"

definition cut_ok :: "bytes \<Rightarrow> u16 \<Rightarrow> bool" where
  "cut_ok blob maxsize \<longleftrightarrow> blob \<noteq> [] \<and> length blob \<le> 32767 * unat maxsize \<and>
     200 \<le> unat maxsize \<and> unat maxsize \<le> 1390"

lemma max_fragment_size_limits:
  "200 \<le> unat (max_fragment_size conf)" "unat (max_fragment_size conf) \<le> 1390"
  by (simp_all add: max_fragment_size_def MIN_FRAGMENT_SIZE_def MAX_FRAGMENT_SIZE_def word_less_nat_alt
      split: if_split)

lemma cut_ok_length: "cut_ok blob maxsize \<Longrightarrow> 0 < length blob \<and> length blob < 45546131"
  using mult_le_mono2 [of "unat maxsize" 1390 32767] by (auto simp: cut_ok_def)

lemma frag_count_limits:
  assumes "cut_ok blob maxsize"
  shows "0 < frag_count blob maxsize" "frag_count blob maxsize \<le> 32767"
proof -
  have l: "0 < length blob" "length blob \<le> 32767 * unat maxsize" "200 \<le> unat maxsize"
    using assms by (auto simp: cut_ok_def)
  then have "unat maxsize \<le> length blob + unat maxsize - 1" by linarith
  then show "0 < frag_count blob maxsize" using l by (simp add: frag_count_def div_greater_zero_iff)
  have "length blob + unat maxsize - 1 < 32768 * unat maxsize" using l by linarith
  then have "frag_count blob maxsize < 32768" by (simp only: frag_count_def less_mult_imp_div_less)
  then show "frag_count blob maxsize \<le> 32767" by simp
qed

lemma num_frags_count:
  assumes "cut_ok blob maxsize"
  shows "unat (num_frags maxsize (u32_of (length blob))) = frag_count blob maxsize"
proof -
  have l: "length blob < 45546131" "unat maxsize \<le> 1390" "200 \<le> unat maxsize"
    using cut_ok_length [OF assms] assms by (auto simp: cut_ok_def)
  have len: "unat (u32_of (length blob)) = length blob" using l(1) by (simp add: unat_of_size)
  have "unat maxsize < 2 ^ 32" using l(2) by simp
  then have m: "unat (ucast maxsize :: u32) = unat maxsize"
    by (simp only: unsigned_ucast_eq take_bit_nat_eq_self) (simp add: take_bit_nat_eq_self)
  have "unat (u32_of (length blob) + ucast maxsize) = length blob + unat maxsize"
    using len m l by (simp add: unat_word_ariths)
  then have "unat (u32_of (length blob) + ucast maxsize - 1) = length blob + unat maxsize - 1"
    using l by (simp add: unat_sub_if')
  then have "unat ((u32_of (length blob) + ucast maxsize - 1) div ucast maxsize) = frag_count blob maxsize"
    by (simp add: unat_div m frag_count_def)
  then show ?thesis using frag_count_limits [OF assms]
    by (simp add: num_frags_def unsigned_ucast_eq take_bit_nat_eq_self)
qed

lemma frag_data_length:
  assumes "k < N"
  shows "length (frag_data blob N k) = length blob div N + (if Suc k \<le> length blob mod N then 1 else 0)"
proof -
  have "frag_start (length blob) N (Suc k) \<le> length blob" using assms by (intro frag_start_le) auto
  then show ?thesis
    unfolding frag_data_def Let_def frag_size [symmetric]
    using frag_start_mono [of "length blob" N k] by (simp add: min_def) linarith
qed

lemma frag_data_fits:
  assumes "cut_ok blob maxsize" "k < frag_count blob maxsize"
  shows "length (frag_data blob (frag_count blob maxsize) k) \<le> unat maxsize"
proof -
  define N M where "N = frag_count blob maxsize" and "M = unat maxsize"
  have M: "0 < M" using assms(1) by (simp add: cut_ok_def M_def)
  have "length blob + M - 1 < M * Suc N"
    unfolding N_def frag_count_def M_def [symmetric] using M dividend_less_times_div [of M "length blob + M - 1"]
    by simp
  then have LM: "length blob \<le> M * N" by simp
  have N: "0 < N" using assms(2) N_def by simp
  have "length blob div N + (if Suc k \<le> length blob mod N then 1 else 0) \<le> M"
  proof (cases "length blob mod N = 0")
    case True
    then show ?thesis using div_le_mono [OF LM, of N] N by simp
  next
    case False
    then have "length blob div N < M"
      using LM N by (metis div_mult_mod_eq le_neq_implies_less less_mult_imp_div_less mod_mult_self2_is_0)
    then show ?thesis by simp
  qed
  then show ?thesis using frag_data_length [OF assms(2)] by (simp add: N_def M_def)
qed

lemma unat_mult_add:
  "unat b * unat x + unat y < 2 ^ 32 \<Longrightarrow> unat (b * x + y :: u32) = unat b * unat x + unat y"
  by (simp add: unat_word_ariths)

lemma fragment_frame_data:
  fixes i :: u16
  assumes cut: "cut_ok blob maxsize" and n: "n = num_frags maxsize (u32_of (length blob))"
    and i: "1 \<le> unat i" "unat i \<le> unat n"
  shows "f_data (fragment_frame seed s m blob n i) = frag_data blob (unat n) (unat i - 1) \<and>
    unat (f_fragment_len (fragment_frame seed s m blob n i)) =
      length (frag_data blob (unat n) (unat i - 1))"
proof -
  define L N k where "L = length blob" and "N = unat n" and "k = unat i - 1"
  have L: "L < 45546131" and N: "0 < N" "N \<le> 32767" and k: "k < N" "unat i = Suc k"
    using cut_ok_length [OF cut] frag_count_limits [OF cut] num_frags_count [OF cut] n i
    by (auto simp: L_def N_def k_def)
  have len: "unat (u32_of L) = L" using L by (simp add: unat_of_size)
  have nn: "unat (ucast n :: u32) = N" "unat (ucast i :: u32) = Suc k"
    using N k by (simp_all add: unsigned_ucast_eq take_bit_nat_eq_self N_def)
  have base: "unat (u32_of L div ucast n) = L div N" by (simp add: unat_div len nn)
  have "unat (u32_of L mod ucast n) = L mod N" by (simp add: unat_mod len nn)
  moreover have "L mod N < 65536" using N mod_less_divisor [of N L] by linarith
  ultimately have large: "unat (ucast (u32_of L mod ucast n :: u32) :: u16) = L mod N"
    using N by (simp add: unsigned_ucast_eq take_bit_nat_eq_self_iff)
  have im: "unat (i - 1) = k" using k by (simp add: unat_sub_if')
  have mn: "unat (min (i - 1) (ucast (u32_of L mod ucast n))) = min k (L mod N)"
    using im large by (simp add: min_def word_le_nat_alt)
  have "min k (L mod N) < 2 ^ 32" using N k by simp
  then have mn32: "unat (ucast (min (i - 1) (ucast (u32_of L mod ucast n))) :: u32) = min k (L mod N)"
    using mn by (simp only: unsigned_ucast_eq) (simp add: take_bit_nat_eq_self)
  have i32: "unat (ucast i - 1 :: u32) = k" using nn(2) by (simp add: unat_sub_if')
  have st: "frag_start L N k \<le> L" using k by (intro frag_start_le) auto
  have "unat (u32_of L div ucast n * (ucast i - 1) + ucast (min (i - 1) (ucast (u32_of L mod ucast n)))) =
    frag_start L N k"
    using st L by (subst unat_mult_add) (simp_all add: base i32 mn32 frag_start_def)
  moreover have ile: "i \<le> ucast (u32_of L mod ucast n) \<longleftrightarrow> Suc k \<le> L mod N"
    using large k by (simp add: word_le_nat_alt)
  moreover have "unat (u32_of L div ucast n + 1) = L div N + 1"
    using base le_less_trans [OF div_le_dividend L, of N] by (simp add: unat_word_ariths)
  ultimately show ?thesis
    using frag_data_length [OF k(1), of blob] frag_size [of L N k] base
    by (simp add: fragment_frame_def Let_def frag_data_def L_def [symmetric] N_def [symmetric] k(2))
qed

section \<open>Putting fragments together\<close>

lemma LAST_FRAGMENT_mask: "LAST_FRAGMENT - 1 = mask 15" "LAST_FRAGMENT = 32768"
  by (simp_all add: LAST_FRAGMENT_def mask_eq_exp_minus_1)

lemma small_num:
  fixes i :: u16
  assumes "unat i \<le> 32767"
  shows "and i LAST_FRAGMENT = 0" "and i (LAST_FRAGMENT - 1) = i"
    "and (or i LAST_FRAGMENT) LAST_FRAGMENT \<noteq> 0" "and (or i LAST_FRAGMENT) (LAST_FRAGMENT - 1) = i"
proof -
  have t: "take_bit 15 i = i" using assms
    by (simp add: word_unat_eq_iff unsigned_take_bit_eq take_bit_nat_eq_self del: word_unat_eq_iff [symmetric])
  have b: "\<not> bit i 15" by (metis t bit_take_bit_iff less_irrefl)
  show m: "and i (LAST_FRAGMENT - 1) = i" by (simp only: LAST_FRAGMENT_mask(1) flip: take_bit_eq_mask) (rule t)
  have e: "LAST_FRAGMENT = 2 ^ 15" by (simp add: LAST_FRAGMENT_def)
  show l: "and i LAST_FRAGMENT = 0"
    unfolding e using b and_exp_eq_0_iff_not_bit [of i 15] by blast
  have "and LAST_FRAGMENT (LAST_FRAGMENT - 1) = 0" by (simp add: LAST_FRAGMENT_mask(2))
  then show "and (or i LAST_FRAGMENT) (LAST_FRAGMENT - 1) = i"
    by (simp add: and.commute [of _ "LAST_FRAGMENT - 1"] bit.conj_disj_distrib) (simp add: and.commute m)
  show "and (or i LAST_FRAGMENT) LAST_FRAGMENT \<noteq> 0"
    by (simp add: LAST_FRAGMENT_mask(2) l and.commute bit.conj_disj_distrib)
qed

definition expected :: "nat \<Rightarrow> nat set \<Rightarrow> nat" where
  "expected n S = (if n \<in> S then n else if S = {} then 0 else Max S + 1)"

lemma expected_insert:
  assumes "S \<subseteq> {1..n}" "k \<in> {1..n}"
  shows "expected n (insert k S) =
    (if expected n S \<le> k then k + (if k = n then 0 else 1) else expected n S)"
proof (cases "n \<in> S \<or> S = {}")
  case True
  then show ?thesis using assms by (auto simp: expected_def)
next
  case False
  have fin: "finite S" using assms(1) finite_subset by blast
  have "Max S \<in> S" using fin False by simp
  then have "Max S < n" using assms(1) False by (metis atLeastAtMost_iff le_neq_implies_less subset_iff)
  moreover have "expected n S = Max S + 1" using False by (simp add: expected_def)
  moreover have "expected n (insert k S) = (if k = n then n else max k (Max S) + 1)"
    using False fin by (simp add: expected_def)
  ultimately show ?thesis by auto
qed

lemma expected_complete:
  assumes "T \<subseteq> {1..n}" "T \<noteq> {}"
  shows "card T = expected n T \<longleftrightarrow> T = {1..n}"
proof (cases "n \<in> T")
  case True
  then show ?thesis using assms card_subset_eq [of "{1..n}" T] by (auto simp: expected_def)
next
  case False
  have fin: "finite T" using assms(1) finite_subset by blast
  have "T \<subseteq> {1..Max T}" using assms(1) fin by auto
  then have "card T \<le> Max T" using card_mono [of "{1..Max T}" T] by simp
  moreover have "n \<noteq> 0" using assms by (cases n) auto
  ultimately show ?thesis using False assms(2) by (auto simp: expected_def)
qed

text \<open>A collection that holds the fragments \<open>S\<close> of the \<open>n\<close> fragments \<open>D\<close>.\<close>

definition holds :: "(nat \<Rightarrow> bytes) \<Rightarrow> nat \<Rightarrow> nat set \<Rightarrow> fragment_collection \<Rightarrow> bool" where
  "holds D n S fc \<longleftrightarrow> S \<subseteq> {1..n} \<and> smap_ok (fc_fragments fc) \<and>
     (\<forall>i. smap_find (fc_fragments fc) i = (if unat i \<in> S then Some (D (unat i)) else None)) \<and>
     unat (fc_fragments_received fc) = card S \<and> unat (fc_num_fragments fc) = expected n S"

lemma holds_new: "holds D n {} fc_new"
  by (simp add: holds_def fc_new_def expected_def)

lemma all_fragments:
  assumes "holds D n {1..n} fc" "n \<le> 32767"
  shows "concat (map snd (fc_fragments fc)) = concat (map D [1..<Suc n])"
proof -
  define f :: "nat \<Rightarrow> u16" where "f = word_of_nat"
  let ?m = "map (\<lambda>k. (f k, D k)) [1..<Suc n]"
  have u: "unat (f k) = k" if "k \<le> n" for k
    using that assms(2) by (simp add: f_def unsigned_of_nat take_bit_nat_eq_self)
  have f: "f (unat w) = w" for w by (simp add: f_def)
  have ok: "smap_ok ?m"
    unfolding smap_ok_def sorted_wrt_iff_nth_less by (simp add: word_less_nat_alt u del: upt_Suc)
  have "fc_fragments fc = ?m"
  proof (rule smap_ext)
    fix w :: u16
    show "smap_find (fc_fragments fc) w = smap_find ?m w"
    proof (cases "unat w \<in> {1..n}")
      case True
      then have "(w, D (unat w)) \<in> set ?m" by (auto simp: image_iff f intro!: bexI [of _ "unat w"])
      then have "smap_find ?m w = Some (D (unat w))" using ok by (rule smap_find_member)
      then show ?thesis using assms(1) True by (simp add: holds_def)
    next
      case False
      then have "w \<notin> fst ` set ?m" using u by auto
      then have "smap_find ?m w = None" by (simp only: smap_find_dom not_False_eq_True)
      then show ?thesis using assms(1) False by (simp add: holds_def)
    qed
  qed (use assms(1) ok in \<open>simp_all add: holds_def\<close>)
  then show ?thesis by (simp add: o_def)
qed

lemma add_fragment_step:
  assumes h: "holds D n S fc" and n: "n \<le> 32767" and k: "k \<in> {1..n}"
    and num: "num = (if k = n then or (word_of_nat k) LAST_FRAGMENT else word_of_nat k)"
  shows "\<exists>fc'. holds D n (insert k S) fc' \<and>
    add_fragment num (D k) fc =
      (if k \<notin> S \<and> insert k S = {1..n} then Some (concat (map D [1..<Suc n])) else None, fc')"
proof -
  define i :: u16 where "i = word_of_nat k"
  have ui: "unat i = k" using k n by (simp add: i_def unsigned_of_nat take_bit_nat_eq_self)
  have small: "unat i \<le> 32767" using ui k n by simp
  have bits: "and num LAST_FRAGMENT \<noteq> 0 \<longleftrightarrow> k = n" "and num (LAST_FRAGMENT - 1) = i"
    using small_num [OF small] unfolding num i_def [symmetric] by simp_all
  have S: "S \<subseteq> {1..n}" using h by (simp add: holds_def)
  define fc1 where "fc1 = (if fc_num_fragments fc \<le> i
    then fc\<lparr>fc_num_fragments := i + (if k = n then 0 else 1)\<rparr> else fc)"
  have "unat (i + 1) = k + 1" using ui k n by (simp add: unat_word_ariths)
  then have num1: "unat (fc_num_fragments fc1) = expected n (insert k S)"
    using h k S ui by (simp add: fc1_def holds_def expected_insert word_le_nat_alt)
  have same: "fc_fragments fc1 = fc_fragments fc" "fc_fragments_received fc1 = fc_fragments_received fc"
    by (simp_all add: fc1_def)
  have found: "smap_find (fc_fragments fc) i \<noteq> None \<longleftrightarrow> k \<in> S"
    using h ui by (simp add: holds_def)
  show ?thesis
  proof (cases "k \<in> S")
    case True
    then have "holds D n (insert k S) fc1" using h num1 same by (simp add: holds_def insert_absorb)
    moreover have "add_fragment num (D k) fc = (None, fc1)"
      using True found same by (simp add: add_fragment_def Let_def bits fc1_def [symmetric])
    ultimately show ?thesis using True by auto
  next
    case False
    define fc2 where "fc2 = fc1\<lparr>fc_fragments_received := fc_fragments_received fc1 + 1,
      fc_fragments := smap_put i (D k) (fc_fragments fc1)\<rparr>"
    have fin: "finite S" using S finite_subset by blast
    have "card S \<le> 32767" using card_mono [OF _ S] n by simp
    then have rec: "unat (fc_fragments_received fc + 1) = card (insert k S)"
      using h False fin by (simp add: holds_def unat_word_ariths)
    have find: "smap_find (fc_fragments fc2) j =
        (if unat j \<in> insert k S then Some (D (unat j)) else None)" for j
      using h same ui word_unat_eq_iff [of j i] by (auto simp: fc2_def holds_def smap_find_put)
    have h2: "holds D n (insert k S) fc2"
      using h S k same num1 rec find unfolding holds_def fc2_def
      by (simp add: smap_ok_put)
    have full: "fc_fragments_received fc2 = fc_num_fragments fc2 \<longleftrightarrow> insert k S = {1..n}"
      using expected_complete [of "insert k S" n] S k h2 by (simp add: word_unat_eq_iff holds_def)
    have "add_fragment num (D k) fc = (if fc_fragments_received fc2 = fc_num_fragments fc2
        then Some (concat (map snd (fc_fragments fc2))) else None, fc2)"
      using False found same by (simp add: add_fragment_def Let_def bits fc1_def [symmetric] fc2_def)
    then have "add_fragment num (D k) fc =
        (if insert k S = {1..n} then Some (concat (map snd (fc_fragments fc2))) else None, fc2)"
      by (simp only: full)
    moreover have "insert k S = {1..n} \<Longrightarrow> concat (map snd (fc_fragments fc2)) = concat (map D [1..<Suc n])"
      using all_fragments [OF _ n] h2 by metis
    ultimately show ?thesis using h2 False by auto
  qed
qed

section \<open>Receiving the fragments of one message\<close>

lemma frag_data_nonempty:
  assumes "cut_ok blob maxsize" "k < frag_count blob maxsize"
  shows "0 < length (frag_data blob (frag_count blob maxsize) k)"
proof -
  define M where "M = unat maxsize"
  have M: "0 < M" and L: "0 < length blob" using assms(1) by (auto simp: cut_ok_def M_def)
  obtain l m where lm: "length blob = Suc l" "M = Suc m" using L M by (metis Suc_pred)
  have "(length blob + M - 1) div M \<le> length blob"
    using lm by (simp add: div_le_mono2 less_mult_imp_div_less flip: less_Suc_eq_le)
  then have "frag_count blob maxsize \<le> length blob" by (simp add: frag_count_def M_def)
  then have "0 < length blob div frag_count blob maxsize"
    using assms(2) by (simp add: div_greater_zero_iff)
  then show ?thesis using frag_data_length [OF assms(2)] by simp
qed

text \<open>
  The datagram of fragment \<open>k\<close>, counted from one.
\<close>

definition datagram :: "(bytes \<Rightarrow> bytes) \<Rightarrow> u32 \<Rightarrow> u32 \<Rightarrow> u32 \<Rightarrow> bytes \<Rightarrow> u16 \<Rightarrow> nat \<Rightarrow> bytes" where
  "datagram enc seed s m blob n k = enc (encode_frame (fragment_frame seed s m blob n (word_of_nat k)))"

lemma datagram_frame:
  assumes cut: "cut_ok blob maxsize" and n: "n = num_frags maxsize (u32_of (length blob))"
    and k: "k \<in> {1..unat n}" and f_def: "f = fragment_frame seed s m blob n (word_of_nat k)"
  shows "f_data f = frag_data blob (unat n) (k - 1)"
    "unat (f_fragment_len f) = length (f_data f)" "0 < length (f_data f)" "length (f_data f) \<le> 1390"
    "f_fragment_num f = (if k = unat n then or (word_of_nat k) LAST_FRAGMENT else word_of_nat k)"
    "f_data_checksum f = checksum seed (f_data f)" "f_server_id f = s" "f_message_id f = m"
    "and (f_fragment_num f) (LAST_FRAGMENT - 1) = word_of_nat k" "f_fragment_num f \<noteq> 0"
proof -
  have N: "unat n = frag_count blob maxsize" "unat n \<le> 32767"
    using num_frags_count [OF cut] frag_count_limits [OF cut] n by simp_all
  define i :: u16 where "i = word_of_nat k"
  have ui: "unat i = k" using k N by (simp add: i_def unsigned_of_nat take_bit_nat_eq_self)
  have "unat i \<le> 32767" using ui k N(2) by simp
  note sm = small_num [OF this]
  have d: "f_data f = frag_data blob (unat n) (k - 1)"
    "unat (f_fragment_len f) = length (frag_data blob (unat n) (k - 1))"
    using fragment_frame_data [OF cut n, of i] ui k by (auto simp: f_def i_def)
  then show "f_data f = frag_data blob (unat n) (k - 1)" "unat (f_fragment_len f) = length (f_data f)"
    by simp_all
  have kn: "k - 1 < frag_count blob maxsize" using k N by auto
  show "0 < length (f_data f)" using frag_data_nonempty [OF cut kn] d N by simp
  show "length (f_data f) \<le> 1390"
    using frag_data_fits [OF cut kn] d N cut by (simp add: cut_ok_def)
  have "i = n \<longleftrightarrow> k = unat n" using ui by (metis word_unat_eq_iff)
  then show num: "f_fragment_num f = (if k = unat n then or (word_of_nat k) LAST_FRAGMENT else word_of_nat k)"
    unfolding f_def fragment_frame_def Let_def i_def [symmetric] by simp
  show "and (f_fragment_num f) (LAST_FRAGMENT - 1) = word_of_nat k"
    using sm(2,4) unfolding num i_def [symmetric] by simp
  then show "f_fragment_num f \<noteq> 0" using ui k by (auto simp: i_def [symmetric])
  show "f_data_checksum f = checksum seed (f_data f)" "f_server_id f = s" "f_message_id f = m"
    by (simp_all add: f_def fragment_frame_def Let_def)
qed

text \<open>What the sender and the receiver rely on from the cipher library.\<close>

definition cipher_ok :: "(bytes \<Rightarrow> bytes) \<Rightarrow> (bytes \<Rightarrow> bytes option) \<Rightarrow> bool" where
  "cipher_ok enc dec \<longleftrightarrow> (\<forall>x. length x \<le> BUFFER_SIZE \<longrightarrow>
     dec (enc x) = Some x \<and> length (enc x) \<le> length x + MAX_BLOCKSIZE)"

abbreviation collection :: "fragment_map \<Rightarrow> u32 \<times> u32 \<Rightarrow> fragment_collection" where
  "collection fm key \<equiv> (case smap_find fm key of Some fc \<Rightarrow> fc | None \<Rightarrow> fc_new)"

lemma receive_fragment:
  assumes cut: "cut_ok blob maxsize" and n: "n = num_frags maxsize (u32_of (length blob))"
    and k: "k \<in> {1..unat n}" and cipher: "cipher_ok enc dec" and has: "\<not> has s m"
    and fc: "holds (\<lambda>k. frag_data blob (unat n) (k - 1)) (unat n) S (collection fm (s, m))"
    and built: "buildMessage blob = Built h msg"
  shows "if k \<notin> S \<and> insert k S = {1..unat n}
    then \<exists>fm'. receive_datagram dec seed has (datagram enc seed s m blob n k) fm = (Received h msg, fm')
    else \<exists>fm'. receive_datagram dec seed has (datagram enc seed s m blob n k) fm = (Collecting, fm') \<and>
      holds (\<lambda>k. frag_data blob (unat n) (k - 1)) (unat n) (insert k S) (collection fm' (s, m))"
proof -
  define f where "f = fragment_frame seed s m blob n (word_of_nat k)"
  note F = datagram_frame [OF cut n k f_def]
  have N: "unat n \<le> 32767" "0 < unat n"
    using num_frags_count [OF cut] frag_count_limits [OF cut] n by simp_all
  have len: "length (encode_frame f) \<le> BUFFER_SIZE" using F(4) by (simp add: BUFFER_SIZE_def)
  then have c: "dec (enc (encode_frame f)) = Some (encode_frame f)"
    "length (enc (encode_frame f)) \<le> BUFFER_SIZE + MAX_BLOCKSIZE"
    using cipher unfolding cipher_ok_def by (blast, fastforce)
  have whole: "concat (map (\<lambda>k. frag_data blob (unat n) (k - 1)) [1..<Suc (unat n)]) = blob"
    using concat_frag_data [OF N(2), of blob]
    by (simp only: One_nat_def map_Suc_upt [symmetric] map_map o_def diff_Suc_Suc diff_zero)
  obtain fc' where step: "holds (\<lambda>k. frag_data blob (unat n) (k - 1)) (unat n) (insert k S) fc'"
    "add_fragment (f_fragment_num f) (f_data f) (collection fm (s, m)) =
      (if k \<notin> S \<and> insert k S = {1..unat n} then Some blob else None, fc')"
    using add_fragment_step [OF fc N(1) k F(5)] unfolding whole F(1) by blast
  have r: "receive_datagram dec seed has (datagram enc seed s m blob n k) fm =
      (if k \<notin> S \<and> insert k S = {1..unat n}
       then (Received h msg, smap_erase (s, m) (smap_put (s, m) fc' fm))
       else (Collecting, smap_put (s, m) fc' fm))"
    using len c F(2,3,6,7,8,10) has step(2) built
    by (simp add: receive_datagram_def datagram_def f_def [symmetric] Let_def ST_FRAME_SIZE_def)
  show ?thesis using r step(1) by (simp add: smap_find_put)
qed

lemma datagram_dec:
  assumes "cut_ok blob maxsize" "n = num_frags maxsize (u32_of (length blob))" "k \<in> {1..unat n}"
    "cipher_ok enc dec"
  shows "dec (datagram enc seed s m blob n k) =
    Some (encode_frame (fragment_frame seed s m blob n (word_of_nat k)))"
proof -
  have "length (encode_frame (fragment_frame seed s m blob n (word_of_nat k))) \<le> BUFFER_SIZE"
    using datagram_frame(4) [OF assms(1-3) refl, of seed s m] by (simp add: BUFFER_SIZE_def)
  then show ?thesis using assms(4) unfolding cipher_ok_def datagram_def by blast
qed

lemma datagram_inj:
  assumes cut: "cut_ok blob maxsize" and n: "n = num_frags maxsize (u32_of (length blob))"
    and k: "k \<in> {1..unat n}" and l: "l \<in> {1..unat n}" and cipher: "cipher_ok enc dec"
    and eq: "datagram enc seed s m blob n k = datagram enc seed s m blob n l"
  shows "k = l"
proof -
  note F = datagram_frame [OF cut n k refl, of seed s m] and G = datagram_frame [OF cut n l refl, of seed s m]
  have N: "unat n \<le> 32767" using num_frags_count [OF cut] frag_count_limits [OF cut] n by simp
  let ?f = "\<lambda>k. encode_frame (fragment_frame seed s m blob n (word_of_nat k))"
  have "?f k = ?f l" using datagram_dec [OF cut n k cipher, of seed s m] datagram_dec [OF cut n l cipher, of seed s m] eq
    by simp
  then have "decode_frame (?f k) = decode_frame (?f l)" by (rule arg_cong)
  then have "fragment_frame seed s m blob n (word_of_nat k) = fragment_frame seed s m blob n (word_of_nat l)"
    by (simp only: decode_encode_frame)
  then have "(word_of_nat k :: u16) = word_of_nat l" using F(9) G(9) by metis
  then have "unat (word_of_nat k :: u16) = unat (word_of_nat l :: u16)" by (rule arg_cong)
  then show ?thesis using k l N by (simp add: unsigned_of_nat take_bit_nat_eq_self)
qed

lemma getMessage_completes:
  assumes cut: "cut_ok blob maxsize" and n: "n = num_frags maxsize (u32_of (length blob))"
    and cipher: "cipher_ok enc dec" and has: "\<not> has s m" and built: "buildMessage blob = Built h msg"
  shows "holds (\<lambda>k. frag_data blob (unat n) (k - 1)) (unat n) S (collection fm (s, m)) \<Longrightarrow>
    S \<noteq> {1..unat n} \<Longrightarrow> \<forall>k\<in>{1..unat n} - S. datagram enc seed s m blob n k \<in> set qs \<Longrightarrow>
    \<forall>q\<in>set qs. dec q = None \<or> (\<exists>k\<in>{1..unat n}. q = datagram enc seed s m blob n k) \<Longrightarrow>
    \<exists>rest fm'. getMessage dec seed has qs fm = (Some (h, msg, rest), fm')"
proof (induction qs arbitrary: S fm)
  case Nil
  then show ?case by (auto simp: holds_def)
next
  case (Cons q qs)
  show ?case
  proof (cases "dec q = None")
    case True
    have "datagram enc seed s m blob n k \<noteq> q" if "k \<in> {1..unat n}" for k
      using True datagram_dec [OF cut n that cipher, of seed s m] by auto
    then have "\<exists>rest fm'. getMessage dec seed has qs fm = (Some (h, msg, rest), fm')"
      using Cons.prems by (intro Cons.IH [of S]) auto
    then show ?thesis using True by (simp add: receive_datagram_def)
  next
    case False
    then obtain k where k: "k \<in> {1..unat n}" "q = datagram enc seed s m blob n k"
      using Cons.prems(4) by auto
    note r = receive_fragment [of blob maxsize n k enc dec has s m S fm h msg seed,
      OF cut n k(1) cipher has Cons.prems(1) built, folded k(2)]
    show ?thesis
    proof (cases "k \<notin> S \<and> insert k S = {1..unat n}")
      case True
      then obtain fm' where "receive_datagram dec seed has q fm = (Received h msg, fm')"
        using r [unfolded if_P [OF True]] by blast
      then show ?thesis by simp
    next
      case more: False
      then obtain fm' where fm': "receive_datagram dec seed has q fm = (Collecting, fm')"
        "holds (\<lambda>k. frag_data blob (unat n) (k - 1)) (unat n) (insert k S) (collection fm' (s, m))"
        using r [unfolded if_not_P [OF more]] by blast
      have "insert k S \<noteq> {1..unat n}" using more Cons.prems(2) by (auto simp: insert_absorb)
      moreover have "datagram enc seed s m blob n l \<in> set qs" if "l \<in> {1..unat n} - insert k S" for l
        using Cons.prems(3) that k(2) datagram_inj [OF cut n k(1) _ cipher, of l seed s m]
        by (metis Diff_iff insert_iff set_ConsD)
      ultimately have "\<exists>rest fm''. getMessage dec seed has qs fm' = (Some (h, msg, rest), fm'')"
        using fm'(2) Cons.prems(4) by (intro Cons.IH [of "insert k S"]) simp_all
      then show ?thesis using fm'(1) by simp
    qed
  qed
qed

section \<open>Properties\<close>

lemma sendMessage_sent:
  assumes "cut_ok blob maxsize"
  shows "sendMessage enc shuffle seed maxsize s m blob =
    Sent (map (\<lambda>i. enc (encode_frame (fragment_frame seed s m blob (num_frags maxsize (u32_of (length blob))) i)))
      (shuffle (map word_of_nat [1..<Suc (frag_count blob maxsize)])))"
proof -
  define n where "n = num_frags maxsize (u32_of (length blob))"
  have n: "unat n = frag_count blob maxsize" "0 < unat n" "unat n \<le> 32767"
    using num_frags_count [OF assms] frag_count_limits [OF assms] by (simp_all add: n_def)
  have "n \<noteq> 0" using n(2) by auto
  moreover have "n \<noteq> - 1" using n(3) by (auto simp: unsigned_minus_1_eq_mask mask_eq_exp_minus_1)
  moreover have "\<not> bit n 31" by (simp add: bit_word.rep_eq not_less)
  then have "\<not> bit (ucast n :: u32) 31" by (simp add: bit_ucast_iff)
  then have "and (ucast n :: u32) (push_bit 31 1) = 0"
    using and_exp_eq_0_iff_not_bit [of "ucast n :: u32" 31] by (simp add: push_bit_eq_mult)
  ultimately show ?thesis
    using cut_ok_length [OF assms] n(1)
    by (simp add: sendMessage_def Let_def n_def [symmetric] fragment_numbers_def del: upt_Suc)
qed

text \<open>
  Claim C36. A message sent to a peer over datagrams is received unchanged. Whatever order the
  sender shuffles its fragments into, and in whatever order and however often the network
  delivers the datagrams, mixed with datagrams that do not decrypt, a receiver that has not
  seen the message returns it with its header once every datagram has arrived. The message is
  well formed, of a registered class, and fits into 32767 fragments; decrypting gives back what
  was encrypted.
\<close>

theorem udp_delivers_message:
  assumes "cipher_ok enc dec" "\<And>is. mset (shuffle is) = mset is"
    "message_wf m" "message_type_id m \<noteq> TYPE_ID_CREATEGROUP"
    "length buffer = unat (storageRequired m)" "length (mh_signature h) = MESSAGE_SIGNATURE_SIZE"
    "144 + unat (storageRequired m) \<le> 32767 * unat (max_fragment_size conf)"
    "\<not> has (mh_server_id h) (mh_message_id h)" "smap_find fm (mh_server_id h, mh_message_id h) = None"
  shows "\<exists>blob ps. makeMessageBlob h m buffer = Some blob \<and>
    sendMessage enc shuffle seed (max_fragment_size conf) (mh_server_id h) (mh_message_id h) blob = Sent ps \<and>
    (\<forall>qs. set ps \<subseteq> set qs \<and> (\<forall>q\<in>set qs. q \<in> set ps \<or> dec q = None) \<longrightarrow>
      (\<exists>rest fm'. getMessage dec seed has qs fm = (Some (h, m, rest), fm')))"
proof -
  obtain blob where blob: "makeMessageBlob h m buffer = Some blob" "buildMessage blob = Built h m"
    "blob \<noteq> []" "length blob = 144 + unat (storageRequired m)" using any_blob [OF assms(3-6)] by blast
  define s i n where "s = mh_server_id h" and "i = mh_message_id h"
    and "n = num_frags (max_fragment_size conf) (u32_of (length blob))"
  have cut: "cut_ok blob (max_fragment_size conf)"
    using blob assms(7) by (simp add: cut_ok_def max_fragment_size_limits)
  have N: "unat n = frag_count blob (max_fragment_size conf)" "0 < unat n"
    using num_frags_count [OF cut] frag_count_limits [OF cut] by (simp_all add: n_def)
  define ps where "ps = map (\<lambda>j. enc (encode_frame (fragment_frame seed s i blob n j)))
    (shuffle (map word_of_nat [1..<Suc (unat n)]))"
  have "set (shuffle (map word_of_nat [1..<Suc (unat n)])) = (word_of_nat ` {1..unat n} :: u16 set)"
    using mset_eq_setD [OF assms(2) [of "map word_of_nat [1..<Suc (unat n)]"]]
    by (simp add: atLeastLessThanSuc_atLeastAtMost del: upt_Suc)
  then have ps: "set ps = datagram enc seed s i blob n ` {1..unat n}"
    by (simp add: ps_def datagram_def image_image del: upt_Suc)
  have "sendMessage enc shuffle seed (max_fragment_size conf) s i blob = Sent ps"
    by (simp only: sendMessage_sent [OF cut] ps_def n_def [symmetric] N(1))
  moreover have "\<exists>rest fm'. getMessage dec seed has qs fm = (Some (h, m, rest), fm')"
    if qs: "set ps \<subseteq> set qs" "\<forall>q\<in>set qs. q \<in> set ps \<or> dec q = None" for qs
  proof (rule getMessage_completes [where S = "{}", OF cut n_def assms(1) _ blob(2)])
    show "\<not> has s i" using assms(8) by (simp add: s_def i_def)
    show "holds (\<lambda>k. frag_data blob (unat n) (k - 1)) (unat n) {} (collection fm (s, i))"
      using assms(9) holds_new by (simp add: s_def i_def)
  qed (use qs ps N(2) in auto)
  ultimately show ?thesis using blob(1) by (auto simp: s_def i_def)
qed

definition example_long :: SubmissionMessage where
  "example_long = example_submission\<lparr>sm_content := replicate 300 65\<rparr>"

theorem udp_delivers_message_witness:
  "\<exists>blob ps. makeMessageBlob example_head (M_Submission example_long) (replicate 328 0) = Some blob \<and>
    sendMessage id rev 7 (max_fragment_size 0) (mh_server_id example_head) (mh_message_id example_head) blob = Sent ps \<and>
    (\<forall>qs. set ps \<subseteq> set qs \<and> (\<forall>q\<in>set qs. q \<in> set ps \<or> Some q = None) \<longrightarrow>
      (\<exists>rest fm'. getMessage Some 7 (\<lambda>_ _. False) qs [] =
         (Some (example_head, M_Submission example_long, rest), fm')))"
  by (rule udp_delivers_message)
    (simp_all add: example_long_def example_submission_def example_head_def SubmissionMessage_wf_def
      no_nul_def type_id_defs SubmissionMessage_required_def u32_of_def cipher_ok_def
      max_fragment_size_def MIN_FRAGMENT_SIZE_def)



text \<open>
  Claim C39. The number of fragments is kept in 16 bits and the guard against too many fragments
  tests bit 31 of it, which is never set: a message of exactly 65536 fragments of full size makes
  the sender divide by zero instead of refusing it.
\<close>

theorem udp_fragment_count_wraps:
  assumes "length blob = 65536 * unat maxsize" "200 \<le> unat maxsize" "unat maxsize \<le> 1390"
  shows "sendMessage enc shuffle seed maxsize s m blob = Send_division_by_zero"
proof -
  define M where "M = unat maxsize"
  have M: "200 \<le> M" "M \<le> 1390" using assms by (simp_all add: M_def)
  have L: "length blob = 65536 * M" using assms(1) by (simp add: M_def)
  have "unat (u32_of (length blob)) = 65536 * M" using L M by (simp add: unat_of_size)
  moreover have d: "(65536 * M + (M - 1)) div M = 65536" using M by (intro div_nat_eqI) auto
  moreover have m: "unat (ucast maxsize :: u32) = M"
    using M by (simp add: unsigned_ucast_eq take_bit_nat_eq_self M_def)
  ultimately have "unat (u32_of (length blob) + ucast maxsize) = 65536 * M + M"
    using M by (simp add: unat_word_ariths)
  then have "unat (u32_of (length blob) + ucast maxsize - 1) = 65536 * M + (M - 1)"
    using M by (simp add: unat_sub_if')
  then have "unat ((u32_of (length blob) + ucast maxsize - 1) div ucast maxsize) = 65536"
    using d by (simp only: unat_div m)
  then have "unat (num_frags maxsize (u32_of (length blob))) = 0"
    by (simp add: num_frags_def unsigned_ucast_eq)
  then have "num_frags maxsize (u32_of (length blob)) = 0" by (simp add: unat_eq_0)
  moreover have "length blob \<noteq> 0" using L M by simp
  ultimately show ?thesis by (simp only: sendMessage_def Let_def if_False if_True simp_thms)
qed

theorem udp_fragment_count_wraps_witness:
  "sendMessage id id 7 200 3 17 (replicate 13107200 0) = Send_division_by_zero"
  by (rule udp_fragment_count_wraps) (simp_all only: length_replicate, simp_all)

text \<open>The delays in use and the limits they keep.\<close>

definition backoff_ok :: "backoff \<Rightarrow> bool" where
  "backoff_ok b \<longleftrightarrow> b_min_delay b \<le> b_init_delay b \<and> b_init_delay b \<le> b_max_delay b \<and>
     unat (b_max_delay b) < 2 ^ 31 \<and> smap_ok (b_map b) \<and>
     (\<forall>s v. smap_find (b_map b) s = Some v \<longrightarrow> b_min_delay b \<le> v \<and> v \<le> b_max_delay b)"

datatype backoff_op = Get_backoff u32 | Down_backoff u32

fun backoff_run :: "backoff_op list \<Rightarrow> backoff \<Rightarrow> u32 list" where
  "backoff_run [] b = []"
| "backoff_run (Get_backoff s # ops) b = (let (v, b') = getBackoff s b in v # backoff_run ops b')"
| "backoff_run (Down_backoff s # ops) b = backoff_run ops (downBackoff s b)"

lemma getBackoff_ok:
  assumes "backoff_ok b"
  shows "backoff_ok (snd (getBackoff s b)) \<and> b_min_delay b \<le> fst (getBackoff s b) \<and>
    fst (getBackoff s b) \<le> b_max_delay b \<and> b_min_delay (snd (getBackoff s b)) = b_min_delay b \<and>
    b_max_delay (snd (getBackoff s b)) = b_max_delay b"
proof (cases "smap_find (b_map b) s")
  case None
  then show ?thesis using assms
    by (auto simp: getBackoff_def backoff_ok_def smap_find_put smap_ok_put split: if_splits)
next
  case (Some v)
  then have v: "b_min_delay b \<le> v" "v \<le> b_max_delay b" and "unat (b_max_delay b) < 2 ^ 31"
    using assms by (auto simp: backoff_ok_def)
  then have v3: "unat v < 2 ^ 31" by (simp add: word_le_nat_alt)
  have "unat (v * 2) = unat v * 2" using v3 by (simp add: unat_word_ariths)
  then have "b_min_delay b \<le> v * 2" using v(1) by (simp add: word_le_nat_alt)
  then show ?thesis using assms Some v
    by (auto simp: getBackoff_def backoff_ok_def smap_find_put smap_ok_put split: if_splits)
qed

lemma downBackoff_ok:
  assumes "backoff_ok b"
  shows "backoff_ok (downBackoff s b) \<and> b_min_delay (downBackoff s b) = b_min_delay b \<and>
    b_max_delay (downBackoff s b) = b_max_delay b"
proof (cases "smap_find (b_map b) s")
  case (Some v)
  then have v: "b_min_delay b \<le> v" "v \<le> b_max_delay b" using assms by (auto simp: backoff_ok_def)
  have "v div 2 \<le> v" by (simp add: word_le_nat_alt unat_div)
  then have "v div 2 \<le> b_max_delay b" using v(2) by simp
  moreover have "b_min_delay b \<le> b_max_delay b" using v by simp
  ultimately show ?thesis using assms Some
    by (auto simp: downBackoff_def backoff_ok_def smap_find_put smap_ok_put not_less split: if_splits)
qed (simp add: downBackoff_def assms)

lemma backoff_run_bounds:
  "backoff_ok b \<Longrightarrow> list_all (\<lambda>v. b_min_delay b \<le> v \<and> v \<le> b_max_delay b) (backoff_run ops b)"
proof (induction ops arbitrary: b)
  case (Cons op ops)
  show ?case
  proof (cases op)
    case (Get_backoff s)
    obtain v b' where g: "getBackoff s b = (v, b')" by (cases "getBackoff s b")
    then have b': "backoff_ok b'" "b_min_delay b' = b_min_delay b" "b_max_delay b' = b_max_delay b"
      "b_min_delay b \<le> v \<and> v \<le> b_max_delay b"
      using getBackoff_ok [OF Cons.prems, of s] by simp_all
    show ?thesis using Cons.IH [OF b'(1)] b'(2-4) g by (simp add: Get_backoff)
  next
    case (Down_backoff s)
    have b': "backoff_ok (downBackoff s b)" "b_min_delay (downBackoff s b) = b_min_delay b"
      "b_max_delay (downBackoff s b) = b_max_delay b" using downBackoff_ok [OF Cons.prems, of s] by simp_all
    show ?thesis using Cons.IH [OF b'(1)] b'(2,3) by (simp add: Down_backoff)
  qed
qed simp

text \<open>
  With the delays configured below \<open>2 ^ 31\<close> microseconds, the delay between frames,
  doubled at every message and halved at every acknowledgement, stays between the minimum and
  the maximum that start-up settled on, and the minimum is at least 100.
\<close>

theorem backoff_within_limits:
  assumes "unat mx < 2 ^ 31" "unat mn < 2147483"
  shows "list_all (\<lambda>v. 100 \<le> v \<and> b_min_delay (udp_initialise init mn mx) \<le> v \<and>
    v \<le> b_max_delay (udp_initialise init mn mx)) (backoff_run ops (udp_initialise init mn mx))"
proof -
  define b where "b = udp_initialise init mn mx"
  define lo hi where "lo = b_min_delay b" and "hi = b_max_delay b"
  have lo: "100 \<le> unat lo" "unat lo < 2147483"
    using assms(2) by (auto simp: lo_def b_def udp_initialise_def Let_def word_less_nat_alt)
  have t: "unat (1000 * lo) = 1000 * unat lo" using lo by (simp add: unat_word_ariths)
  have hi: "hi = (if mx < 1000 * lo then 1000 * lo else mx)"
    by (simp add: hi_def lo_def b_def udp_initialise_def Let_def)
  have h: "1000 * unat lo \<le> unat hi" "unat hi < 2 ^ 31"
    using assms(1) t lo by (auto simp: hi word_less_nat_alt)
  have half: "unat (lo div 2 + hi div 2) = unat lo div 2 + unat hi div 2"
    using h(2) lo(2) by (simp add: unat_word_ariths unat_div)
  have init: "b_init_delay b = (if init < lo \<or> init > hi then lo div 2 + hi div 2 else init)"
    unfolding lo_def hi_def b_def udp_initialise_def Let_def by (simp only: backoff.select_convs)
  have "unat lo \<le> unat lo div 2 + unat hi div 2" "unat lo div 2 + unat hi div 2 \<le> unat hi"
    using h(1) lo(1) by linarith+
  then have "lo \<le> b_init_delay b \<and> b_init_delay b \<le> hi"
    using half by (auto simp: init word_le_nat_alt word_less_nat_alt)
  moreover have "b_map b = []" by (simp add: b_def udp_initialise_def Let_def)
  ultimately have "backoff_ok b" using h(2) by (simp add: backoff_ok_def lo_def hi_def)
  then have "list_all (\<lambda>v. b_min_delay b \<le> v \<and> v \<le> b_max_delay b) (backoff_run ops b)"
    by (rule backoff_run_bounds)
  moreover have "100 \<le> v" if "lo \<le> v" for v using that lo(1) by (simp add: word_le_nat_alt)
  ultimately show ?thesis unfolding b_def [symmetric] by (auto simp: list_all_iff lo_def)
qed

theorem backoff_within_limits_witness:
  "list_all (\<lambda>v. 100 \<le> v \<and> b_min_delay (udp_initialise 5 200 1000000) \<le> v \<and>
      v \<le> b_max_delay (udp_initialise 5 200 1000000))
    (backoff_run [Get_backoff 2, Get_backoff 2, Down_backoff 2, Get_backoff 2] (udp_initialise 5 200 1000000))"
  by (rule backoff_within_limits) simp_all

end
