(* ===== verification/Db.thy ===== *)
theory Db
  imports Std_Map Numerals Wire "HOL-Library.Product_Lexorder"
begin

text \<open>
  The database behind \<^verbatim>\<open>DbCon\<close>: the tables of \<^verbatim>\<open>db/structure.sql\<close> and the statements that
  \<^verbatim>\<open>src/dbmysql.C\<close> executes on them. A table is a map from its primary key to the other columns,
  scanned in the order of the key. A statement on an open connection fails only when an
  \<^verbatim>\<open>INSERT\<close> meets a row with the same unique key; a connection that cannot be opened is an
  outcome of the callers. Column widths are not modelled and text columns compare exactly.
  \<^verbatim>\<open>ORDER BY\<close> is a stable sort of the scan.
\<close>

section \<open>Schema\<close>

record user_row =
  u_username :: string
  u_friendlyname :: string
  u_password :: string
  u_type :: u32
  u_group :: u32
  u_bonus_points :: int
  u_bonus_seconds :: int

record submission_row =
  s_user_id :: u32
  s_prob_id :: u32
  s_time :: u32
  s_server_id :: u32
  s_content :: bytes
  s_language :: string

record mark_row =
  m_mark_time :: time_t
  m_result :: u32
  m_remark :: string
  m_server_id :: u32

record problem_row =
  p_updated :: time_t
  p_type :: string

record request_row =
  q_user_id :: u32
  q_time :: time_t
  q_problem_id :: u32
  q_text :: string

record clarification_row =
  c_req_id :: u32
  c_user_id :: u32
  c_time :: time_t
  c_public :: bool
  c_text :: string

record peer_row =
  r_type_id :: u32
  r_time :: u32
  r_signature :: bytes
  r_data :: bytes
  r_processed :: bool

record db =
  t_Server :: "(u32, string) smap"
  t_ServerAttributes :: "(u32 \<times> string, string) smap"
  t_User :: "(u32, user_row) smap"
  t_Group :: "(u32, string) smap"
  t_Submission :: "(u32, submission_row) smap"
  t_SubmissionMark :: "(u32 \<times> u32, mark_row) smap"
  t_SubmissionMarkFile :: "(u32 \<times> u32 \<times> string, bytes) smap"
  t_Problem :: "(u32, problem_row) smap"
  t_ProblemAttributes :: "(u32 \<times> string, string) smap"
  t_ProblemFileData :: "(u32 \<times> string, bytes) smap"
  t_ProblemDependencies :: "(u32 \<times> u32, unit) smap"
  t_ClarificationRequest :: "(u32, request_row) smap"
  t_Clarification :: "(u32, clarification_row) smap"
  t_PeerMessage :: "(u32 \<times> u32, peer_row) smap"
  t_PeerMessageNoAck :: "(u32 \<times> u32 \<times> u32, u32) smap"

definition db_empty :: db where
  "db_empty = \<lparr>t_Server = [], t_ServerAttributes = [], t_User = [], t_Group = [], t_Submission = [],
     t_SubmissionMark = [], t_SubmissionMarkFile = [], t_Problem = [], t_ProblemAttributes = [],
     t_ProblemFileData = [], t_ProblemDependencies = [], t_ClarificationRequest = [],
     t_Clarification = [], t_PeerMessage = [], t_PeerMessageNoAck = []\<rparr>"

section \<open>Statements\<close>

text \<open>\<^verbatim>\<open>INSERT\<close> refuses a duplicate key; \<^verbatim>\<open>UPDATE\<close> of a row that is not there does nothing.\<close>

definition insert_row :: "'k::linorder \<Rightarrow> 'v \<Rightarrow> ('k, 'v) smap \<Rightarrow> ('k, 'v) smap option" where
  "insert_row k v t = (if smap_find t k = None then Some (smap_put k v t) else None)"

definition update_row :: "'k::linorder \<Rightarrow> ('v \<Rightarrow> 'v) \<Rightarrow> ('k, 'v) smap \<Rightarrow> ('k, 'v) smap" where
  "update_row k f t = (case smap_find t k of None \<Rightarrow> t | Some v \<Rightarrow> smap_put k (f v) t)"

text \<open>
  \<^verbatim>\<open>INSERT ... SELECT\<close> of several keys: one duplicate makes the whole statement fail and
  leaves the table as it was.
\<close>

definition insert_all :: "'k::linorder list \<Rightarrow> 'v \<Rightarrow> ('k, 'v) smap \<Rightarrow> ('k, 'v) smap option" where
  "insert_all ks v t =
     (if \<exists>k\<in>set ks. smap_find t k \<noteq> None then None else Some (fold (\<lambda>k. smap_put k v) ks t))"

text \<open>
  \<^verbatim>\<open>SELECT MAX(id)\<close> over the ids of one server: 0 when there is no row. The callers read the
  number as \<^verbatim>\<open>uint32_t\<close>.
\<close>

definition ID_GRANULARITY :: u32 where "ID_GRANULARITY = 16"

definition select_max :: "u32 list \<Rightarrow> u32" where
  "select_max ids = (if ids = [] then 0 else Max (set ids))"

definition own_ids :: "u32 \<Rightarrow> (u32, 'v) smap \<Rightarrow> u32 list" where
  "own_ids me t = filter (\<lambda>i. and i (ID_GRANULARITY - 1) = me) (map fst t)"

section \<open>Servers and peer messages\<close>

definition getServers :: "db \<Rightarrow> (u32, string) smap" where
  "getServers d = fold (\<lambda>(i, n). smap_put i n) (t_Server d) []"

definition getServerAttribute :: "u32 \<Rightarrow> string \<Rightarrow> db \<Rightarrow> string" where
  "getServerAttribute server_id attribute d =
     (case smap_find (t_ServerAttributes d) (server_id, attribute) of Some v \<Rightarrow> v | None \<Rightarrow> [])"

definition setServerAttribute :: "u32 \<Rightarrow> string \<Rightarrow> string \<Rightarrow> db \<Rightarrow> db" where
  "setServerAttribute server_id attribute v d =
     (case insert_row (server_id, attribute) v (t_ServerAttributes d) of
        Some t \<Rightarrow> d\<lparr>t_ServerAttributes := t\<rparr>
      | None \<Rightarrow> d\<lparr>t_ServerAttributes :=
                    update_row (server_id, attribute) (\<lambda>_. v) (t_ServerAttributes d)\<rparr>)"

definition server_id :: "string \<Rightarrow> db \<Rightarrow> u32" where
  "server_id name d = (case filter (\<lambda>(i, n). n = name) (t_Server d) of [] \<Rightarrow> 0 | (i, n) # _ \<Rightarrow> i)"

definition servername :: "u32 \<Rightarrow> db \<Rightarrow> string" where
  "servername i d = (case smap_find (t_Server d) i of Some n \<Rightarrow> n | None \<Rightarrow> [])"

text \<open>
  \<^verbatim>\<open>putLocalMessage\<close> on the row of a message that \<^verbatim>\<open>makeMessage\<close> has just packed: the next
  number after this server's largest, and one row in \<^verbatim>\<open>PeerMessageNoAck\<close> for every other
  server. \<open>me\<close> is \<^verbatim>\<open>Server::getId()\<close>, which is also the server of the message.
\<close>

definition next_message_id :: "u32 \<Rightarrow> db \<Rightarrow> u32" where
  "next_message_id me d = select_max (map (snd \<circ> fst) (filter (\<lambda>((s, i), r). s = me) (t_PeerMessage d))) + 1"

definition add_noack :: "u32 \<Rightarrow> u32 \<Rightarrow> u32 list \<Rightarrow> db \<Rightarrow> db" where
  "add_noack s i servers d =
     (case insert_all (map (\<lambda>a. (s, i, a)) servers) 0 (t_PeerMessageNoAck d) of
        None \<Rightarrow> d | Some t \<Rightarrow> d\<lparr>t_PeerMessageNoAck := t\<rparr>)"

definition putLocalMessage :: "u32 \<Rightarrow> (u32 \<Rightarrow> peer_row) \<Rightarrow> db \<Rightarrow> (u32 \<times> db) option" where
  "putLocalMessage me row d =
     (let i = next_message_id me d
      in case insert_row (me, i) (row i) (t_PeerMessage d) of
           None \<Rightarrow> None
         | Some t \<Rightarrow> Some (i, add_noack me i (filter (\<lambda>s. s \<noteq> me) (map fst (t_Server d)))
                                (d\<lparr>t_PeerMessage := t\<rparr>)))"

definition putRemoteMessage :: "u32 \<Rightarrow> u32 \<Rightarrow> u32 \<Rightarrow> peer_row \<Rightarrow> db \<Rightarrow> db option" where
  "putRemoteMessage me s i row d =
     (case insert_row (s, i) row (t_PeerMessage d) of
        None \<Rightarrow> None
      | Some t \<Rightarrow> Some (add_noack s i (filter (\<lambda>a. a \<noteq> me \<and> a \<noteq> s) (map fst (t_Server d)))
                         (d\<lparr>t_PeerMessage := t\<rparr>)))"

definition getRemoteServers :: "u32 \<Rightarrow> db \<Rightarrow> u32 list" where
  "getRemoteServers me d = filter (\<lambda>s. s \<noteq> me) (map fst (t_Server d))"

definition markProcessed :: "u32 \<Rightarrow> u32 \<Rightarrow> db \<Rightarrow> db" where
  "markProcessed s i d =
     d\<lparr>t_PeerMessage := update_row (s, i) (\<lambda>r. r\<lparr>r_processed := True\<rparr>) (t_PeerMessage d)\<rparr>"

text \<open>A new server owes an acknowledgement for every message there is.\<close>

definition addServer :: "u32 \<Rightarrow> string \<Rightarrow> u32 \<Rightarrow> db \<Rightarrow> db option" where
  "addServer me name i d =
     (case insert_row i name (t_Server d) of
        None \<Rightarrow> None
      | Some t \<Rightarrow>
          (let d1 = d\<lparr>t_Server := t\<rparr>
           in if i = me then Some d1
              else case insert_all (map (\<lambda>((s, m), r). (s, m, i)) (t_PeerMessage d1)) 0
                          (t_PeerMessageNoAck d1) of
                     None \<Rightarrow> Some d1
                   | Some n \<Rightarrow> Some (d1\<lparr>t_PeerMessageNoAck := n\<rparr>)))"

text \<open>The rows from which \<^verbatim>\<open>getMessages\<close> rebuilds messages, in ascending time.\<close>

definition getUnprocessedMessages :: "db \<Rightarrow> ((u32 \<times> u32) \<times> peer_row) list" where
  "getUnprocessedMessages d =
     sort_key (r_time \<circ> snd) (filter (\<lambda>(k, r). \<not> r_processed r) (t_PeerMessage d))"

definition getUnacked :: "u32 \<Rightarrow> u32 \<Rightarrow> u32 \<Rightarrow> db \<Rightarrow> ((u32 \<times> u32) \<times> peer_row) list" where
  "getUnacked server type_id limit d =
     (let rows = sort_key (r_time \<circ> snd)
            (filter (\<lambda>((s, i), r). smap_find (t_PeerMessageNoAck d) (s, i, server) \<noteq> None \<and>
               (type_id \<noteq> 0 \<longrightarrow> r_type_id r = type_id)) (t_PeerMessage d))
      in if limit = 0 then rows else take (unat limit) rows)"

definition ackMessage :: "u32 \<Rightarrow> u32 \<Rightarrow> u32 \<Rightarrow> db \<Rightarrow> db" where
  "ackMessage s i ack_server d =
     d\<lparr>t_PeerMessageNoAck := smap_erase (s, i, ack_server) (t_PeerMessageNoAck d)\<rparr>"

definition hasMessage :: "u32 \<Rightarrow> u32 \<Rightarrow> db \<Rightarrow> bool" where
  "hasMessage s i d \<longleftrightarrow> smap_find (t_PeerMessage d) (s, i) \<noteq> None"

definition maxServerId :: "db \<Rightarrow> u32" where
  "maxServerId d = (if t_Server d = [] then - 1 else select_max (map fst (t_Server d)))"

definition maxUserId :: "u32 \<Rightarrow> db \<Rightarrow> u32" where
  "maxUserId me d = select_max (own_ids me (t_User d))"

definition maxGroupId :: "u32 \<Rightarrow> db \<Rightarrow> u32" where
  "maxGroupId me d = select_max (own_ids me (t_Group d))"

definition maxSubmissionId :: "u32 \<Rightarrow> db \<Rightarrow> u32" where
  "maxSubmissionId me d = select_max (own_ids me (t_Submission d))"

definition maxClarificationReqId :: "u32 \<Rightarrow> db \<Rightarrow> u32" where
  "maxClarificationReqId me d = select_max (own_ids me (t_ClarificationRequest d))"

definition maxClarificationId :: "u32 \<Rightarrow> db \<Rightarrow> u32" where
  "maxClarificationId me d = select_max (own_ids me (t_Clarification d))"

definition maxProblemId :: "u32 \<Rightarrow> db \<Rightarrow> u32" where
  "maxProblemId me d = select_max (own_ids me (t_Problem d))"

end
