(* ===== verification/Db_Contest.thy ===== *)
theory Db_Contest
  imports Db
begin

text \<open>
  The statements of \<^verbatim>\<open>src/dbmysql.C\<close> about problems, submissions, marks and clarifications, and
  those of \<^verbatim>\<open>src/support_user.C\<close> about users and groups, on the tables of \<open>Db\<close>.
\<close>

section \<open>Attribute lists\<close>

text \<open>\<^verbatim>\<open>AttributeList\<close>: a map from names to texts.\<close>

type_synonym attributes = "(string, string) smap"

definition attrs :: "(string \<times> string) list \<Rightarrow> attributes" where
  "attrs kvs = fold (\<lambda>(k, v). smap_put k v) kvs []"

definition attr :: "attributes \<Rightarrow> string \<Rightarrow> string" where
  "attr m k = (case smap_find m k of Some v \<Rightarrow> v | None \<Rightarrow> [])"

definition u32_text :: "u32 \<Rightarrow> string" where
  "u32_text w = to_string (uint w)"

section \<open>Users and groups\<close>

definition user_column :: "(user_row \<Rightarrow> 'a) \<Rightarrow> 'a \<Rightarrow> u32 \<Rightarrow> db \<Rightarrow> 'a" where
  "user_column col dflt i d = (case smap_find (t_User d) i of Some r \<Rightarrow> col r | None \<Rightarrow> dflt)"

definition username :: "u32 \<Rightarrow> db \<Rightarrow> string" where
  "username i d = user_column u_username [] i d"

definition friendlyname :: "u32 \<Rightarrow> db \<Rightarrow> string" where
  "friendlyname i d = user_column u_friendlyname [] i d"

definition usertype :: "u32 \<Rightarrow> db \<Rightarrow> u32" where
  "usertype i d = user_column u_type (- 1) i d"

definition user_group :: "u32 \<Rightarrow> db \<Rightarrow> u32" where
  "user_group i d = user_column u_group (- 1) i d"

definition user_bonus :: "u32 \<Rightarrow> db \<Rightarrow> (int \<times> int) option" where
  "user_bonus i d = user_column (\<lambda>r. Some (u_bonus_points r, u_bonus_seconds r)) None i d"

definition groupname :: "u32 \<Rightarrow> db \<Rightarrow> string" where
  "groupname i d = (case smap_find (t_Group d) i of Some n \<Rightarrow> n | None \<Rightarrow> [])"

definition user_id :: "string \<Rightarrow> db \<Rightarrow> u32" where
  "user_id name d = (case filter (\<lambda>(i, r). u_username r = name) (t_User d) of [] \<Rightarrow> 0 | (i, r) # _ \<Rightarrow> i)"

definition group_id :: "string \<Rightarrow> db \<Rightarrow> u32" where
  "group_id name d = (case filter (\<lambda>(i, n). n = name) (t_Group d) of [] \<Rightarrow> 0 | (i, n) # _ \<Rightarrow> i)"

text \<open>User names and group names are unique keys besides the primary key.\<close>

definition addUser ::
  "u32 \<Rightarrow> string \<Rightarrow> string \<Rightarrow> string \<Rightarrow> u32 \<Rightarrow> u32 \<Rightarrow> db \<Rightarrow> db option" where
  "addUser i name friendly password ty grp d =
     (if list_ex (\<lambda>(j, r). u_username r = name) (t_User d) then None
      else map_option (\<lambda>t. d\<lparr>t_User := t\<rparr>)
        (insert_row i \<lparr>u_username = name, u_friendlyname = friendly, u_password = password,
           u_type = ty, u_group = grp, u_bonus_points = 0, u_bonus_seconds = 0\<rparr> (t_User d)))"

definition addGroup :: "u32 \<Rightarrow> string \<Rightarrow> db \<Rightarrow> db option" where
  "addGroup i name d =
     (if list_ex (\<lambda>(j, n). n = name) (t_Group d) then None
      else map_option (\<lambda>t. d\<lparr>t_Group := t\<rparr>) (insert_row i name (t_Group d)))"

definition userList :: "db \<Rightarrow> (u32 \<times> string) list" where
  "userList d = map (\<lambda>(i, r). (i, u_username r)) (t_User d)"

definition groupList :: "db \<Rightarrow> (u32 \<times> string) list" where
  "groupList d = t_Group d"

text \<open>
  \<^verbatim>\<open>authenticate\<close>; \<open>hash\<close> is \<^verbatim>\<open>hashpw\<close>. None is the answer 0, a wrong name or password.
\<close>

definition authenticate ::
  "(string \<Rightarrow> string \<Rightarrow> string) \<Rightarrow> string \<Rightarrow> string \<Rightarrow> db \<Rightarrow> (u32 \<times> u32 \<times> u32) option" where
  "authenticate hash uname pass d =
     (case filter (\<lambda>(i, r). u_username r = uname \<and> u_password r = hash uname pass) (t_User d) of
        [] \<Rightarrow> None | (i, r) # _ \<Rightarrow> Some (i, u_type r, u_group r))"

section \<open>Problems\<close>

definition getProblems :: "db \<Rightarrow> u32 list" where
  "getProblems d = map fst (t_Problem d)"

definition getProblemUpdateTime :: "u32 \<Rightarrow> db \<Rightarrow> time_t" where
  "getProblemUpdateTime i d = (case smap_find (t_Problem d) i of Some r \<Rightarrow> p_updated r | None \<Rightarrow> 4294967295)"

definition setProblemUpdateTime :: "u32 \<Rightarrow> time_t \<Rightarrow> db \<Rightarrow> db" where
  "setProblemUpdateTime i t d = d\<lparr>t_Problem := update_row i (\<lambda>r. r\<lparr>p_updated := t\<rparr>) (t_Problem d)\<rparr>"

definition getProblemType :: "u32 \<Rightarrow> db \<Rightarrow> string" where
  "getProblemType i d = (case smap_find (t_Problem d) i of Some r \<Rightarrow> p_type r | None \<Rightarrow> [])"

definition setProblemType :: "u32 \<Rightarrow> string \<Rightarrow> db \<Rightarrow> db" where
  "setProblemType i ty d = d\<lparr>t_Problem :=
     (case insert_row i \<lparr>p_updated = 0, p_type = ty\<rparr> (t_Problem d) of
        Some t \<Rightarrow> t | None \<Rightarrow> update_row i (\<lambda>r. r\<lparr>p_type := ty\<rparr>) (t_Problem d))\<rparr>"

definition getProblemAttributes :: "u32 \<Rightarrow> db \<Rightarrow> attributes" where
  "getProblemAttributes i d =
     attrs (map (\<lambda>((p, a), v). (a, v)) (filter (\<lambda>((p, a), v). p = i) (t_ProblemAttributes d)))"

definition delProblemAttribute :: "u32 \<Rightarrow> string \<Rightarrow> db \<Rightarrow> db" where
  "delProblemAttribute i a d =
     d\<lparr>t_ProblemAttributes := smap_erase (i, a) (t_ProblemAttributes d),
       t_ProblemFileData := smap_erase (i, a) (t_ProblemFileData d)\<rparr>"

text \<open>The attribute is deleted first, so the insertions cannot meet a duplicate.\<close>

definition setProblemAttribute :: "u32 \<Rightarrow> string \<Rightarrow> string \<Rightarrow> db \<Rightarrow> db option" where
  "setProblemAttribute i a v d =
     (let d1 = delProblemAttribute i a d
      in map_option (\<lambda>t. d1\<lparr>t_ProblemAttributes := t\<rparr>) (insert_row (i, a) v (t_ProblemAttributes d1)))"

definition setProblemAttribute_int :: "u32 \<Rightarrow> string \<Rightarrow> u32 \<Rightarrow> db \<Rightarrow> db option" where
  "setProblemAttribute_int i a v d = setProblemAttribute i a (to_string (sint v)) d"

definition setProblemAttribute_file :: "u32 \<Rightarrow> string \<Rightarrow> string \<Rightarrow> bytes \<Rightarrow> db \<Rightarrow> db option" where
  "setProblemAttribute_file i a fname data d =
     (case setProblemAttribute i a fname d of
        None \<Rightarrow> None
      | Some d1 \<Rightarrow> map_option (\<lambda>t. d1\<lparr>t_ProblemFileData := t\<rparr>)
                     (insert_row (i, a) data (t_ProblemFileData d1)))"

definition getProblemFileData :: "u32 \<Rightarrow> string \<Rightarrow> db \<Rightarrow> bytes option" where
  "getProblemFileData i a d = smap_find (t_ProblemFileData d) (i, a)"

definition delProblemDependency :: "u32 \<Rightarrow> u32 \<Rightarrow> db \<Rightarrow> db" where
  "delProblemDependency i dep d =
     d\<lparr>t_ProblemDependencies := smap_erase (i, dep) (t_ProblemDependencies d)\<rparr>"

definition addProblemDependency :: "u32 \<Rightarrow> u32 \<Rightarrow> db \<Rightarrow> db option" where
  "addProblemDependency i dep d =
     map_option (\<lambda>t. d\<lparr>t_ProblemDependencies := t\<rparr>) (insert_row (i, dep) () (t_ProblemDependencies d))"

definition getProblemDependencies :: "u32 \<Rightarrow> db \<Rightarrow> u32 list" where
  "getProblemDependencies i d =
     filter (\<lambda>p. smap_find (t_ProblemDependencies d) (i, p) \<noteq> None) (map fst (t_Problem d))"

section \<open>Submissions and marks\<close>

definition putSubmission ::
  "u32 \<Rightarrow> u32 \<Rightarrow> u32 \<Rightarrow> u32 \<Rightarrow> u32 \<Rightarrow> bytes \<Rightarrow> string \<Rightarrow> db \<Rightarrow> db option" where
  "putSubmission i user prob t server content language d =
     map_option (\<lambda>s. d\<lparr>t_Submission := s\<rparr>)
       (insert_row i \<lparr>s_user_id = user, s_prob_id = prob, s_time = t, s_server_id = server,
          s_content = content, s_language = language\<rparr> (t_Submission d))"

text \<open>
  The rows of the join of \<^verbatim>\<open>User\<close>, \<^verbatim>\<open>Submission\<close> and the \<^verbatim>\<open>shortname\<close> attribute, as
  \<^verbatim>\<open>getSubmission\<close> and \<^verbatim>\<open>getSubmissions\<close> return them.
\<close>

definition submission_attrs :: "db \<Rightarrow> u32 \<times> submission_row \<Rightarrow> attributes list" where
  "submission_attrs d s = (case s of (i, r) \<Rightarrow>
     (case (smap_find (t_User d) (s_user_id r), smap_find (t_ProblemAttributes d) (s_prob_id r, ''shortname'')) of
        (Some u, Some short) \<Rightarrow>
          [attrs [(''submission_id'', u32_text i), (''time'', u32_text (s_time r)), (''problem'', short),
             (''prob_id'', u32_text (s_prob_id r)), (''group_id'', u32_text (u_group u))]]
      | _ \<Rightarrow> []))"

definition getSubmission :: "u32 \<Rightarrow> db \<Rightarrow> attributes" where
  "getSubmission i d = (case smap_find (t_Submission d) i of
       None \<Rightarrow> []
     | Some r \<Rightarrow> (case submission_attrs d (i, r) of [] \<Rightarrow> [] | a # _ \<Rightarrow> a))"

definition getSubmissions :: "u32 \<Rightarrow> db \<Rightarrow> attributes list" where
  "getSubmissions uid d = concat (map (submission_attrs d)
     (filter (\<lambda>(i, r). uid \<noteq> 0 \<longrightarrow> s_user_id r = uid) (t_Submission d)))"

definition retrieveSubmission :: "u32 \<Rightarrow> u32 \<Rightarrow> db \<Rightarrow> (string \<times> string \<times> u32) option" where
  "retrieveSubmission user i d = (case smap_find (t_Submission d) i of
       None \<Rightarrow> None
     | Some r \<Rightarrow> if user \<noteq> 0 \<and> s_user_id r \<noteq> user then None
                 else Some (string_of_bytes (s_content r), s_language r, s_prob_id r))"

definition getUnmarked :: "u32 \<Rightarrow> db \<Rightarrow> u32 list" where
  "getUnmarked server d = map fst (sort_key (s_time \<circ> snd)
     (filter (\<lambda>(i, r). \<not> list_ex (\<lambda>((j, marker), m). j = i \<and> m_server_id m = server) (t_SubmissionMark d))
        (t_Submission d)))"

definition putMark :: "u32 \<Rightarrow> u32 \<Rightarrow> time_t \<Rightarrow> u32 \<Rightarrow> string \<Rightarrow> u32 \<Rightarrow> db \<Rightarrow> db" where
  "putMark i marker t res comment server d =
     d\<lparr>t_SubmissionMark := smap_put (i, marker)
         \<lparr>m_mark_time = t, m_result = res, m_remark = comment, m_server_id = server\<rparr>
         (t_SubmissionMark d)\<rparr>"

definition putMarkFile :: "u32 \<Rightarrow> u32 \<Rightarrow> string \<Rightarrow> bytes \<Rightarrow> db \<Rightarrow> db option" where
  "putMarkFile i marker name data d =
     map_option (\<lambda>t. d\<lparr>t_SubmissionMarkFile := t\<rparr>)
       (insert_row (i, marker, name) data (t_SubmissionMarkFile d))"

definition mark_files :: "u32 \<Rightarrow> db \<Rightarrow> (string \<times> bytes) list" where
  "mark_files i d = map (\<lambda>((j, marker, name), data). (name, data))
     (filter (\<lambda>((j, marker, name), data). j = i) (t_SubmissionMarkFile d))"

definition countMarkFiles :: "u32 \<Rightarrow> db \<Rightarrow> u32" where
  "countMarkFiles i d = u32_of (length (mark_files i d))"

definition getMarkFile :: "u32 \<Rightarrow> u32 \<Rightarrow> db \<Rightarrow> (string \<times> bytes) option" where
  "getMarkFile i n d = (case drop (unat n) (mark_files i d) of [] \<Rightarrow> None | f # _ \<Rightarrow> Some f)"

text \<open>The marks of a submission by users that exist, with the type of the marker.\<close>

definition marks_of :: "u32 \<Rightarrow> db \<Rightarrow> (mark_row \<times> u32) list" where
  "marks_of i d = concat (map (\<lambda>((j, marker), m).
     if j = i then (case smap_find (t_User d) marker of Some u \<Rightarrow> [(m, u_type u)] | None \<Rightarrow> []) else [])
     (t_SubmissionMark d))"

definition getSubmissionState :: "u32 \<Rightarrow> db \<Rightarrow> (u32 \<times> u32 \<times> string) option" where
  "getSubmissionState i d = (case sort_key snd (marks_of i d) of
       [] \<Rightarrow> None | (m, ty) # _ \<Rightarrow> Some (m_result m, ty, m_remark m))"

definition submission2user_id :: "u32 \<Rightarrow> db \<Rightarrow> u32" where
  "submission2user_id i d = (case smap_find (t_Submission d) i of Some r \<Rightarrow> s_user_id r | None \<Rightarrow> - 1)"

definition submission2server_id :: "u32 \<Rightarrow> db \<Rightarrow> u32" where
  "submission2server_id i d = (case smap_find (t_Submission d) i of Some r \<Rightarrow> s_server_id r | None \<Rightarrow> - 1)"

definition submission2problem :: "u32 \<Rightarrow> db \<Rightarrow> string" where
  "submission2problem i d = (case smap_find (t_Submission d) i of
       None \<Rightarrow> []
     | Some r \<Rightarrow> (case smap_find (t_ProblemAttributes d) (s_prob_id r, ''shortname'') of
           Some v \<Rightarrow> v | None \<Rightarrow> []))"

text \<open>
  \<^verbatim>\<open>hasSolved\<close> looks at the mark with the latest \<^verbatim>\<open>mark_time\<close> of each submission, whoever gave
  it; result 0 is \<^verbatim>\<open>CORRECT\<close>.
\<close>

definition latest_result :: "u32 \<Rightarrow> db \<Rightarrow> u32 option" where
  "latest_result i d = (case sort_key (\<lambda>m. - m_mark_time m)
       (map snd (filter (\<lambda>((j, marker), m). j = i) (t_SubmissionMark d))) of
       [] \<Rightarrow> None | m # _ \<Rightarrow> Some (m_result m))"

definition hasSolved :: "u32 \<Rightarrow> u32 \<Rightarrow> db \<Rightarrow> bool" where
  "hasSolved user prob d =
     list_ex (\<lambda>(i, r). s_user_id r = user \<and> s_prob_id r = prob \<and> latest_result i d = Some 0) (t_Submission d)"

definition getDependentProblemsPending :: "u32 \<Rightarrow> u32 \<Rightarrow> db \<Rightarrow> u32 list" where
  "getDependentProblemsPending user prob d =
     filter (\<lambda>p. \<not> hasSolved user p d) (getProblemDependencies prob d)"

definition isSubmissionAllowed :: "u32 \<Rightarrow> u32 \<Rightarrow> db \<Rightarrow> bool" where
  "isSubmissionAllowed user prob d \<longleftrightarrow> length (getDependentProblemsPending user prob d) = 0"

section \<open>Clarifications\<close>

definition putClarificationRequest :: "u32 \<Rightarrow> u32 \<Rightarrow> u32 \<Rightarrow> time_t \<Rightarrow> string \<Rightarrow> db \<Rightarrow> db option" where
  "putClarificationRequest i user prob t question d =
     map_option (\<lambda>s. d\<lparr>t_ClarificationRequest := s\<rparr>)
       (insert_row i \<lparr>q_user_id = user, q_time = t, q_problem_id = prob, q_text = question\<rparr>
          (t_ClarificationRequest d))"

definition putClarification :: "u32 \<Rightarrow> u32 \<Rightarrow> u32 \<Rightarrow> time_t \<Rightarrow> u32 \<Rightarrow> string \<Rightarrow> db \<Rightarrow> db option" where
  "putClarification req i user t pub answer d =
     map_option (\<lambda>s. d\<lparr>t_Clarification := s\<rparr>)
       (insert_row i \<lparr>c_req_id = req, c_user_id = user, c_time = t, c_public = (pub \<noteq> 0), c_text = answer\<rparr>
          (t_Clarification d))"

definition problem_name :: "u32 \<Rightarrow> db \<Rightarrow> string" where
  "problem_name prob d = (case smap_find (t_ProblemAttributes d) (prob, ''shortname'') of
       Some v \<Rightarrow> v | None \<Rightarrow> ''General'')"

definition request_attrs :: "db \<Rightarrow> u32 \<times> request_row \<Rightarrow> attributes" where
  "request_attrs d q = (case q of (i, r) \<Rightarrow>
     attrs [(''id'', u32_text i), (''user_id'', u32_text (q_user_id r)),
       (''problem'', problem_name (q_problem_id r) d), (''time'', to_string (q_time r)),
       (''question'', q_text r)])"

definition getClarificationRequest :: "u32 \<Rightarrow> db \<Rightarrow> attributes" where
  "getClarificationRequest i d = (case smap_find (t_ClarificationRequest d) i of
       None \<Rightarrow> [] | Some r \<Rightarrow> request_attrs d (i, r))"

definition getClarificationRequests :: "u32 \<Rightarrow> db \<Rightarrow> attributes list" where
  "getClarificationRequests uid d = map (request_attrs d) (sort_key (q_time \<circ> snd)
     (filter (\<lambda>(i, r). uid \<noteq> 0 \<longrightarrow> q_user_id r = uid) (t_ClarificationRequest d)))"

text \<open>
  A clarification is joined with its request on the left, and the text of a request that is not
  there is a null pointer from which the code makes a string: None.
\<close>

definition clarification_attrs :: "db \<Rightarrow> u32 \<times> clarification_row \<Rightarrow> attributes option" where
  "clarification_attrs d c = (case c of (i, r) \<Rightarrow>
     (case smap_find (t_ClarificationRequest d) (c_req_id r) of
        None \<Rightarrow> None
      | Some q \<Rightarrow> Some (attrs [(''id'', u32_text i), (''req_id'', u32_text (c_req_id r)),
          (''problem'', problem_name (q_problem_id q) d), (''time'', to_string (c_time r)),
          (''question'', q_text q), (''answer'', c_text r)])))"

definition getClarification :: "u32 \<Rightarrow> db \<Rightarrow> attributes option" where
  "getClarification i d = (case smap_find (t_Clarification d) i of
       None \<Rightarrow> Some [] | Some r \<Rightarrow> clarification_attrs d (i, r))"

fun all_some :: "'a option list \<Rightarrow> 'a list option" where
  "all_some [] = Some []"
| "all_some (x # xs) = (case x of None \<Rightarrow> None | Some y \<Rightarrow> map_option ((#) y) (all_some xs))"

definition getClarifications :: "u32 \<Rightarrow> db \<Rightarrow> attributes list option" where
  "getClarifications uid d = all_some (map (clarification_attrs d) (sort_key (c_time \<circ> snd)
     (filter (\<lambda>(i, r). uid \<noteq> 0 \<longrightarrow> c_public r \<or>
        (case smap_find (t_ClarificationRequest d) (c_req_id r) of Some q \<Rightarrow> q_user_id q = uid | None \<Rightarrow> False))
       (t_Clarification d))))"

end
