(* ===== verification/Ids.thy ===== *)
theory Ids
  imports Db_Contest
begin

text \<open>
  How a server numbers the things it creates: \<^verbatim>\<open>Server::next...Id\<close> in \<^verbatim>\<open>src/server.C\<close> and
  \<^verbatim>\<open>UserSupportModule::nextId\<close> and \<^verbatim>\<open>nextGroupId\<close> in \<^verbatim>\<open>src/support_user.C\<close>. Each keeps its last
  number in a static variable and reads the largest number of this server from the database
  when the variable is zero, after a restart. Numbers of different servers differ modulo
  \<^const>\<open>ID_GRANULARITY\<close>.
\<close>

section \<open>Operations\<close>

text \<open>
  \<^verbatim>\<open>Server::getId\<close>: the server's own number, looked up once by its configured name;
  \<open>local_id\<close> is the static variable. The result comes first.
\<close>

definition getId :: "db option \<Rightarrow> string \<Rightarrow> bool \<Rightarrow> u32 \<Rightarrow> u32 \<times> u32" where
  "getId con name is_master local_id =
     (if local_id \<noteq> 0 then (local_id, local_id)
      else case con of
             None \<Rightarrow> (- 1, 0)
           | Some d \<Rightarrow> (let i = server_id name d; j = (if i = 0 \<and> is_master then 1 else i) in (j, j)))"

text \<open>The common body: \<open>cur\<close> is the static \<^verbatim>\<open>cur_max_id\<close>, \<open>me\<close> the server's number.\<close>

definition next_id :: "db option \<Rightarrow> (db \<Rightarrow> u32) \<Rightarrow> u32 \<Rightarrow> u32 \<Rightarrow> u32 \<times> u32" where
  "next_id con max_id me cur =
     (let advance = (\<lambda>c. let n = (if c = 0 then me else c + ID_GRANULARITY) in (n, n))
      in if cur \<noteq> 0 then advance cur
         else case con of
                None \<Rightarrow> (- 1, 0)
              | Some d \<Rightarrow> if max_id d = - 1 then (- 1, 0) else advance (max_id d))"

definition nextSubmissionId :: "db option \<Rightarrow> u32 \<Rightarrow> u32 \<Rightarrow> u32 \<times> u32" where
  "nextSubmissionId con me cur = next_id con (maxSubmissionId me) me cur"

definition nextClarificationRequestId :: "db option \<Rightarrow> u32 \<Rightarrow> u32 \<Rightarrow> u32 \<times> u32" where
  "nextClarificationRequestId con me cur = next_id con (maxClarificationReqId me) me cur"

definition nextClarificationId :: "db option \<Rightarrow> u32 \<Rightarrow> u32 \<Rightarrow> u32 \<times> u32" where
  "nextClarificationId con me cur = next_id con (maxClarificationId me) me cur"

definition nextProblemId :: "db option \<Rightarrow> u32 \<Rightarrow> u32 \<Rightarrow> u32 \<times> u32" where
  "nextProblemId con me cur = next_id con (maxProblemId me) me cur"

definition nextUserId :: "db option \<Rightarrow> u32 \<Rightarrow> u32 \<Rightarrow> u32 \<times> u32" where
  "nextUserId con me cur = next_id con (maxUserId me) me cur"

definition nextGroupId :: "db option \<Rightarrow> u32 \<Rightarrow> u32 \<Rightarrow> u32 \<times> u32" where
  "nextGroupId con me cur = next_id con (maxGroupId me) me cur"

text \<open>Server numbers are consecutive, and there is always one.\<close>

definition nextServerId :: "db option \<Rightarrow> u32 \<Rightarrow> u32 \<times> u32" where
  "nextServerId con cur =
     (let advance = (\<lambda>c. if c = 0 then (- 1, c) else (c + 1, c + 1))
      in if cur \<noteq> 0 then advance cur
         else case con of
                None \<Rightarrow> (- 1, 0)
              | Some d \<Rightarrow> if maxServerId d = - 1 then (- 1, 0) else advance (maxServerId d))"

section \<open>Residues\<close>

definition own :: "u32 \<Rightarrow> u32 \<Rightarrow> bool" where
  "own me i \<longleftrightarrow> and i (ID_GRANULARITY - 1) = me"

lemma own_mod: "own me i \<longleftrightarrow> unat i mod 16 = unat me"
proof -
  have "(15 :: u32) = mask 4" by (simp add: mask_eq_exp_minus_1)
  then have "and i 15 = take_bit 4 i" by (simp only: take_bit_eq_mask)
  then have "unat (and i (15 :: u32)) = unat i mod 16"
    by (simp add: take_bit_eq_mod unat_mod)
  then show ?thesis by (simp add: own_def ID_GRANULARITY_def word_unat_eq_iff)
qed

lemma own_nonzero: "own me i \<Longrightarrow> me \<noteq> 0 \<Longrightarrow> i \<noteq> 0"
  by (auto simp: own_mod unat_eq_0)

lemma own_self: "me < 16 \<Longrightarrow> own me me"
  by (simp add: own_mod word_less_nat_alt)

lemma unat_plus_16: "unat c + 16 < 2 ^ 32 \<Longrightarrow> unat (c + 16 :: u32) = unat c + 16"
  by (simp add: unat_word_ariths)

lemma own_plus: "own me c \<Longrightarrow> unat c + 16 < 2 ^ 32 \<Longrightarrow> own me (c + 16)"
  by (simp add: own_mod unat_plus_16)

lemma own_ids_own: "own_ids me t = filter (own me) (map fst t)"
  unfolding own_ids_def by (simp add: own_def cong: filter_cong)

lemma select_max_upper: "i \<in> set is \<Longrightarrow> i \<le> select_max is"
  by (auto simp: select_max_def)

lemma select_max_in: "select_max is = 0 \<or> select_max is \<in> set is"
  by (simp add: select_max_def)

lemma next_id_cases:
  assumes "next_id con max_id me cur = (i, cur')"
  shows "(i = - 1 \<and> cur' = 0) \<or>
    (\<exists>c. c = cur \<and> cur \<noteq> 0 \<and> i = (if c = 0 then me else c + 16) \<and> cur' = i) \<or>
    (\<exists>c d. con = Some d \<and> c = max_id d \<and> i = (if c = 0 then me else c + 16) \<and> cur' = i)"
  using assms by (auto simp: next_id_def Let_def ID_GRANULARITY_def split: if_splits option.splits)

section \<open>Histories\<close>

text \<open>
  What happens to the numbers of one kind at one server: it creates something (with or without a
  database connection at that moment), something created elsewhere arrives, or it restarts and
  the static variable is zero again. \<open>alloc_run\<close> gives the numbers under which its own creations
  were stored.
\<close>

datatype 'r id_op = Alloc bool 'r | Foreign u32 'r | Restart

fun alloc_run :: "(db option \<Rightarrow> u32 \<Rightarrow> u32 \<times> u32) \<Rightarrow> (u32 \<Rightarrow> 'r \<Rightarrow> db \<Rightarrow> db option) \<Rightarrow>
    'r id_op list \<Rightarrow> u32 \<Rightarrow> db \<Rightarrow> u32 list" where
  "alloc_run nxt save [] cur d = []"
| "alloc_run nxt save (Alloc connected r # ops) cur d =
     (let (i, cur') = nxt (if connected then Some d else None) cur
      in if i = - 1 then alloc_run nxt save ops cur' d
         else case save i r d of
                None \<Rightarrow> alloc_run nxt save ops cur' d
              | Some d' \<Rightarrow> i # alloc_run nxt save ops cur' d')"
| "alloc_run nxt save (Foreign i r # ops) cur d =
     (case save i r d of None \<Rightarrow> alloc_run nxt save ops cur d | Some d' \<Rightarrow> alloc_run nxt save ops cur d')"
| "alloc_run nxt save (Restart # ops) cur d = alloc_run nxt save ops 0 d"

fun foreign_only :: "u32 \<Rightarrow> 'r id_op \<Rightarrow> bool" where
  "foreign_only me (Foreign i r) = (\<not> own me i)"
| "foreign_only me op = True"

text \<open>
  The contract between a numbering function and its table: the function starts from the largest
  key of this server, and storing adds exactly the given key.
\<close>

locale id_source =
  fixes nxt :: "db option \<Rightarrow> u32 \<Rightarrow> u32 \<Rightarrow> u32 \<times> u32"
    and keys :: "db \<Rightarrow> u32 list"
    and save :: "u32 \<Rightarrow> 'r \<Rightarrow> db \<Rightarrow> db option"
  assumes nxt_eq: "nxt con me cur = next_id con (\<lambda>d. select_max (filter (own me) (keys d))) me cur"
    and save_keys: "save i r d = Some d' \<Longrightarrow> set (keys d') = insert i (set (keys d))"
begin

definition covers :: "u32 \<Rightarrow> u32 \<Rightarrow> db \<Rightarrow> bool" where
  "covers me cur d \<longleftrightarrow> cur = 0 \<or> own me cur \<and> (\<forall>k\<in>set (keys d). own me k \<longrightarrow> k \<le> cur)"

definition room :: "u32 \<Rightarrow> u32 \<Rightarrow> db \<Rightarrow> nat \<Rightarrow> bool" where
  "room me cur d n \<longleftrightarrow> unat cur + 16 * n < 2 ^ 32 - 16 \<and>
     (\<forall>k\<in>set (keys d). own me k \<longrightarrow> unat k + 16 * n < 2 ^ 32 - 16)"

lemma advance_fresh:
  assumes "0 < me" "me < 16" "c = 0 \<or> own me c" "\<forall>k\<in>set (keys d). own me k \<longrightarrow> k \<le> c"
    "unat c + 16 < 2 ^ 32 - 16" "i = (if c = 0 then me else c + 16)"
  shows "own me i \<and> (\<forall>k\<in>set (keys d). own me k \<longrightarrow> k < i) \<and> unat i \<le> unat c + 16 \<and> i \<noteq> 0"
proof (cases "c = 0")
  case True
  then have none: "\<not> own me k" if "k \<in> set (keys d)" for k
    using assms(1,4) that own_nonzero [of me k] by auto
  have "unat me < 16" using assms(2) by (simp add: word_less_nat_alt)
  then show ?thesis using True none assms(1,2,6) by (auto simp: own_self)
next
  case False
  have u: "unat (c + 16) = unat c + 16" using assms(5) by (intro unat_plus_16) simp
  then have "c < c + 16" by (simp add: word_less_nat_alt)
  moreover have "own me (c + 16)" using assms(3,5) False by (intro own_plus) auto
  ultimately show ?thesis using False assms(1,4,6) u own_nonzero [of me "c + 16"] by force
qed

lemma nxt_fresh:
  assumes "0 < me" "me < 16" "covers me cur d" "room me cur d (Suc n)"
    "nxt con me cur = (i, cur')" "con = None \<or> con = Some d"
  shows "covers me cur' d \<and> room me cur' d n \<and>
    (i = - 1 \<or> own me i \<and> i \<notin> set (keys d) \<and> cur' = i \<and> unat i + 16 * n < 2 ^ 32 - 16)"
proof -
  define m where "m = select_max (filter (own me) (keys d))"
  have keys_room: "unat k + 16 * n < 2 ^ 32 - 16" if "k \<in> set (keys d)" "own me k" for k
    using assms(4) that by (auto simp: room_def)
  have adv: ?thesis if c: "c = 0 \<or> own me c" "\<forall>k\<in>set (keys d). own me k \<longrightarrow> k \<le> c"
    "unat c + 16 * Suc n < 2 ^ 32 - 16" "i = (if c = 0 then me else c + 16)" "cur' = i" for c
  proof -
    have "own me i" "\<forall>k\<in>set (keys d). own me k \<longrightarrow> k < i" "unat i \<le> unat c + 16"
      using advance_fresh [OF assms(1,2) c(1,2) _ c(4)] c(3) by auto
    then show ?thesis using c(3,5) keys_room by (auto simp: covers_def room_def less_imp_le)
  qed
  from next_id_cases [OF assms(5) [unfolded nxt_eq]] show ?thesis
  proof (elim disjE exE conjE)
    assume "i = - 1" "cur' = 0"
    then show ?thesis using keys_room assms(4) by (auto simp: covers_def room_def)
  next
    fix c assume c: "c = cur" "cur \<noteq> 0" "i = (if c = 0 then me else c + 16)" "cur' = i"
    show ?thesis using assms(3,4) c by (intro adv [of c]) (simp_all add: covers_def room_def)
  next
    fix c d' assume c: "con = Some d'" "c = select_max (filter (own me) (keys d'))"
      "i = (if c = 0 then me else c + 16)" "cur' = i"
    have cm: "c = m" using c(1,2) assms(6) by (simp add: m_def)
    have m: "m = 0 \<or> own me m \<and> m \<in> set (keys d)" "\<forall>k\<in>set (keys d). own me k \<longrightarrow> k \<le> m"
      using select_max_in [of "filter (own me) (keys d)"] select_max_upper [of _ "filter (own me) (keys d)"]
      by (auto simp: m_def)
    have "unat m + 16 * Suc n < 2 ^ 32 - 16" using m(1) assms(4) by (auto simp: room_def)
    then show ?thesis using m c(3,4) cm by (intro adv [of m]) auto
  qed
qed

lemma alloc_run_unique:
  assumes "0 < me" "me < 16"
  shows "covers me cur d \<Longrightarrow> room me cur d (length ops) \<Longrightarrow> list_all (foreign_only me) ops \<Longrightarrow>
    distinct (alloc_run (\<lambda>con. nxt con me) save ops cur d) \<and>
    set (alloc_run (\<lambda>con. nxt con me) save ops cur d) \<inter> set (keys d) = {} \<and>
    list_all (own me) (alloc_run (\<lambda>con. nxt con me) save ops cur d)"
proof (induction ops arbitrary: cur d)
  case (Cons op ops)
  have more: "room me cur d (length ops)" using Cons.prems(2) by (auto simp: room_def)
  show ?case
  proof (cases op)
    case (Alloc connected r)
    obtain i cur' where n: "nxt (if connected then Some d else None) me cur = (i, cur')"
      by (cases "nxt (if connected then Some d else None) me cur")
    have f: "covers me cur' d" "room me cur' d (length ops)"
      "i = - 1 \<or> own me i \<and> i \<notin> set (keys d) \<and> cur' = i \<and> unat i + 16 * length ops < 2 ^ 32 - 16"
      using nxt_fresh [OF assms Cons.prems(1) _ n] Cons.prems(2) by auto
    show ?thesis
    proof (cases "i = - 1 \<or> save i r d = None")
      case True
      then show ?thesis using Cons.IH [OF f(1,2)] Cons.prems(3) Alloc n by auto
    next
      case False
      then obtain d' where d': "save i r d = Some d'" by auto
      have k: "set (keys d') = insert i (set (keys d))" by (rule save_keys [OF d'])
      have "covers me cur' d'" "room me cur' d' (length ops)"
        using f False k by (auto simp: covers_def room_def)
      from Cons.IH [OF this] show ?thesis using Cons.prems(3) Alloc n d' k f(3) False by auto
    qed
  next
    case (Foreign i r)
    show ?thesis
    proof (cases "save i r d")
      case None
      then show ?thesis using Cons.IH [OF Cons.prems(1) more] Cons.prems(3) Foreign by auto
    next
      case (Some d')
      have k: "set (keys d') = insert i (set (keys d))" by (rule save_keys [OF Some])
      have "covers me cur d'" "room me cur d' (length ops)"
        using Cons.prems more k Foreign by (auto simp: covers_def room_def)
      from Cons.IH [OF this] show ?thesis using Cons.prems(3) Foreign Some k by auto
    qed
  next
    case Restart
    have "covers me 0 d" "room me 0 d (length ops)" using more by (auto simp: covers_def room_def)
    from Cons.IH [OF this] show ?thesis using Cons.prems(3) Restart by auto
  qed
qed simp

end

section \<open>The six kinds of numbers\<close>

definition save_submission :: "u32 \<Rightarrow> submission_row \<Rightarrow> db \<Rightarrow> db option" where
  "save_submission i r d = putSubmission i (s_user_id r) (s_prob_id r) (s_time r) (s_server_id r)
     (s_content r) (s_language r) d"

definition save_request :: "u32 \<Rightarrow> request_row \<Rightarrow> db \<Rightarrow> db option" where
  "save_request i r d = putClarificationRequest i (q_user_id r) (q_problem_id r) (q_time r) (q_text r) d"

definition save_clarification :: "u32 \<Rightarrow> u32 \<times> u32 \<times> time_t \<times> u32 \<times> string \<Rightarrow> db \<Rightarrow> db option" where
  "save_clarification i r d = (case r of (req, user, t, pub, answer) \<Rightarrow> putClarification req i user t pub answer d)"

definition save_problem :: "u32 \<Rightarrow> string \<Rightarrow> db \<Rightarrow> db option" where
  "save_problem i ty d = Some (setProblemType i ty d)"

definition save_user :: "u32 \<Rightarrow> user_row \<Rightarrow> db \<Rightarrow> db option" where
  "save_user i r d = addUser i (u_username r) (u_friendlyname r) (u_password r) (u_type r) (u_group r) d"

lemma insert_row_keys: "insert_row k v t = Some t' \<Longrightarrow> fst ` set t' = insert k (fst ` set t)"
  unfolding insert_row_def by (simp split: if_splits) (metis smap_put_keys)

lemma setProblemType_keys:
  "fst ` set (t_Problem (setProblemType i ty d)) = insert i (fst ` set (t_Problem d))"
  by (simp add: setProblemType_def insert_row_def update_row_def smap_put_keys split: option.split)

lemma max_ids:
  "maxSubmissionId me = (\<lambda>d. select_max (filter (own me) (map fst (t_Submission d))))"
  "maxClarificationReqId me = (\<lambda>d. select_max (filter (own me) (map fst (t_ClarificationRequest d))))"
  "maxClarificationId me = (\<lambda>d. select_max (filter (own me) (map fst (t_Clarification d))))"
  "maxProblemId me = (\<lambda>d. select_max (filter (own me) (map fst (t_Problem d))))"
  "maxUserId me = (\<lambda>d. select_max (filter (own me) (map fst (t_User d))))"
  "maxGroupId me = (\<lambda>d. select_max (filter (own me) (map fst (t_Group d))))"
  by (simp_all only: fun_eq_iff maxSubmissionId_def maxClarificationReqId_def maxClarificationId_def
      maxProblemId_def maxUserId_def maxGroupId_def own_ids_own simp_thms)

lemmas save_defs = save_submission_def putSubmission_def save_request_def putClarificationRequest_def
  save_clarification_def putClarification_def save_problem_def save_user_def addUser_def addGroup_def

interpretation submission_ids: id_source nextSubmissionId "\<lambda>d. map fst (t_Submission d)" save_submission
  by unfold_locales (simp add: nextSubmissionId_def max_ids, clarsimp simp: save_defs, drule insert_row_keys, simp)

interpretation request_ids: id_source nextClarificationRequestId
  "\<lambda>d. map fst (t_ClarificationRequest d)" save_request
  by unfold_locales (simp add: nextClarificationRequestId_def max_ids, clarsimp simp: save_defs,
      drule insert_row_keys, simp)

interpretation clarification_ids: id_source nextClarificationId
  "\<lambda>d. map fst (t_Clarification d)" save_clarification
  by unfold_locales (simp add: nextClarificationId_def max_ids, clarsimp simp: save_defs,
      drule insert_row_keys, simp)

interpretation problem_ids: id_source nextProblemId "\<lambda>d. map fst (t_Problem d)" save_problem
  by unfold_locales (simp add: nextProblemId_def max_ids, clarsimp simp: save_defs setProblemType_keys)

interpretation user_ids: id_source nextUserId "\<lambda>d. map fst (t_User d)" save_user
  by unfold_locales (simp add: nextUserId_def max_ids,
      clarsimp simp: save_defs split: if_splits, drule insert_row_keys, simp)

interpretation group_ids: id_source nextGroupId "\<lambda>d. map fst (t_Group d)" addGroup
  by unfold_locales (simp add: nextGroupId_def max_ids,
      clarsimp simp: save_defs split: if_splits, drule insert_row_keys, simp)

section \<open>Properties\<close>

text \<open>
  Claim C37. Submission numbers never clash. Two servers with different numbers from 1 to 15 each
  go through any history that starts with an empty database: submissions of their own, with or
  without a connection, submissions that arrive from elsewhere, restarts. The numbers a server
  gives out are distinct and have its residue modulo 16, and no number of one server is a number
  of the other, as long as neither history is longer than \<open>2 ^ 28 - 2\<close> steps.
\<close>

theorem submission_ids_unique:
  assumes "0 < me" "me < 16" "0 < other" "other < 16" "me \<noteq> other"
    "list_all (foreign_only me) ops" "16 * length ops < 2 ^ 32 - 16"
    "list_all (foreign_only other) ops'" "16 * length ops' < 2 ^ 32 - 16"
  shows "distinct (alloc_run (\<lambda>con. nextSubmissionId con me) save_submission ops 0 db_empty) \<and>
    list_all (own me) (alloc_run (\<lambda>con. nextSubmissionId con me) save_submission ops 0 db_empty) \<and>
    set (alloc_run (\<lambda>con. nextSubmissionId con me) save_submission ops 0 db_empty) \<inter>
    set (alloc_run (\<lambda>con. nextSubmissionId con other) save_submission ops' 0 db_empty) = {}"
proof -
  have start: "submission_ids.covers x 0 db_empty \<and> submission_ids.room x 0 db_empty (length es)"
    if "16 * length es < 2 ^ 32 - 16" for x and es :: "submission_row id_op list"
    using that by (simp add: submission_ids.covers_def submission_ids.room_def db_empty_def)
  note run = submission_ids.alloc_run_unique
  have a: "distinct (alloc_run (\<lambda>con. nextSubmissionId con me) save_submission ops 0 db_empty)"
    "list_all (own me) (alloc_run (\<lambda>con. nextSubmissionId con me) save_submission ops 0 db_empty)"
    using run [OF assms(1,2) _ _ assms(6)] start [OF assms(7)] by blast+
  have b: "list_all (own other) (alloc_run (\<lambda>con. nextSubmissionId con other) save_submission ops' 0 db_empty)"
    using run [OF assms(3,4) _ _ assms(8)] start [OF assms(9)] by blast
  have "\<not> own other i" if "own me i" for i using that assms(5) by (simp add: own_def)
  with a b show ?thesis by (auto simp: list_all_iff)
qed

definition example_row :: submission_row where
  "example_row = \<lparr>s_user_id = 5, s_prob_id = 2, s_time = 990, s_server_id = 3, s_content = [], s_language = ''C++''\<rparr>"

theorem submission_ids_unique_witness:
  "distinct (alloc_run (\<lambda>con. nextSubmissionId con 3) save_submission
       [Alloc True example_row, Foreign 2 example_row, Restart, Alloc True example_row] 0 db_empty) \<and>
    list_all (own 3) (alloc_run (\<lambda>con. nextSubmissionId con 3) save_submission
       [Alloc True example_row, Foreign 2 example_row, Restart, Alloc True example_row] 0 db_empty) \<and>
    set (alloc_run (\<lambda>con. nextSubmissionId con 3) save_submission
       [Alloc True example_row, Foreign 2 example_row, Restart, Alloc True example_row] 0 db_empty) \<inter>
    set (alloc_run (\<lambda>con. nextSubmissionId con 2) save_submission [Alloc True example_row] 0 db_empty) = {}"
  by (rule submission_ids_unique) (simp_all add: own_mod)

text \<open>
  Claim C40. The scheme has no room for the sixteenth server that \<^verbatim>\<open>MAX_SERVERS\<close> promises: no
  number modulo 16 equals 16, so whatever the database holds, server 16 numbers its submissions
  from 16 again after every restart. Server 17 starts with the second number of server 1.
\<close>

theorem server_16_repeats_ids:
  "nextSubmissionId (Some d) 16 0 = (16, 16) \<and>
   fst (nextSubmissionId (Some db_empty) 17 0) = fst (nextSubmissionId (Some db_empty) 1 1)"
proof -
  have "\<not> own 16 i" for i by (simp add: own_mod)
  then have "maxSubmissionId 16 d = 0" "maxSubmissionId 17 db_empty = 0"
    by (simp_all add: max_ids select_max_def db_empty_def)
  then show ?thesis by (simp add: nextSubmissionId_def next_id_def Let_def ID_GRANULARITY_def)
qed

end
