(* ===== verification/Standings.thy ===== *)
theory Standings
  imports Timer Permissions Message_Block Db_Contest
begin

text \<open>
  The standings, \<^verbatim>\<open>src/support_standings.C\<close>: from the marked submissions in the database it
  computes two tables, the one contestants see, without what was submitted after the blinds
  went down, and the final one, and prints a table into a message block. A result that
  changed is broadcast to the clients whose permissions let them see that table. Points,
  attempts and times are unbounded integers here.
\<close>

section \<open>State\<close>

text \<open>The values of \<^verbatim>\<open>RunResult\<close>, which the database keeps as numbers.\<close>

definition CORRECT :: u32 where "CORRECT = 0"
definition COMPILE_FAILED :: u32 where "COMPILE_FAILED = 4"
definition JUDGE :: u32 where "JUDGE = 5"
definition OTHER :: u32 where "OTHER = 7"

record SubData =
  sd_time :: time_t
  sd_correct :: bool
  sd_final_only :: bool

record StandingsData =
  in_standings :: bool
  st_time :: time_t
  points :: int
  tries :: "(u32, int) smap"

type_synonym Standings = "(u32, StandingsData) smap"

record standings_module =
  final_standings :: Standings
  contestant_standings :: Standings

definition standings_of :: "bool \<Rightarrow> standings_module \<Rightarrow> Standings" where
  "standings_of w st = (if w then final_standings st else contestant_standings st)"

section \<open>Collecting the submissions\<close>

definition SubDataLessThan :: "SubData \<Rightarrow> SubData \<Rightarrow> bool" where
  "SubDataLessThan s1 s2 =
     (if sd_final_only s1 \<noteq> sd_final_only s2 then sd_final_only s2 else sd_time s1 < sd_time s2)"

text \<open>\<^verbatim>\<open>stable_sort\<close> with a comparison: equal elements keep their order.\<close>

fun insert_stable :: "('a \<Rightarrow> 'a \<Rightarrow> bool) \<Rightarrow> 'a \<Rightarrow> 'a list \<Rightarrow> 'a list" where
  "insert_stable lt x [] = [x]"
| "insert_stable lt x (y # ys) = (if lt y x then y # insert_stable lt x ys else x # y # ys)"

definition stable_sort :: "('a \<Rightarrow> 'a \<Rightarrow> bool) \<Rightarrow> 'a list \<Rightarrow> 'a list" where
  "stable_sort lt xs = foldr (insert_stable lt) xs []"

text \<open>
  Columns as numbers. \<^verbatim>\<open>from_string\<close> throws on a text that is no number; the columns read here
  are printed by the database (lemma \<open>submission_columns\<close>) and read back (\<open>text_u32\<close>,
  \<open>text_time\<close>), so the default is never used.
\<close>

definition attr_u32 :: "attributes \<Rightarrow> string \<Rightarrow> u32" where
  "attr_u32 a k = (case from_string_u32 (attr a k) of Some w \<Rightarrow> w | None \<Rightarrow> 0)"

definition attr_time :: "attributes \<Rightarrow> string \<Rightarrow> time_t" where
  "attr_time a k = (case from_string (- (2 ^ 63)) (2 ^ 63 - 1) (attr a k) of Some t \<Rightarrow> t | None \<Rightarrow> 0)"

lemma text_u32: "from_string_u32 (u32_text w) = Some w"
proof -
  have w: "uint w < 2 ^ 32" using uint_bounded [of w] by simp
  have "- (2 ^ 63) \<le> uint w" by (rule order_trans [of _ 0]) simp_all
  then have "from_string 0 (2 ^ 32 - 1) (to_string (uint w)) = Some (uint w)"
    using w by (intro from_string_to_string) simp_all
  then show ?thesis by (simp only: from_string_u32_def u32_text_def option.map word_of_int_uint)
qed

lemma text_time: "from_string (- (2 ^ 63)) (2 ^ 63 - 1) (u32_text w) = Some (uint w)"
proof -
  have "uint w < 2 ^ 32" using uint_bounded [of w] by simp
  moreover have "- (2 ^ 63) \<le> uint w" by (rule order_trans [of _ 0]) simp_all
  ultimately show ?thesis unfolding u32_text_def by (intro from_string_to_string) simp_all
qed

lemma submission_columns:
  assumes "a \<in> set (getSubmissions uid d)"
  shows "\<exists>g q p i t. a = [(''group_id'', u32_text g), (''prob_id'', u32_text q), (''problem'', p), (''submission_id'', u32_text i), (''time'', u32_text t)]"
proof -
  have "attrs [(''submission_id'', i), (''time'', t), (''problem'', p), (''prob_id'', q), (''group_id'', g)] =
      [(''group_id'', g), (''prob_id'', q), (''problem'', p), (''submission_id'', i), (''time'', t)]" for i t p q g
    by (simp add: attrs_def)
  with assms show ?thesis by (auto simp: getSubmissions_def submission_attrs_def split: option.splits prod.splits)
qed

text \<open>
  One turn of the loop over the submissions: the user, the problem and the data of a
  submission that counts, with its time on the clock of the user's group.
\<close>

definition counted :: "timer \<Rightarrow> time_t \<Rightarrow> db \<Rightarrow> attributes \<Rightarrow> (u32 \<times> u32 \<times> SubData) option" where
  "counted timer now d a =
     (let sub_id = attr_u32 a ''submission_id''
      in case getSubmissionState sub_id d of
           None \<Rightarrow> None
         | Some (state, utype, comment) \<Rightarrow>
             if state \<noteq> COMPILE_FAILED \<and> state \<noteq> JUDGE \<and> state \<noteq> OTHER then
               (let user = submission2user_id sub_id d;
                    tm = contestTime timer now (user_group user d) (attr_time a ''time'')
                in Some (user, attr_u32 a ''prob_id'',
                     \<lparr>sd_time = tm, sd_correct = (state = CORRECT), sd_final_only = isBlinded timer tm\<rparr>))
             else None)"

type_synonym problemdata = "(u32, (u32, SubData list) smap) smap"

text \<open>\<^verbatim>\<open>problemdata[user_id][prob_id].push_back(tmp)\<close>.\<close>

definition push_sub :: "u32 \<times> u32 \<times> SubData \<Rightarrow> problemdata \<Rightarrow> problemdata" where
  "push_sub e pd = (case e of (user, prob, s) \<Rightarrow>
     (let inner = (case smap_find pd user of Some m \<Rightarrow> m | None \<Rightarrow> []);
          subs = (case smap_find inner prob of Some l \<Rightarrow> l | None \<Rightarrow> [])
      in smap_put user (smap_put prob (subs @ [s]) inner) pd))"

definition collect :: "timer \<Rightarrow> time_t \<Rightarrow> u32 \<Rightarrow> db \<Rightarrow> problemdata" where
  "collect timer now uid d = fold push_sub (List.map_filter (counted timer now d) (getSubmissions uid d)) []"

section \<open>Scoring\<close>

text \<open>
  The inner loop, for the contestants' table (\<open>w\<close> false) up to the blinds: attempts, whether
  the last one was correct and its time, and the submissions left.
\<close>

fun judge_loop :: "bool \<Rightarrow> SubData list \<Rightarrow> int \<times> bool \<times> time_t \<Rightarrow> (int \<times> bool \<times> time_t) \<times> SubData list" where
  "judge_loop w [] acc = (acc, [])"
| "judge_loop w (s # rest) (n, correct, correct_time) =
     (if \<not> correct \<and> (w \<or> \<not> sd_final_only s)
      then judge_loop w rest (n + 1, sd_correct s, sd_time s)
      else ((n, correct, correct_time), s # rest))"

definition add_problem :: "u32 \<Rightarrow> int \<times> bool \<times> time_t \<Rightarrow> StandingsData \<Rightarrow> StandingsData" where
  "add_problem p acc td = (case acc of (n, correct, correct_time) \<Rightarrow>
     if n \<noteq> 0 then
       (if correct then
          td\<lparr>st_time := st_time td + (n - 1) * 20 * 60 + correct_time,
             points := points td + 1,
             tries := smap_put p n (tries td)\<rparr>
        else td\<lparr>tries := smap_put p (- n) (tries td)\<rparr>)
     else td)"

text \<open>One problem, for both tables: the second pass goes on where the first one stopped.\<close>

definition team_problem ::
  "u32 \<times> SubData list \<Rightarrow> StandingsData \<times> StandingsData \<Rightarrow> StandingsData \<times> StandingsData" where
  "team_problem ps tds = (case (ps, tds) of ((p, subs), td0, td1) \<Rightarrow>
     (let (acc0, rest) = judge_loop False (stable_sort SubDataLessThan subs) (0, False, 0);
          (acc1, _) = judge_loop True rest acc0
      in (add_problem p acc0 td0, add_problem p acc1 td1)))"

definition may_appear :: "u32 \<Rightarrow> db \<Rightarrow> bool" where
  "may_appear user d = (ps_get (permissions_of (unat (usertype user d))) PERMISSION_IN_STANDINGS = Some True)"

definition team_start :: "u32 \<Rightarrow> db \<Rightarrow> StandingsData" where
  "team_start user d =
     (let td = \<lparr>in_standings = may_appear user d, st_time = 0, points = 0, tries = []\<rparr>
      in case user_bonus user d of
           None \<Rightarrow> td
         | Some (bonus_points, bonus_time) \<Rightarrow> td\<lparr>points := bonus_points, st_time := - bonus_time\<rparr>)"

definition teamdata :: "u32 \<Rightarrow> (u32, SubData list) smap \<Rightarrow> db \<Rightarrow> StandingsData \<times> StandingsData" where
  "teamdata user probs d = fold team_problem probs (team_start user d, team_start user d)"

text \<open>A row with attempts replaces the old one if its points, time or attempts are news.\<close>

definition publish :: "u32 \<Rightarrow> StandingsData \<Rightarrow> Standings \<Rightarrow> bool \<times> Standings" where
  "publish user td s =
     (if tries td \<noteq> [] \<and>
         (case smap_find s user of
            None \<Rightarrow> True
          | Some old \<Rightarrow> points old \<noteq> points td \<or> st_time old \<noteq> st_time td \<or> tries old \<noteq> tries td)
      then (True, smap_put user td s) else (False, s))"

text \<open>One user: \<open>(have_update[0], have_update[1], tables)\<close>.\<close>

definition update_team ::
  "db \<Rightarrow> u32 \<times> (u32, SubData list) smap \<Rightarrow> bool \<times> bool \<times> standings_module \<Rightarrow> bool \<times> bool \<times> standings_module" where
  "update_team d t acc = (case (t, acc) of ((user, probs), n0, n1, st) \<Rightarrow>
     (let (td0, td1) = teamdata user probs d;
          (b0, s0) = publish user td0 (contestant_standings st);
          (b1, s1) = publish user td1 (final_standings st)
      in (n0 \<or> b0, n1 \<or> b1, st\<lparr>contestant_standings := s0, final_standings := s1\<rparr>)))"

section \<open>Printing\<close>

definition STANDING_RAW_ID :: nat where "STANDING_RAW_ID = 0"
definition STANDING_RAW_USERNAME :: nat where "STANDING_RAW_USERNAME = 1"
definition STANDING_RAW_FRIENDLYNAME :: nat where "STANDING_RAW_FRIENDLYNAME = 2"
definition STANDING_RAW_GROUP :: nat where "STANDING_RAW_GROUP = 3"
definition STANDING_RAW_CONTESTANT :: nat where "STANDING_RAW_CONTESTANT = 4"
definition STANDING_RAW_TOTAL_SOLVED :: nat where "STANDING_RAW_TOTAL_SOLVED = 5"
definition STANDING_RAW_TOTAL_TIME :: nat where "STANDING_RAW_TOTAL_TIME = 6"
definition STANDING_RAW_SOLVED :: nat where "STANDING_RAW_SOLVED = 7"

lemmas standing_raw_defs = STANDING_RAW_ID_def STANDING_RAW_USERNAME_def STANDING_RAW_FRIENDLYNAME_def
  STANDING_RAW_GROUP_def STANDING_RAW_CONTESTANT_def STANDING_RAW_TOTAL_SOLVED_def
  STANDING_RAW_TOTAL_TIME_def STANDING_RAW_SOLVED_def

definition cell_name :: "nat \<Rightarrow> nat \<Rightarrow> string" where
  "cell_name row col = ''row_'' @ string_of_nat row @ ''_'' @ string_of_nat col"

definition set_cell :: "nat \<Rightarrow> nat \<Rightarrow> string \<Rightarrow> MessageBlock \<Rightarrow> MessageBlock" where
  "set_cell row col v mb = mb_set (cell_name row col) v mb"

definition header_cells :: "MessageBlock \<Rightarrow> MessageBlock" where
  "header_cells mb =
     set_cell 0 STANDING_RAW_TOTAL_TIME ''Time'' (set_cell 0 STANDING_RAW_TOTAL_SOLVED ''Points''
       (set_cell 0 STANDING_RAW_CONTESTANT ''Contestant'' (set_cell 0 STANDING_RAW_GROUP ''Group''
         (set_cell 0 STANDING_RAW_FRIENDLYNAME ''Name'' (set_cell 0 STANDING_RAW_USERNAME ''Team''
           (set_cell 0 STANDING_RAW_ID ''ID'' mb))))))"

text \<open>A column per problem; \<open>prob2col\<close> remembers which.\<close>

fun problem_columns ::
  "db \<Rightarrow> u32 list \<Rightarrow> nat \<Rightarrow> (u32, nat) smap \<Rightarrow> MessageBlock \<Rightarrow> nat \<times> (u32, nat) smap \<times> MessageBlock" where
  "problem_columns d [] ncols prob2col mb = (ncols, prob2col, mb)"
| "problem_columns d (p # ps) ncols prob2col mb =
     problem_columns d ps (ncols + 1) (smap_put p ncols prob2col)
       (set_cell 0 ncols (attr (getProblemAttributes p d) ''shortname'') mb)"

text \<open>\<^verbatim>\<open>prob2col[p]\<close> of a problem without a column is the value 0.\<close>

definition column_of :: "(u32, nat) smap \<Rightarrow> u32 \<Rightarrow> nat" where
  "column_of prob2col p = (case smap_find prob2col p of Some c \<Rightarrow> c | None \<Rightarrow> 0)"

definition zero_cells :: "nat \<Rightarrow> nat \<Rightarrow> MessageBlock \<Rightarrow> MessageBlock" where
  "zero_cells r ncols mb = fold (\<lambda>c. set_cell r c ''0'') [STANDING_RAW_SOLVED ..< ncols] mb"

definition tries_cells :: "nat \<Rightarrow> (u32, nat) smap \<Rightarrow> (u32, int) smap \<Rightarrow> MessageBlock \<Rightarrow> MessageBlock" where
  "tries_cells r prob2col ts mb = fold (\<lambda>(p, n). set_cell r (column_of prob2col p) (to_string n)) ts mb"

definition standings_row ::
  "db \<Rightarrow> nat \<Rightarrow> (u32, nat) smap \<Rightarrow> nat \<Rightarrow> u32 \<times> StandingsData \<Rightarrow> MessageBlock \<Rightarrow> MessageBlock" where
  "standings_row d ncols prob2col r us mb = (case us of (user, td) \<Rightarrow>
     (let mb1 = set_cell r STANDING_RAW_ID (u32_text user) mb;
          mb2 = set_cell r STANDING_RAW_USERNAME (username user d) mb1;
          mb3 = set_cell r STANDING_RAW_FRIENDLYNAME (friendlyname user d) mb2;
          mb4 = set_cell r STANDING_RAW_GROUP (groupname (user_group user d) d) mb3;
          mb5 = set_cell r STANDING_RAW_CONTESTANT (if in_standings td then ''1'' else ''0'') mb4;
          mb6 = set_cell r STANDING_RAW_TOTAL_TIME (to_string (st_time td)) mb5;
          mb7 = tries_cells r prob2col (tries td) (zero_cells r ncols mb6)
      in set_cell r STANDING_RAW_TOTAL_SOLVED (to_string (points td)) mb7))"

fun standings_rows ::
  "db \<Rightarrow> nat \<Rightarrow> (u32, nat) smap \<Rightarrow> bool \<Rightarrow> Standings \<Rightarrow> nat \<Rightarrow> MessageBlock \<Rightarrow> nat \<times> MessageBlock" where
  "standings_rows d ncols prob2col see_all [] r mb = (r, mb)"
| "standings_rows d ncols prob2col see_all ((user, td) # rest) r mb =
     (if \<not> see_all \<and> \<not> in_standings td
      then standings_rows d ncols prob2col see_all rest r mb
      else standings_rows d ncols prob2col see_all rest (r + 1)
             (standings_row d ncols prob2col (r + 1) (user, td) mb))"

text \<open>The rows from \<^verbatim>\<open>lower_bound(uid)\<close> to \<^verbatim>\<open>upper_bound(uid)\<close>, or all of them.\<close>

definition selected_rows :: "u32 \<Rightarrow> Standings \<Rightarrow> Standings" where
  "selected_rows uid s = (if uid \<noteq> 0 then filter (\<lambda>(u, td). u = uid) s else s)"

definition getStandings ::
  "db option \<Rightarrow> standings_module \<Rightarrow> u32 \<Rightarrow> bool \<Rightarrow> bool \<Rightarrow> MessageBlock \<Rightarrow> MessageBlock option" where
  "getStandings con st uid final see_all mb = (case con of
       None \<Rightarrow> None
     | Some d \<Rightarrow>
         (let (ncols, prob2col, mb1) =
                problem_columns d (getProblems d) STANDING_RAW_SOLVED [] (header_cells mb);
              mb2 = mb_set ''ncols'' (string_of_nat ncols) mb1;
              (r, mb3) = standings_rows d ncols prob2col see_all (selected_rows uid (standings_of final st)) 0 mb2
          in Some (mb_set ''nrows'' (string_of_nat (r + 1)) mb3)))"

section \<open>The update\<close>

text \<open>The audience of a table: who sees the final one, and who sees every user's row.\<close>

definition standings_test :: "bool \<Rightarrow> bool \<Rightarrow> PermissionTest" where
  "standings_test w see_all =
     (let pt = PT_BASE PERMISSION_SEE_STANDINGS;
          final_perm = PT_BASE PERMISSION_SEE_FINAL_STANDINGS;
          all_perm = PT_BASE PERMISSION_SEE_ALL_STANDINGS;
          pt1 = PT_AND pt (if w then final_perm else PT_NOT final_perm)
      in PT_AND pt1 (if see_all then all_perm else PT_NOT all_perm))"

definition standings_broadcasts ::
  "db option \<Rightarrow> standings_module \<Rightarrow> u32 \<Rightarrow> bool \<Rightarrow> (PermissionTest \<times> MessageBlock) list" where
  "standings_broadcasts con st uid w = concat (map (\<lambda>see_all.
     case getStandings con st uid w see_all (MessageBlock_new ''updatestandings'') of
       None \<Rightarrow> []
     | Some mb \<Rightarrow> if mb_get mb ''nrows'' \<noteq> ''0'' then [(standings_test w see_all, mb)] else [])
     [False, True])"

text \<open>
  \<^verbatim>\<open>updateStandings\<close>: its result, the tables, and what it hands to \<^verbatim>\<open>broadcastEvent\<close>. The
  connection to the database is an argument; it is the same for the whole update.
\<close>

definition updateStandings ::
  "timer \<Rightarrow> time_t \<Rightarrow> db option \<Rightarrow> u32 \<Rightarrow> standings_module \<Rightarrow>
   bool \<times> standings_module \<times> (PermissionTest \<times> MessageBlock) list" where
  "updateStandings timer now con uid st = (case con of
       None \<Rightarrow> (False, st, [])
     | Some d \<Rightarrow>
         if duration timer = 0 then (False, st, [])
         else (let (n0, n1, st') = fold (update_team d) (collect timer now uid d) (False, False, st)
               in (True, st',
                   (if n0 then standings_broadcasts con st' uid False else []) @
                   (if n1 then standings_broadcasts con st' uid True else []))))"

end
