(* ===== verification/Standings_Correct.thy ===== *)
theory Standings_Correct
  imports Standings
begin

text \<open>
  The standings are the rules of the contest: a reference score of a list of submissions, and
  the proof that both tables of \<open>Standings\<close> hold it after every update.
\<close>

section \<open>The reference score\<close>

text \<open>
  Submissions for one problem, in the order of their contest time. A problem is solved by the
  first correct one; each wrong one before it costs twenty minutes.
\<close>

definition chronological :: "SubData list \<Rightarrow> SubData list" where
  "chronological subs = sort_key sd_time subs"

definition solved :: "SubData list \<Rightarrow> bool" where
  "solved subs \<longleftrightarrow> (\<exists>s\<in>set subs. sd_correct s)"

definition wrong_before :: "SubData list \<Rightarrow> nat" where
  "wrong_before subs = length (takeWhile (\<lambda>s. \<not> sd_correct s) (chronological subs))"

definition penalty :: "SubData list \<Rightarrow> time_t" where
  "penalty subs = (if solved subs
     then sd_time (hd (dropWhile (\<lambda>s. \<not> sd_correct s) (chronological subs))) + 20 * 60 * int (wrong_before subs)
     else 0)"

definition attempts_shown :: "SubData list \<Rightarrow> int" where
  "attempts_shown subs = (if solved subs then int (wrong_before subs) + 1 else - int (length subs))"

section \<open>Sorting\<close>

lemma stable_sort_key:
  assumes "\<And>x y. lt x y \<longleftrightarrow> k x < k y"
  shows "stable_sort lt xs = sort_key k xs"
proof -
  have "insert_stable lt x ys = insort_key k x ys" for x ys
    by (induction ys) (auto simp: assms not_less)
  then have "insert_stable lt = insort_key k" by blast
  then show ?thesis by (simp add: stable_sort_def sort_key_def)
qed

lemma sort_key_cong_on:
  assumes "\<And>x y. x \<in> set xs \<Longrightarrow> y \<in> set xs \<Longrightarrow> f x \<le> f y \<longleftrightarrow> g x \<le> g y"
  shows "sort_key f xs = sort_key g xs"
  using assms
proof (induction xs)
  case (Cons x xs)
  have "insort_key f x ys = insort_key g x ys" if "set ys \<subseteq> set (x # xs)" for ys
    using that Cons.prems by (induction ys) auto
  moreover have "set (sort_key g xs) \<subseteq> set (x # xs)" by auto
  ultimately show ?case using Cons by simp
qed simp

text \<open>The blinds cut the contest at one moment, so sorting them last is sorting by time.\<close>

definition cut_at :: "time_t \<Rightarrow> SubData list \<Rightarrow> bool" where
  "cut_at c subs \<longleftrightarrow> (\<forall>s\<in>set subs. sd_final_only s = (sd_time s > c))"

lemma stable_sort_chronological: "cut_at c subs \<Longrightarrow> stable_sort SubDataLessThan subs = chronological subs"
proof -
  assume c: "cut_at c subs"
  have "stable_sort SubDataLessThan subs = sort_key (\<lambda>s. (sd_final_only s, sd_time s)) subs"
    by (rule stable_sort_key) (simp add: SubDataLessThan_def, blast)
  also have "\<dots> = sort_key sd_time subs"
  proof (rule sort_key_cong_on)
    fix x y assume "x \<in> set subs" "y \<in> set subs"
    with c have "sd_final_only x = (sd_time x > c)" "sd_final_only y = (sd_time y > c)"
      by (simp_all add: cut_at_def)
    then show "((sd_final_only x, sd_time x) \<le> (sd_final_only y, sd_time y)) = (sd_time x \<le> sd_time y)"
      by (cases "c < sd_time x"; cases "c < sd_time y") simp_all
  qed
  finally show ?thesis by (simp add: chronological_def)
qed

lemma sorted_cut:
  "sorted (map sd_time ss) \<Longrightarrow> cut_at c ss \<Longrightarrow>
   filter (\<lambda>s. \<not> sd_final_only s) ss @ filter sd_final_only ss = ss"
proof (induction ss)
  case (Cons s ss)
  show ?case
  proof (cases "sd_final_only s")
    case True
    with Cons.prems have "\<forall>x\<in>set ss. sd_final_only x" by (fastforce simp: cut_at_def)
    with True show ?thesis by (simp add: filter_empty_conv)
  qed (use Cons in \<open>auto simp: cut_at_def\<close>)
qed simp

section \<open>The inner loop\<close>

lemma judge_loop_blinds:
  "\<forall>s\<in>set us. \<not> sd_final_only s \<Longrightarrow> \<forall>s\<in>set bs. sd_final_only s \<Longrightarrow>
   judge_loop False (us @ bs) acc = (fst (judge_loop True us acc), snd (judge_loop True us acc) @ bs)"
proof (induction us arbitrary: acc)
  case Nil
  then show ?case by (cases bs; cases acc) auto
next
  case (Cons u us)
  then show ?case by (cases acc) auto
qed

lemma judge_loop_resume:
  "judge_loop True (snd (judge_loop True us acc) @ bs) (fst (judge_loop True us acc)) =
   judge_loop True (us @ bs) acc"
proof (induction us arbitrary: acc)
  case (Cons u us)
  then show ?case by (cases acc) auto
qed simp

lemma judge_loop_both:
  assumes "\<forall>s\<in>set us. \<not> sd_final_only s" "\<forall>s\<in>set bs. sd_final_only s" "us @ bs = ss"
  shows "fst (judge_loop False ss acc) = fst (judge_loop True us acc)"
    "judge_loop True (snd (judge_loop False ss acc)) (fst (judge_loop False ss acc)) = judge_loop True ss acc"
  using judge_loop_blinds [OF assms(1,2), of acc] judge_loop_resume [of us acc bs] assms(3) by auto

lemma judge_loop_solved: "judge_loop w ss (n, True, t) = ((n, True, t), ss)"
  by (cases ss) auto

lemma judge_loop_closed:
  "fst (judge_loop True ss (n, False, t)) =
     (if solved ss
      then (n + int (length (takeWhile (\<lambda>s. \<not> sd_correct s) ss)) + 1, True,
            sd_time (hd (dropWhile (\<lambda>s. \<not> sd_correct s) ss)))
      else (n + int (length ss), False, if ss = [] then t else sd_time (last ss)))"
proof (induction ss arbitrary: n t)
  case (Cons s ss)
  then show ?case by (cases "sd_correct s") (simp_all add: solved_def judge_loop_solved)
qed (simp add: solved_def)

lemma solved_chronological [simp]: "solved (chronological subs) = solved subs"
  by (simp add: solved_def chronological_def)

lemma length_chronological [simp]: "length (chronological subs) = length subs"
  by (simp add: chronological_def)

section \<open>One problem\<close>

definition score_problem :: "u32 \<times> SubData list \<Rightarrow> StandingsData \<Rightarrow> StandingsData" where
  "score_problem ps td = (case ps of (p, subs) \<Rightarrow>
     if subs = [] then td
     else td\<lparr>st_time := st_time td + penalty subs,
             points := points td + (if solved subs then 1 else 0),
             tries := smap_put p (attempts_shown subs) (tries td)\<rparr>)"

lemma add_problem_score:
  "add_problem p (fst (judge_loop True (chronological subs) (0, False, 0))) td = score_problem (p, subs) td"
proof (cases "subs = []")
  case True
  then show ?thesis by (simp add: add_problem_def score_problem_def chronological_def)
next
  case False
  then have "length subs \<noteq> 0" by simp
  with False show ?thesis
    by (cases "solved subs")
      (simp_all add: add_problem_def score_problem_def judge_loop_closed penalty_def attempts_shown_def wrong_before_def algebra_simps)
qed

definition unblinded :: "SubData list \<Rightarrow> SubData list" where
  "unblinded subs = filter (\<lambda>s. \<not> sd_final_only s) subs"

lemma team_problem_scores:
  assumes "cut_at c subs"
  shows "team_problem (p, subs) (td0, td1) =
    (score_problem (p, unblinded subs) td0, score_problem (p, subs) td1)"
proof -
  let ?ss = "chronological subs"
  let ?us = "filter (\<lambda>s. \<not> sd_final_only s) ?ss" and ?bs = "filter sd_final_only ?ss"
  have cut: "?us @ ?bs = ?ss"
    using assms by (intro sorted_cut [of _ c]) (auto simp: chronological_def cut_at_def)
  have us: "?us = chronological (unblinded subs)"
    by (simp add: chronological_def unblinded_def filter_sort)
  have ends: "\<forall>s\<in>set ?us. \<not> sd_final_only s" "\<forall>s\<in>set ?bs. sd_final_only s" by simp_all
  note both = judge_loop_both [OF ends cut, of "(0, False, 0)"]
  show ?thesis
    by (simp only: team_problem_def split_beta fst_conv snd_conv Let_def stable_sort_chronological [OF assms]
        both(1) us both(2) [unfolded both(1) us] add_problem_score)
qed

lemma team_problems_scores:
  "\<forall>(p, subs)\<in>set probs. cut_at c subs \<Longrightarrow>
   fold team_problem probs (td0, td1) =
   (fold score_problem (map (\<lambda>(p, subs). (p, unblinded subs)) probs) td0, fold score_problem probs td1)"
proof (induction probs arbitrary: td0 td1)
  case (Cons ps probs)
  obtain p subs where ps: "ps = (p, subs)" by (cases ps)
  then have "cut_at c subs" using Cons.prems by simp
  with ps Cons show ?case by (simp add: team_problem_scores)
qed simp

section \<open>All problems of a user\<close>

lemma score_problem_fields:
  "points (score_problem (p, subs) td) = points td + (if solved subs then 1 else 0)"
  "st_time (score_problem (p, subs) td) = st_time td + penalty subs"
  "smap_find (tries (score_problem (p, subs) td)) q =
     (if q = p \<and> subs \<noteq> [] then Some (attempts_shown subs) else smap_find (tries td) q)"
  by (simp_all add: score_problem_def solved_def penalty_def smap_find_put)

lemma fold_score_sums:
  "points (fold score_problem probs td) = points td + (\<Sum>(p, subs)\<leftarrow>probs. if solved subs then 1 else 0)"
  "st_time (fold score_problem probs td) = st_time td + (\<Sum>(p, subs)\<leftarrow>probs. penalty subs)"
  by (induction probs arbitrary: td) (auto simp: score_problem_fields)

lemma fold_score_tries:
  "distinct (map fst probs) \<Longrightarrow>
   smap_find (tries (fold score_problem probs td)) q =
     (case map_of probs q of
        Some subs \<Rightarrow> if subs \<noteq> [] then Some (attempts_shown subs) else smap_find (tries td) q
      | None \<Rightarrow> smap_find (tries td) q)"
proof (induction probs arbitrary: td)
  case (Cons ps probs)
  obtain p subs where ps: "ps = (p, subs)" by (cases ps)
  have "map_of probs p = None" using Cons.prems ps by (simp add: map_of_eq_None_iff)
  with ps Cons show ?case by (auto simp: score_problem_fields split: option.splits)
qed simp

lemma smap_find_map_of: "smap_find m k = map_of m k"
  by (induction m k rule: smap_find.induct) auto

lemma smap_ok_distinct: "smap_ok m \<Longrightarrow> distinct (map fst m)"
  by (simp add: smap_ok_def strict_sorted_iff)

lemma sum_over_keys:
  assumes "distinct (map fst m)" "finite P" "\<And>k. k \<in> P \<longleftrightarrow> map_of m k \<noteq> None"
  shows "(\<Sum>(k, v)\<leftarrow>m. f v) = (\<Sum>k\<in>P. f (the (map_of m k)))"
proof -
  have P: "P = fst ` set m" using assms(3) by (auto simp: map_of_eq_None_iff)
  have "(\<Sum>(k, v)\<leftarrow>m. f v) = (\<Sum>kv\<in>set m. f (snd kv))"
    using assms(1) by (simp add: sum_list_distinct_conv_sum_set distinct_map split_beta)
  also have "\<dots> = (\<Sum>kv\<in>set m. f (the (map_of m (fst kv))))"
    by (rule sum.cong) (auto simp: assms(1))
  also have "\<dots> = (\<Sum>k\<in>P. f (the (map_of m k)))"
    using assms(1) P by (simp add: distinct_map sum.reindex)
  finally show ?thesis .
qed

section \<open>The collected submissions\<close>

definition subs_at :: "(u32 \<times> u32 \<times> SubData) list \<Rightarrow> u32 \<Rightarrow> u32 \<Rightarrow> SubData list" where
  "subs_at es u p = map (snd \<circ> snd) (filter (\<lambda>(u', p', s). u' = u \<and> p' = p) es)"

definition entry :: "problemdata \<Rightarrow> u32 \<Rightarrow> u32 \<Rightarrow> SubData list" where
  "entry pd u p = (case smap_find pd u of
       None \<Rightarrow> [] | Some m \<Rightarrow> (case smap_find m p of None \<Rightarrow> [] | Some l \<Rightarrow> l))"

definition inner_ok :: "(u32, SubData list) smap \<Rightarrow> bool" where
  "inner_ok m \<longleftrightarrow> smap_ok m \<and> (\<forall>p. smap_find m p \<noteq> Some []) \<and> m \<noteq> []"

definition pd_ok :: "problemdata \<Rightarrow> bool" where
  "pd_ok pd \<longleftrightarrow> smap_ok pd \<and> (\<forall>u m. smap_find pd u = Some m \<longrightarrow> inner_ok m)"

lemma smap_put_nonempty [simp]: "smap_put k v m \<noteq> []"
  by (induction k v m rule: smap_put.induct) simp_all

lemma pd_ok_push: "pd_ok pd \<Longrightarrow> pd_ok (push_sub e pd)"
  by (cases e) (auto simp: pd_ok_def inner_ok_def push_sub_def smap_ok_put smap_find_put Let_def
      split: option.splits if_splits)

lemma entry_push:
  "entry (push_sub (u', p', s) pd) u p = entry pd u p @ (if u' = u \<and> p' = p then [s] else [])"
  by (auto simp: entry_def push_sub_def smap_find_put Let_def split: option.splits)

lemma entry_fold: "entry (fold push_sub es pd) u p = entry pd u p @ subs_at es u p"
proof (induction es arbitrary: pd)
  case (Cons e es)
  obtain u' p' s where "e = (u', p', s)" by (cases e)
  with Cons show ?case by (simp add: entry_push subs_at_def)
qed (simp add: subs_at_def)

lemma pd_ok_fold: "pd_ok pd \<Longrightarrow> pd_ok (fold push_sub es pd)"
  by (induction es arbitrary: pd) (simp_all add: pd_ok_push)

lemma pd_ok_Nil [simp]: "pd_ok []"
  by (simp add: pd_ok_def)

lemma inner_entry: "inner_ok m \<Longrightarrow> \<exists>p l. smap_find m p = Some l \<and> l \<noteq> []"
  by (cases m) (auto simp: inner_ok_def, metis)

lemma pd_absent: "pd_ok pd \<Longrightarrow> smap_find pd u = None \<longleftrightarrow> (\<forall>p. entry pd u p = [])"
proof (cases "smap_find pd u")
  case (Some m)
  moreover assume "pd_ok pd"
  ultimately have "inner_ok m" by (simp add: pd_ok_def)
  then obtain p l where "smap_find m p = Some l" "l \<noteq> []" using inner_entry by blast
  with Some have "entry pd u p \<noteq> []" by (simp add: entry_def)
  with Some show ?thesis by auto
qed (simp add: entry_def)

lemma pd_present:
  "pd_ok pd \<Longrightarrow> smap_find pd u = Some m \<Longrightarrow>
   smap_find m p = (if entry pd u p = [] then None else Some (entry pd u p))"
  by (auto simp: pd_ok_def inner_ok_def entry_def split: option.splits)

text \<open>What the tables are computed from: the submissions that count, with the blinds or without.\<close>

definition standings_subs ::
  "timer \<Rightarrow> time_t \<Rightarrow> u32 \<Rightarrow> db \<Rightarrow> bool \<Rightarrow> u32 \<Rightarrow> u32 \<Rightarrow> SubData list" where
  "standings_subs timer now uid d w u p =
     filter (\<lambda>s. w \<or> \<not> isBlinded timer (sd_time s))
       (subs_at (List.map_filter (counted timer now d) (getSubmissions uid d)) u p)"

lemma counted_blinded:
  "counted timer now d a = Some (u, p, s) \<Longrightarrow> sd_final_only s = isBlinded timer (sd_time s)"
  by (auto simp: counted_def Let_def split: option.splits if_splits)

lemma entry_collect: "entry (collect timer now uid d) u p = standings_subs timer now uid d True u p"
  by (simp add: collect_def entry_fold standings_subs_def) (simp add: entry_def)

lemma standings_subs_blinded:
  "s \<in> set (standings_subs timer now uid d w u p) \<Longrightarrow> sd_final_only s = isBlinded timer (sd_time s)"
proof -
  assume "s \<in> set (standings_subs timer now uid d w u p)"
  then have "(u, p, s) \<in> set (List.map_filter (counted timer now d) (getSubmissions uid d))"
    by (auto simp: standings_subs_def subs_at_def)
  then obtain a where "counted timer now d a = Some (u, p, s)"
    by (auto simp: List.map_filter_def)
  then show ?thesis by (rule counted_blinded)
qed

lemma standings_subs_cut: "cut_at (duration timer - blinds timer) (standings_subs timer now uid d w u p)"
  using standings_subs_blinded by (fastforce simp: cut_at_def isBlinded_def)

lemma standings_subs_unblinded:
  "unblinded (standings_subs timer now uid d True u p) = standings_subs timer now uid d False u p"
proof -
  let ?S = "standings_subs timer now uid d True u p"
  have "unblinded ?S = filter (\<lambda>s. \<not> isBlinded timer (sd_time s)) ?S"
    unfolding unblinded_def by (rule filter_cong) (auto dest: standings_subs_blinded)
  then show ?thesis by (simp add: standings_subs_def)
qed

lemma collect_ok: "pd_ok (collect timer now uid d)"
  by (simp add: collect_def pd_ok_fold)

section \<open>The update\<close>

definition pick :: "bool \<Rightarrow> 'a \<times> 'a \<Rightarrow> 'a" where
  "pick w ab = (if w then snd ab else fst ab)"

definition published :: "StandingsData \<Rightarrow> StandingsData option \<Rightarrow> StandingsData option" where
  "published td old = (if tries td \<noteq> [] \<and>
      (case old of None \<Rightarrow> True
       | Some r \<Rightarrow> points r \<noteq> points td \<or> st_time r \<noteq> st_time td \<or> tries r \<noteq> tries td)
    then Some td else old)"

lemma publish_find:
  "smap_find (snd (publish u td s)) v = (if v = u then published td (smap_find s u) else smap_find s v)"
  by (auto simp: publish_def published_def smap_find_put)

lemma published_fields:
  "tries td \<noteq> [] \<Longrightarrow> \<exists>r. published td old = Some r \<and> points r = points td \<and> st_time r = st_time td \<and> tries r = tries td"
  by (cases old) (auto simp: published_def)

lemma update_team_find:
  "smap_find (standings_of w (snd (snd (update_team d (u, probs) acc)))) v =
     (if v = u then published (pick w (teamdata u probs d)) (smap_find (standings_of w (snd (snd acc))) u)
      else smap_find (standings_of w (snd (snd acc))) v)"
proof -
  obtain n0 n1 st where acc: "acc = (n0, n1, st)" by (cases acc)
  have "standings_of w (snd (snd (update_team d (u, probs) acc))) =
      snd (publish u (pick w (teamdata u probs d)) (standings_of w st))"
    by (cases w) (simp_all add: acc update_team_def standings_of_def pick_def split_beta Let_def)
  then show ?thesis by (simp add: publish_find acc)
qed

lemma update_fold_find:
  "distinct (map fst pd) \<Longrightarrow>
   smap_find (standings_of w (snd (snd (fold (update_team d) pd acc)))) u =
     (case map_of pd u of
        None \<Rightarrow> smap_find (standings_of w (snd (snd acc))) u
      | Some probs \<Rightarrow> published (pick w (teamdata u probs d)) (smap_find (standings_of w (snd (snd acc))) u))"
proof (induction pd arbitrary: acc)
  case (Cons t pd)
  obtain v probs where t: "t = (v, probs)" by (cases t)
  have "map_of pd v = None" using Cons.prems t by (simp add: map_of_eq_None_iff)
  with Cons t show ?case by (auto simp: update_team_find split: option.splits)
qed simp

lemma updateStandings_find:
  assumes "duration timer \<noteq> 0" "updateStandings timer now (Some d) uid st = (ok, st', events)"
  shows "smap_find (standings_of w st') u =
    (case smap_find (collect timer now uid d) u of
       None \<Rightarrow> smap_find (standings_of w st) u
     | Some probs \<Rightarrow> published (pick w (teamdata u probs d)) (smap_find (standings_of w st) u))"
proof -
  have "st' = snd (snd (fold (update_team d) (collect timer now uid d) (False, False, st)))"
    using assms by (simp add: updateStandings_def split_beta Let_def)
  moreover have "distinct (map fst (collect timer now uid d))"
    using collect_ok by (auto simp: pd_ok_def intro: smap_ok_distinct)
  ultimately show ?thesis by (simp add: update_fold_find smap_find_map_of [of "collect timer now uid d"]
      split: option.split)
qed

text \<open>The bonus an administrator gave the user: points, and seconds taken off the time.\<close>

definition bonus_points :: "u32 \<Rightarrow> db \<Rightarrow> int" where
  "bonus_points u d = (case user_bonus u d of None \<Rightarrow> 0 | Some (p, t) \<Rightarrow> p)"

definition bonus_time :: "u32 \<Rightarrow> db \<Rightarrow> int" where
  "bonus_time u d = (case user_bonus u d of None \<Rightarrow> 0 | Some (p, t) \<Rightarrow> t)"

lemma team_start_fields:
  "points (team_start u d) = bonus_points u d" "st_time (team_start u d) = - bonus_time u d"
  "tries (team_start u d) = []"
  by (simp_all add: team_start_def bonus_points_def bonus_time_def Let_def split: option.split prod.split)

text \<open>A user's row against the reference score of a table's submissions \<open>S\<close> by problem.\<close>

definition scored :: "u32 \<Rightarrow> db \<Rightarrow> (u32 \<Rightarrow> SubData list) \<Rightarrow> StandingsData \<Rightarrow> bool" where
  "scored u d S td \<longleftrightarrow>
     points td = bonus_points u d + int (card {p. solved (S p)}) \<and>
     st_time td = (\<Sum>p\<in>{p. solved (S p)}. penalty (S p)) - bonus_time u d \<and>
     (\<forall>p. smap_find (tries td) p = (if S p = [] then None else Some (attempts_shown (S p))))"

lemma fold_score_scored:
  assumes "distinct (map fst probs)" "\<And>p. S p = (case map_of probs p of Some l \<Rightarrow> l | None \<Rightarrow> [])"
  shows "scored u d S (fold score_problem probs (team_start u d))"
proof -
  let ?P = "fst ` set probs" and ?Q = "{p. solved (S p)}"
  have P: "p \<in> ?P \<longleftrightarrow> map_of probs p \<noteq> None" for p by (auto simp: map_of_eq_None_iff)
  have S: "S p = the (map_of probs p)" if "p \<in> ?P" for p
    using that by (auto simp: assms(2) map_of_eq_None_iff split: option.splits)
  have Q: "?Q \<subseteq> ?P"
  proof
    fix p assume "p \<in> ?Q"
    then have "S p \<noteq> []" by (auto simp: solved_def)
    then show "p \<in> ?P" using assms(2) [of p] P [of p] by (auto split: option.splits)
  qed
  have "(\<Sum>(p, subs)\<leftarrow>probs. if solved subs then 1 else 0) = (\<Sum>p\<in>?P. if solved (S p) then 1 else (0::int))"
    using sum_over_keys [OF assms(1) _ P, of "\<lambda>l. if solved l then 1 else (0::int)"] S by simp
  also have "\<dots> = int (card ?Q)"
    using Q by (simp add: sum.If_cases Int_absorb1)
  finally have points: "(\<Sum>(p, subs)\<leftarrow>probs. if solved subs then 1 else 0) = int (card ?Q)" .
  have "(\<Sum>(p, subs)\<leftarrow>probs. penalty subs) = (\<Sum>p\<in>?P. penalty (S p))"
    using sum_over_keys [OF assms(1) _ P, of penalty] S by simp
  also have "\<dots> = (\<Sum>p\<in>?Q. penalty (S p))"
    using Q by (intro sum.mono_neutral_right) (auto simp: penalty_def)
  finally show ?thesis
    using points assms by (auto simp: scored_def fold_score_sums fold_score_tries team_start_fields split: option.splits)
qed

lemma map_of_map_snd: "map_of (map (\<lambda>(k, v). (k, f v)) m) k = map_option f (map_of m k)"
  by (induction m) auto

lemma teamdata_scored:
  assumes "smap_find (collect timer now uid d) u = Some probs"
  shows "scored u d (standings_subs timer now uid d w u) (pick w (teamdata u probs d))"
proof -
  let ?S = "standings_subs timer now uid d"
  have ok: "inner_ok probs" using collect_ok assms by (auto simp: pd_ok_def)
  then have dist: "distinct (map fst probs)" by (simp add: inner_ok_def smap_ok_distinct)
  have find: "map_of probs p = (if ?S True u p = [] then None else Some (?S True u p))" for p
    using pd_present [OF collect_ok assms, of p] by (simp add: entry_collect smap_find_map_of)
  have "cut_at (duration timer - blinds timer) subs" if "(p, subs) \<in> set probs" for p subs
    using map_of_is_SomeI [OF dist that] find [of p] standings_subs_cut by (auto split: if_splits)
  then have "\<forall>(p, subs)\<in>set probs. cut_at (duration timer - blinds timer) subs" by blast
  then have td: "teamdata u probs d =
      (fold score_problem (map (\<lambda>(p, subs). (p, unblinded subs)) probs) (team_start u d),
       fold score_problem probs (team_start u d))"
    unfolding teamdata_def by (rule team_problems_scores)
  have f: "fst \<circ> (\<lambda>(p, subs). (p, unblinded subs)) = fst" by auto
  show ?thesis
  proof (cases w)
    case True
    then show ?thesis using td fold_score_scored [OF dist, of "?S True u" u d] find by (simp add: pick_def)
  next
    case False
    have "?S False u p = (case map_of (map (\<lambda>(p, subs). (p, unblinded subs)) probs) p of Some l \<Rightarrow> l | None \<Rightarrow> [])" for p
      using standings_subs_unblinded [of timer now uid d u p] find [of p]
      by (auto simp: map_of_map_snd unblinded_def)
    then show ?thesis
      using False td dist fold_score_scored [of "map (\<lambda>(p, subs). (p, unblinded subs)) probs" "?S False u" u d]
      by (simp add: pick_def f)
  qed
qed

lemma scored_cong:
  "points r = points td \<Longrightarrow> st_time r = st_time td \<Longrightarrow> tries r = tries td \<Longrightarrow> scored u d S td \<Longrightarrow> scored u d S r"
  by (simp add: scored_def)

section \<open>Properties\<close>

text \<open>
  Claim C6. After an update, the row of a user in either table is the score by the rules of the
  contest: the bonus points plus one for each problem with a correct submission, the times
  of the first correct ones plus twenty minutes for every wrong submission before them,
  less the bonus time, and the attempts of every problem tried. The contestants' table counts
  exactly the submissions made before the blinds went down, the final one counts all; failed
  compilations and submissions deferred to a judge count for neither.
\<close>

theorem standings_follow_rules:
  assumes "duration timer \<noteq> 0"
    and "updateStandings timer now (Some d) uid st = (ok, st', events)"
    and "standings_subs timer now uid d w u p \<noteq> []"
  shows "\<exists>td. smap_find (standings_of w st') u = Some td \<and> scored u d (standings_subs timer now uid d w u) td"
proof -
  let ?S = "standings_subs timer now uid d"
  have "?S True u p \<noteq> []" using assms(3) by (auto simp: standings_subs_def filter_empty_conv)
  then obtain probs where probs: "smap_find (collect timer now uid d) u = Some probs"
    using pd_absent [OF collect_ok, of timer now uid d u] by (auto simp: entry_collect)
  let ?td = "pick w (teamdata u probs d)"
  have sc: "scored u d (?S w u) ?td" by (rule teamdata_scored [OF probs])
  then have "smap_find (tries ?td) p \<noteq> None" using assms(3) by (simp add: scored_def)
  then have "tries ?td \<noteq> []" by auto
  with published_fields [OF this, of "smap_find (standings_of w st) u"]
  show ?thesis using updateStandings_find [OF assms(1,2), of w u] probs scored_cong [OF _ _ _ sc] by auto
qed

text \<open>
  A contest of five hours whose last hour is blinded, started at second 1000, with one
  contestant who failed, solved the problem before the blinds, and tried again behind them.
\<close>

definition example_timer :: timer where
  "example_timer = \<lparr>evlist = [\<lparr>ev_time = 1000, ev_group = 0, ev_action = TIMER_STATUS_STARTED\<rparr>],
     duration = 18000, blinds = 3600, group_state = Map.empty\<rparr>"

definition example_sub :: "u32 \<Rightarrow> submission_row" where
  "example_sub t = \<lparr>s_user_id = 1, s_prob_id = 7, s_time = t, s_server_id = 1, s_content = [], s_language = ''C++''\<rparr>"

definition example_mark :: "u32 \<Rightarrow> mark_row" where
  "example_mark res = \<lparr>m_mark_time = 0, m_result = res, m_remark = [], m_server_id = 1\<rparr>"

definition example_db :: "u32 \<Rightarrow> db" where
  "example_db res = db_empty\<lparr>
     t_User := [(1, \<lparr>u_username = ''team'', u_friendlyname = ''Team'', u_password = [], u_type = 3,
        u_group = 1, u_bonus_points = 0, u_bonus_seconds = 0\<rparr>)],
     t_Group := [(1, ''default'')],
     t_Problem := [(7, \<lparr>p_updated = 0, p_type = ''testcase''\<rparr>)],
     t_ProblemAttributes := [((7, ''shortname''), ''sum'')],
     t_Submission := [(1, example_sub 1600), (2, example_sub 2200)],
     t_SubmissionMark := [((1, 1), example_mark 1), ((2, 1), example_mark res)]\<rparr>"

definition example_standings :: standings_module where
  "example_standings = \<lparr>final_standings = [], contestant_standings = []\<rparr>"

theorem standings_follow_rules_witness:
  "\<exists>td. smap_find (standings_of False (fst (snd (updateStandings example_timer 0 (Some (example_db 0)) 0
      example_standings)))) 1 = Some td \<and>
    scored 1 (example_db 0) (standings_subs example_timer 0 0 (example_db 0) False 1) td"
proof (rule standings_follow_rules)
  show "duration example_timer \<noteq> 0" by (simp add: example_timer_def)
  show "standings_subs example_timer 0 0 (example_db 0) False 1 7 \<noteq> []" by code_simp
  show "updateStandings example_timer 0 (Some (example_db 0)) 0 example_standings =
    (fst (updateStandings example_timer 0 (Some (example_db 0)) 0 example_standings),
     fst (snd (updateStandings example_timer 0 (Some (example_db 0)) 0 example_standings)),
     snd (snd (updateStandings example_timer 0 (Some (example_db 0)) 0 example_standings)))"
    by simp
qed

text \<open>
  Claim C32. An update does not take a row away: a user none of whose submissions counts for a
  table any more keeps the row of the table as it was. A submission that is judged anew as a
  failed compilation or deferred to a judge therefore leaves its old score standing.
\<close>

theorem standings_keep_stale_row:
  assumes "duration timer \<noteq> 0"
    and "updateStandings timer now (Some d) uid st = (ok, st', events)"
    and "\<forall>p. standings_subs timer now uid d w u p = []"
  shows "smap_find (standings_of w st') u = smap_find (standings_of w st) u"
proof (cases "smap_find (collect timer now uid d) u")
  case None
  then show ?thesis using updateStandings_find [OF assms(1,2), of w u] by simp
next
  case (Some probs)
  have "scored u d (standings_subs timer now uid d w u) (pick w (teamdata u probs d))"
    by (rule teamdata_scored [OF Some])
  then have "smap_find (tries (pick w (teamdata u probs d))) q = None" for q
    using assms(3) by (simp add: scored_def)
  then have "tries (pick w (teamdata u probs d)) = []"
    using smap_find.simps(2) by (metis list.exhaust surj_pair option.distinct(1))
  with Some show ?thesis using updateStandings_find [OF assms(1,2), of w u] by (simp add: published_def)
qed

text \<open>Every submission of the user is deferred to a judge.\<close>

definition deferred_db :: db where
  "deferred_db = (example_db 5)\<lparr>t_SubmissionMark := [((1, 1), example_mark 5), ((2, 1), example_mark 5)]\<rparr>"

definition solved_row :: StandingsData where
  "solved_row = \<lparr>in_standings = True, st_time = 1800, points = 1, tries = [(7, 2)]\<rparr>"

theorem standings_keep_stale_row_witness:
  "smap_find (standings_of True (fst (snd (updateStandings example_timer 0 (Some deferred_db) 0
      \<lparr>final_standings = [(1, solved_row)], contestant_standings = []\<rparr>)))) 1 = Some solved_row"
proof -
  let ?st = "\<lparr>final_standings = [(1, solved_row)], contestant_standings = []\<rparr>"
  let ?r = "updateStandings example_timer 0 (Some deferred_db) 0 ?st"
  have "List.map_filter (counted example_timer 0 deferred_db) (getSubmissions 0 deferred_db) = []" by code_simp
  then have "\<forall>p. standings_subs example_timer 0 0 deferred_db True 1 p = []"
    by (simp add: standings_subs_def subs_at_def)
  moreover have "duration example_timer \<noteq> 0" by (simp add: example_timer_def)
  moreover have "?r = (fst ?r, fst (snd ?r), snd (snd ?r))" by simp
  ultimately have "smap_find (standings_of True (fst (snd ?r))) 1 = smap_find (standings_of True ?st) 1"
    by (intro standings_keep_stale_row)
  then show ?thesis by (simp add: standings_of_def)
qed

end
