(* ===== verification/Events.thy ===== *)
theory Events
  imports Permissions Message_Block
begin

text \<open>
  Client connections and the events they are told about: \<^verbatim>\<open>src/clienteventregistry.C\<close>, the state
  of a connection that the server uses (\<^verbatim>\<open>src/clientconnection.C\<close>), and the handlers that log a
  connection in (\<^verbatim>\<open>src/act_auth.C\<close>) and subscribe it to events (\<^verbatim>\<open>src/act_events.C\<close>). A
  connection is an address. Reading or writing a connection that has been deleted is the
  value None, so that a theorem that an operation returns Some says it touches live
  connections only. Every operation of the registry runs under its mutex and is one step.
\<close>

section \<open>State\<close>

type_synonym conn = nat

text \<open>What the server keeps of a connection; \<open>cn_queue\<close> is \<^verbatim>\<open>_write_queue\<close>.\<close>

record connection =
  cn_user_id :: u32
  cn_group_id :: u32
  cn_permissions :: PermissionSet
  cn_queue :: "string list"

text \<open>The set of subscribers is ordered by address.\<close>

record Event =
  e_clients :: "(conn, unit) smap"
  e_pt :: PermissionTest

record hub =
  conns :: "(conn, connection) smap"
  eventmap :: "(string, Event) smap"
  clients :: "(u32 \<times> conn) list"

definition hub_new :: hub where
  "hub_new = \<lparr>conns = [], eventmap = [], clients = []\<rparr>"

section \<open>Connections\<close>

definition connection_new :: connection where
  "connection_new = \<lparr>cn_user_id = 0, cn_group_id = 1, cn_permissions = empty_set, cn_queue = []\<rparr>"

definition sendMessageBlock :: "conn \<Rightarrow> MessageBlock \<Rightarrow> hub \<Rightarrow> hub option" where
  "sendMessageBlock cc mb h = (case smap_find (conns h) cc of
       None \<Rightarrow> None
     | Some c \<Rightarrow>
         (let raw = getRaw mb
          in Some (if raw \<noteq> [] then h\<lparr>conns := smap_put cc (c\<lparr>cn_queue := cn_queue c @ [raw]\<rparr>) (conns h)\<rparr> else h)))"

section \<open>The registry\<close>

text \<open>\<^verbatim>\<open>multimap::insert\<close> puts the new pair behind those with the same key.\<close>

fun multimap_insert :: "u32 \<Rightarrow> conn \<Rightarrow> (u32 \<times> conn) list \<Rightarrow> (u32 \<times> conn) list" where
  "multimap_insert k v [] = [(k, v)]"
| "multimap_insert k v ((k', v') # m) =
     (if k < k' then (k, v) # (k', v') # m else (k', v') # multimap_insert k v m)"

definition registerClient :: "conn \<Rightarrow> hub \<Rightarrow> hub option" where
  "registerClient cc h = (case smap_find (conns h) cc of
       None \<Rightarrow> None
     | Some c \<Rightarrow> Some (h\<lparr>clients := multimap_insert (cn_user_id c) cc (clients h)\<rparr>))"

text \<open>
  \<^verbatim>\<open>Event::registerClient\<close> and \<^verbatim>\<open>Event::deregisterClient\<close>: both refuse a connection whose
  permissions do not pass the test of the event.
\<close>

definition event_registerClient :: "conn \<Rightarrow> connection \<Rightarrow> Event \<Rightarrow> bool \<times> Event" where
  "event_registerClient cc c e =
     (if matches (e_pt e) (cn_permissions c) \<noteq> Some True then (False, e)
      else (True, e\<lparr>e_clients := smap_put cc () (e_clients e)\<rparr>))"

definition event_deregisterClient :: "conn \<Rightarrow> connection \<Rightarrow> Event \<Rightarrow> bool \<times> Event" where
  "event_deregisterClient cc c e =
     (if matches (e_pt e) (cn_permissions c) \<noteq> Some True then (False, e)
      else (True, e\<lparr>e_clients := smap_erase cc (e_clients e)\<rparr>))"

definition registerClient_event :: "string \<Rightarrow> conn \<Rightarrow> hub \<Rightarrow> (bool \<times> hub) option" where
  "registerClient_event name cc h = (case smap_find (conns h) cc of
       None \<Rightarrow> None
     | Some c \<Rightarrow> (case smap_find (eventmap h) name of
           None \<Rightarrow> Some (False, h)
         | Some e \<Rightarrow> (case event_registerClient cc c e of (ok, e') \<Rightarrow>
             Some (ok, h\<lparr>eventmap := smap_put name e' (eventmap h)\<rparr>))))"

definition deregisterClient_event :: "string \<Rightarrow> conn \<Rightarrow> hub \<Rightarrow> (bool \<times> hub) option" where
  "deregisterClient_event name cc h = (case smap_find (conns h) cc of
       None \<Rightarrow> None
     | Some c \<Rightarrow> (case smap_find (eventmap h) name of
           None \<Rightarrow> Some (False, h)
         | Some e \<Rightarrow> (case event_deregisterClient cc c e of (ok, e') \<Rightarrow>
             Some (ok, h\<lparr>eventmap := smap_put name e' (eventmap h)\<rparr>))))"

definition isClientRegistered :: "string \<Rightarrow> conn \<Rightarrow> hub \<Rightarrow> bool" where
  "isClientRegistered name cc h = (case smap_find (eventmap h) name of
       None \<Rightarrow> False | Some e \<Rightarrow> smap_find (e_clients e) cc \<noteq> None)"

text \<open>
  \<^verbatim>\<open>deregisterClient(cc)\<close>: out of every event, and out of the range of the connection's present
  user id in the map of clients.
\<close>

definition deregisterClient :: "conn \<Rightarrow> hub \<Rightarrow> hub option" where
  "deregisterClient cc h = (case smap_find (conns h) cc of
       None \<Rightarrow> None
     | Some c \<Rightarrow> Some (h\<lparr>
         eventmap := map (\<lambda>(n, e). (n, snd (event_deregisterClient cc c e))) (eventmap h),
         clients := filter (\<lambda>(u, x). \<not> (u = cn_user_id c \<and> x = cc)) (clients h)\<rparr>))"

definition registerEvent :: "string \<Rightarrow> PermissionTest \<Rightarrow> hub \<Rightarrow> hub" where
  "registerEvent name pt h = (case smap_find (eventmap h) name of
       Some e \<Rightarrow> h
     | None \<Rightarrow> h\<lparr>eventmap := smap_put name \<lparr>e_clients = [], e_pt = pt\<rparr> (eventmap h)\<rparr>)"

text \<open>Sending to a list of connections in turn.\<close>

fun send_all :: "conn list \<Rightarrow> MessageBlock \<Rightarrow> hub \<Rightarrow> hub option" where
  "send_all [] mb h = Some h"
| "send_all (cc # ccs) mb h = (case sendMessageBlock cc mb h of
       None \<Rightarrow> None | Some h' \<Rightarrow> send_all ccs mb h')"

definition triggerEvent :: "string \<Rightarrow> MessageBlock \<Rightarrow> hub \<Rightarrow> hub option" where
  "triggerEvent name mb h = (case smap_find (eventmap h) name of
       None \<Rightarrow> Some h | Some e \<Rightarrow> send_all (map fst (e_clients e)) mb h)"

text \<open>A loop that asks each connection before it sends; asking a deleted one is an error.\<close>

fun send_if :: "(connection \<Rightarrow> bool) \<Rightarrow> conn list \<Rightarrow> MessageBlock \<Rightarrow> hub \<Rightarrow> hub option" where
  "send_if P [] mb h = Some h"
| "send_if P (cc # ccs) mb h = (case smap_find (conns h) cc of
       None \<Rightarrow> None
     | Some c \<Rightarrow>
         if P c then (case sendMessageBlock cc mb h of None \<Rightarrow> None | Some h' \<Rightarrow> send_if P ccs mb h')
         else send_if P ccs mb h)"

definition triggerGroupEvent :: "string \<Rightarrow> MessageBlock \<Rightarrow> u32 \<Rightarrow> hub \<Rightarrow> hub option" where
  "triggerGroupEvent name mb group_id h = (case smap_find (eventmap h) name of
       None \<Rightarrow> Some h
     | Some e \<Rightarrow> send_if (\<lambda>c. cn_group_id c = group_id) (map fst (e_clients e)) mb h)"

fun broadcast_loop ::
  "u32 \<Rightarrow> PermissionTest \<Rightarrow> MessageBlock \<Rightarrow> (u32 \<times> conn) list \<Rightarrow> hub \<Rightarrow> hub option" where
  "broadcast_loop user pt mb [] h = Some h"
| "broadcast_loop user pt mb ((u, cc) # rest) h = (case smap_find (conns h) cc of
       None \<Rightarrow> None
     | Some c \<Rightarrow>
         if u = user \<or> matches pt (cn_permissions c) = Some True
         then (case sendMessageBlock cc mb h of None \<Rightarrow> None | Some h' \<Rightarrow> broadcast_loop user pt mb rest h')
         else broadcast_loop user pt mb rest h)"

definition broadcastEvent :: "u32 \<Rightarrow> PermissionTest \<Rightarrow> MessageBlock \<Rightarrow> hub \<Rightarrow> hub option" where
  "broadcastEvent user pt mb h = broadcast_loop user pt mb (clients h) h"

definition sendMessage_to :: "u32 \<Rightarrow> MessageBlock \<Rightarrow> hub \<Rightarrow> hub option" where
  "sendMessage_to user mb h = send_all (map snd (filter (\<lambda>(u, cc). u = user) (clients h))) mb h"

section \<open>Events of the server\<close>

text \<open>The calls of \<^verbatim>\<open>registerEvent\<close> in the modules of the server.\<close>

definition server_events :: "(string \<times> PermissionTest) list" where
  "server_events = [
     (''updateclarifications'', PT_BASE PERMISSION_AUTH),
     (''updateclarificationrequests'', PT_BASE PERMISSION_AUTH),
     (''startstop'', PT_BASE PERMISSION_AUTH),
     (''updateclock'', PT_BASE PERMISSION_AUTH),
     (''updatesubmissions'', PT_BASE PERMISSION_AUTH),
     (''updatestandings'', PT_BASE PERMISSION_SEE_STANDINGS)]"

section \<open>Handlers\<close>

definition update_conn :: "conn \<Rightarrow> (connection \<Rightarrow> connection) \<Rightarrow> hub \<Rightarrow> hub" where
  "update_conn cc f h = (case smap_find (conns h) cc of
       None \<Rightarrow> h | Some c \<Rightarrow> h\<lparr>conns := smap_put cc (f c) (conns h)\<rparr>)"

text \<open>
  The end of \<^verbatim>\<open>ActAuth\<close>, after the password was accepted: a connection that was logged in is
  taken out of the registry first. The preemption of its marking job is left to the caller.
\<close>

definition login :: "conn \<Rightarrow> u32 \<Rightarrow> nat \<Rightarrow> u32 \<Rightarrow> hub \<Rightarrow> hub option" where
  "login cc user user_type grp h = (case smap_find (conns h) cc of
       None \<Rightarrow> None
     | Some c \<Rightarrow> (case (if cn_user_id c \<noteq> 0 then deregisterClient cc h else Some h) of
           None \<Rightarrow> None
         | Some h1 \<Rightarrow> registerClient cc (update_conn cc (\<lambda>c. c\<lparr>cn_user_id := user, cn_group_id := grp,
               cn_permissions := permissions_of user_type\<rparr>) h1)))"

definition Act_ClientEventRegistry :: "conn \<Rightarrow> MessageBlock \<Rightarrow> hub \<Rightarrow> (MessageBlock \<times> hub) option" where
  "Act_ClientEventRegistry cc mb h =
     (let action = mb_get mb ''action''; event = mb_get mb ''event'';
          answer = (\<lambda>r. case r of None \<Rightarrow> None
            | Some (ok, h') \<Rightarrow>
                Some (if ok then mb_ok else mb_error ''No such event or permission denied'', h'))
      in if action = ''subscribe'' then answer (registerClient_event event cc h)
         else if action = ''unsubscribe'' then answer (deregisterClient_event event cc h)
         else Some (mb_error ''Unknown action'', h))"

text \<open>A new connection, and the destructor of \<^verbatim>\<open>ClientConnection\<close>.\<close>

definition accept_conn :: "conn \<Rightarrow> hub \<Rightarrow> hub" where
  "accept_conn cc h = h\<lparr>conns := smap_put cc connection_new (conns h)\<rparr>"

definition close_conn :: "conn \<Rightarrow> hub \<Rightarrow> hub option" where
  "close_conn cc h = map_option (\<lambda>h'. h'\<lparr>conns := smap_erase cc (conns h')\<rparr>) (deregisterClient cc h)"

end
