(* ===== verification/Server_State.thy ===== *)
theory Server_State
  imports Events Standings Markers Ids Message_Registry
begin

text \<open>
  The state of a running \<^verbatim>\<open>abacusd\<close>, put together from its components, and the small steps that
  the handlers and messages share: sending to clients, asking the dispatcher of markers,
  updating the standings, and \<^verbatim>\<open>SubmissionSupportModule::submissionToMB\<close>.
\<close>

section \<open>State\<close>

text \<open>
  \<open>sv_name\<close> and \<open>sv_master\<close> are the configured name and type of this server and \<open>sv_id\<close> the static
  variable in which \<^verbatim>\<open>Server::getId\<close> remembers its number. \<open>sv_connected\<close> tells whether \<^verbatim>\<open>DbCon::getInstance()\<close> answers a connection. \<open>sv_startstop\<close> is the
  table \<^verbatim>\<open>ContestStartStop\<close>, \<open>sv_timed\<close> the queue of timed actions by their time, \<open>sv_acks\<close> the
  queue of servers to resend to, \<open>sv_network\<close> what was handed to the peer messenger: the
  receiver and the blob. \<open>sv_probtypes\<close> are the registered problem types with
  their attribute lists. The static variables of the functions that hand out numbers are
  the last fields.
\<close>

record server =
  sv_name :: string
  sv_master :: bool
  sv_id :: u32
  sv_now :: time_t
  sv_connected :: bool
  sv_db :: db
  sv_startstop :: "startstop_row list"
  sv_timer :: timer
  sv_standings :: standings_module
  sv_markers :: markers_state
  sv_hub :: hub
  sv_timed :: "time_t list"
  sv_acks :: "u32 list"
  sv_network :: "(u32 \<times> bytes) list"
  sv_languages :: "string list"
  sv_probtypes :: "(string, string list) smap"
  sv_last_submission :: u32
  sv_last_request :: u32
  sv_last_clarification :: u32
  sv_last_problem :: u32
  sv_last_user :: u32
  sv_last_group :: u32
  sv_last_server :: u32

definition con :: "server \<Rightarrow> db option" where
  "con s = (if sv_connected s then Some (sv_db s) else None)"

definition my_id :: "server \<Rightarrow> u32" where
  "my_id s = fst (getId (con s) (sv_name s) (sv_master s) (sv_id s))"

definition remember_id :: "server \<Rightarrow> server" where
  "remember_id s = s\<lparr>sv_id := snd (getId (con s) (sv_name s) (sv_master s) (sv_id s))\<rparr>"

section \<open>Faults\<close>

text \<open>
  What ends the process or reads memory that is not the program's: using a deleted connection, a
  null pointer, memory that has been freed or bytes outside a buffer, popping an empty stack,
  and the exception \<^verbatim>\<open>bad_string\<close>, which nothing in the server catches.
\<close>

datatype fault = Deleted_connection | Null_pointer | Freed_memory | Overread | Bad_stack | Bad_string

type_synonym 'a run = "fault + 'a \<times> server"

definition bind_run :: "'a run \<Rightarrow> ('a \<Rightarrow> server \<Rightarrow> 'b run) \<Rightarrow> 'b run" where
  "bind_run r f = (case r of Inl e \<Rightarrow> Inl e | Inr (x, s) \<Rightarrow> f x s)"

definition with_hub :: "(hub \<Rightarrow> hub option) \<Rightarrow> server \<Rightarrow> unit run" where
  "with_hub f s = (case f (sv_hub s) of
       None \<Rightarrow> Inl Deleted_connection | Some h \<Rightarrow> Inr ((), s\<lparr>sv_hub := h\<rparr>))"

lemma bind_run_simps [simp]:
  "bind_run (Inl e) f = Inl e" "bind_run (Inr (x, s)) f = f x s"
  by (simp_all add: bind_run_def)

section \<open>Sending\<close>

definition broadcast :: "u32 \<Rightarrow> PermissionTest \<Rightarrow> MessageBlock \<Rightarrow> server \<Rightarrow> unit run" where
  "broadcast user pt mb s = with_hub (broadcastEvent user pt mb) s"

fun broadcast_all :: "(PermissionTest \<times> MessageBlock) list \<Rightarrow> server \<Rightarrow> unit run" where
  "broadcast_all [] s = Inr ((), s)"
| "broadcast_all ((pt, mb) # rest) s = bind_run (broadcast 0 pt mb s) (\<lambda>_. broadcast_all rest)"

text \<open>\<^verbatim>\<open>updateStandings(uid, 0)\<close> with its broadcasts.\<close>

definition update_standings :: "u32 \<Rightarrow> server \<Rightarrow> bool run" where
  "update_standings uid s =
     (case updateStandings (sv_timer s) (sv_now s) (con s) uid (sv_standings s) of (ok, st, events) \<Rightarrow>
        bind_run (broadcast_all events (s\<lparr>sv_standings := st\<rparr>)) (\<lambda>_ s'. Inr (ok, s')))"

text \<open>
  An operation of the dispatcher of markers. What it sends goes to the connections themselves.
\<close>

fun send_each :: "(conn \<times> MessageBlock) list \<Rightarrow> hub \<Rightarrow> hub option" where
  "send_each [] h = Some h"
| "send_each ((cc, mb) # rest) h = (case sendMessageBlock cc mb h of
       None \<Rightarrow> None | Some h' \<Rightarrow> send_each rest h')"

definition submissions_db :: "server \<Rightarrow> submission_db" where
  "submissions_db s = map_option (\<lambda>d i. retrieveSubmission 0 i d) (con s)"

definition with_markers ::
  "(submission_db \<Rightarrow> time_t \<Rightarrow> markers_state \<Rightarrow> markers_state) \<Rightarrow> server \<Rightarrow> unit run" where
  "with_markers f s =
     (let m = f (submissions_db s) (sv_now s) ((sv_markers s)\<lparr>sent := []\<rparr>)
      in with_hub (send_each (sent m)) (s\<lparr>sv_markers := m\<rparr>))"

section \<open>Submissions as message blocks\<close>

definition PENDING :: int where "PENDING = - 1"

definition set_attrs :: "attributes \<Rightarrow> string \<Rightarrow> MessageBlock \<Rightarrow> MessageBlock" where
  "set_attrs a suffix mb = fold (\<lambda>(k, v). mb_set (k @ suffix) v) a mb"

text \<open>None is the exception of \<^verbatim>\<open>from_string\<close> on a column that is missing or no number.\<close>

definition submissionToMB ::
  "timer \<Rightarrow> time_t \<Rightarrow> db \<Rightarrow> attributes \<Rightarrow> string \<Rightarrow> MessageBlock \<Rightarrow> MessageBlock option" where
  "submissionToMB timer now d a suffix mb =
     (case (from_string_u32 (attr a ''submission_id''),
            from_string (- (2 ^ 63)) (2 ^ 63 - 1) (attr a ''time''),
            from_string_u32 (attr a ''group_id'')) of
        (Some sub_id, Some tm, Some grp) \<Rightarrow>
          (let mb1 = set_attrs a suffix mb;
               mb2 = mb_set (''contesttime'' @ suffix) (to_string (contestTime timer now grp tm)) mb1;
               (res, comment) = (case getSubmissionState sub_id d of
                   None \<Rightarrow> (PENDING, ''Pending'')
                 | Some (r, ty, c) \<Rightarrow> (sint r, c))
           in Some (mb_set (''comment'' @ suffix) comment (mb_set (''result'' @ suffix) (to_string res) mb2)))
      | _ \<Rightarrow> None)"

section \<open>Timed actions and acknowledgements\<close>

definition putTimedAction :: "time_t \<Rightarrow> server \<Rightarrow> server" where
  "putTimedAction t s = s\<lparr>sv_timed := sv_timed s @ [t]\<rparr>"

definition putAck :: "u32 \<Rightarrow> u32 \<Rightarrow> u32 \<Rightarrow> server \<Rightarrow> server" where
  "putAck server message ack_id s =
     (if ack_id = 0 then s
      else (let s1 = s\<lparr>sv_acks := sv_acks s @ [ack_id]\<rparr>
            in if server \<noteq> 0 \<and> message \<noteq> 0 \<and> sv_connected s
               then s1\<lparr>sv_db := ackMessage server message ack_id (sv_db s1)\<rparr> else s1))"

section \<open>Making messages\<close>

text \<open>
  \<^verbatim>\<open>Message::makeMessage\<close>: None is the answer false. The buffer is shown as filled with zeros;
  every class writes all of it. The connection to the database is used without a check.
  Whatever the messenger does with the blob, it is handed to it for every other server.
\<close>

definition message_row :: "server \<Rightarrow> message \<Rightarrow> bytes \<Rightarrow> u32 \<Rightarrow> peer_row" where
  "message_row s m data i = \<lparr>r_type_id = message_type_id m, r_time = word_of_int (sv_now s),
     r_signature = replicate MESSAGE_SIGNATURE_SIZE 0, r_data = data, r_processed = False\<rparr>"

definition makeMessage :: "message \<Rightarrow> server \<Rightarrow> message_head option run" where
  "makeMessage m s =
     (case pack (storageRequired m) (store m) (replicate (unat (storageRequired m)) 0) of
        None \<Rightarrow> Inr (None, s)
      | Some data \<Rightarrow> (case con s of
            None \<Rightarrow> Inl Null_pointer
          | Some d \<Rightarrow> (case putLocalMessage (my_id s) (message_row s m data) d of
                None \<Rightarrow> Inr (None, s)
              | Some (i, d1) \<Rightarrow>
                  (let h = \<lparr>mh_server_id = my_id s, mh_message_id = i, mh_time = word_of_int (sv_now s),
                            mh_signature = replicate MESSAGE_SIGNATURE_SIZE 0\<rparr>;
                       blob = makeBlob h (message_type_id m) data
                   in Inr (Some h, s\<lparr>sv_db := d1,
                        sv_network := sv_network s @ map (\<lambda>r. (r, blob)) (getRemoteServers (my_id s) d1)\<rparr>)))))"

text \<open>
  \<^verbatim>\<open>Message::buildMessage\<close> from the columns of a row of \<^verbatim>\<open>PeerMessage\<close>, as for messages that are
  resent or were not processed before a restart.
\<close>

definition rebuild :: "u32 \<times> u32 \<Rightarrow> peer_row \<Rightarrow> build_result" where
  "rebuild k r = (case map_of functors (r_type_id r) of
       None \<Rightarrow> Build_unknown (r_type_id r)
     | Some load \<Rightarrow> (case load (r_data r) (u32_of (length (r_data r))) of
           Loaded m n \<Rightarrow> Built \<lparr>mh_server_id = fst k, mh_message_id = snd k, mh_time = r_time r,
                           mh_signature = r_signature r\<rparr> m
         | Rejected \<Rightarrow> Build_rejected
         | Out_of_bounds \<Rightarrow> Build_overread))"

section \<open>An example\<close>

text \<open>A master server just started.\<close>

definition example_server :: "db \<Rightarrow> server" where
  "example_server d = \<lparr>sv_name = ''main'', sv_master = True, sv_id = 1, sv_now = 5000, sv_connected = True,
     sv_db = d, sv_startstop = [], sv_timer = \<lparr>evlist = [\<lparr>ev_time = 1000, ev_group = 0, ev_action = TIMER_STATUS_STARTED\<rparr>],
       duration = 18000, blinds = 3600, group_state = Map.empty\<rparr>,
     sv_standings = \<lparr>final_standings = [], contestant_standings = []\<rparr>, sv_markers = markers_new 120,
     sv_hub = fold (\<lambda>(name, pt). registerEvent name pt) server_events hub_new,
     sv_timed = [], sv_acks = [], sv_network = [], sv_languages = [''C++'', ''Java''], sv_probtypes = [],
     sv_last_submission = 0, sv_last_request = 0, sv_last_clarification = 0, sv_last_problem = 0,
     sv_last_user = 0, sv_last_group = 0, sv_last_server = 0\<rparr>"

end
