(* ===== verification/Processing.thy ===== *)
theory Processing
  imports Server_State
begin

text \<open>
  What a message does when a server processes it: \<^verbatim>\<open>int_process\<close> of the ten message classes and
  \<^verbatim>\<open>Message::process\<close>. The result is the status that the function returns and the new state, or
  the fault that ends the process.
\<close>

section \<open>Accounts, groups and servers\<close>

definition process_passwd :: "PasswdMessage \<Rightarrow> server \<Rightarrow> bool run" where
  "process_passwd m s = (case con s of
       None \<Rightarrow> Inr (False, s)
     | Some d \<Rightarrow> Inr (True, s\<lparr>sv_db := d\<lparr>t_User :=
         update_row (pw_user_id m) (\<lambda>r. r\<lparr>u_password := pw_newpass m\<rparr>) (t_User d)\<rparr>\<rparr>))"

definition process_bonus :: "BonusMessage \<Rightarrow> server \<Rightarrow> bool run" where
  "process_bonus m s = (case con s of
       None \<Rightarrow> Inr (False, s)
     | Some d \<Rightarrow>
         (let s1 = s\<lparr>sv_db := d\<lparr>t_User := update_row (bn_user_id m)
                (\<lambda>r. r\<lparr>u_bonus_points := sint (bn_points m), u_bonus_seconds := sint (bn_seconds m)\<rparr>) (t_User d)\<rparr>\<rparr>
          in bind_run (update_standings (bn_user_id m) s1) (\<lambda>_ s2. Inr (True, s2))))"

text \<open>\<^verbatim>\<open>addUser\<close> and \<^verbatim>\<open>addGroup\<close> of the user module: false without a connection or on a duplicate.\<close>

definition db_try :: "(db \<Rightarrow> db option) \<Rightarrow> server \<Rightarrow> bool \<times> server" where
  "db_try f s = (case con s of
       None \<Rightarrow> (False, s)
     | Some d \<Rightarrow> (case f d of None \<Rightarrow> (False, s) | Some d' \<Rightarrow> (True, s\<lparr>sv_db := d'\<rparr>)))"

definition process_creategroup :: "CreateGroup \<Rightarrow> server \<Rightarrow> bool run" where
  "process_creategroup m s =
     (let (added, s1) = db_try (addGroup (cg_group_id m) (cg_groupname m)) s;
          (old, new, t) = updateGroupState (sv_timer s1) (sv_now s1) (cg_group_id m) (sv_now s1)
      in Inr (added, s1\<lparr>sv_timer := t\<rparr>))"

definition user_notice :: "bool \<Rightarrow> string \<Rightarrow> MessageBlock" where
  "user_notice added name =
     mb_set ''text'' (if added then ''User '' @ [CHR 0x27] @ name @ [CHR 0x27] @ '' was successfully added.''
                      else ''Addition of user '' @ [CHR 0x27] @ name @ [CHR 0x27] @ '' failed!'')
       (mb_set ''title'' ''User addition'' (MessageBlock_new ''msg''))"

definition process_createuser :: "CreateUser \<Rightarrow> server \<Rightarrow> bool run" where
  "process_createuser m s =
     (let (added, s1) = db_try (addUser (cu_user_id m) (cu_username m) (cu_friendlyname m) (cu_password m)
            (cu_type m) (cu_group_id m)) s
      in if cu_requestor_id m \<noteq> 0
         then bind_run (with_hub (sendMessage_to (cu_requestor_id m) (user_notice added (cu_username m))) s1)
                (\<lambda>_ s2. Inr (added, s2))
         else Inr (added, s1))"

text \<open>
  \<^verbatim>\<open>addServer\<close> asks for this server's own number after it has inserted the row, which may be the
  row of this server.
\<close>

definition process_createserver :: "CreateServer \<Rightarrow> server \<Rightarrow> bool run" where
  "process_createserver m s = (case con s of
       None \<Rightarrow> Inr (False, s)
     | Some d \<Rightarrow> (case insert_row (cs_server_id m) (cs_name m) (t_Server d) of
           None \<Rightarrow> Inr (False, s)
         | Some t \<Rightarrow>
             (let s1 = remember_id (s\<lparr>sv_db := d\<lparr>t_Server := t\<rparr>\<rparr>)
              in case addServer (my_id s1) (cs_name m) (cs_server_id m) d of
                   None \<Rightarrow> Inr (False, s1)
                 | Some d1 \<Rightarrow>
                     (let d2 = fold (\<lambda>(k, v). setServerAttribute (cs_server_id m) k v) (cs_attribs m) d1
                      in Inr (True, putAck 0 0 (cs_server_id m) (s1\<lparr>sv_db := d2\<rparr>))))))"

section \<open>Submissions and marks\<close>

definition failed_notice :: "string \<Rightarrow> MessageBlock" where
  "failed_notice problem = mb_set ''msg'' (''Your submission for '' @ [CHR 0x27] @ problem @ [CHR 0x27] @
     '' has failed - please notify the contest administrator'') (MessageBlock_new ''submission'')"

text \<open>The announcement of a submission; the exception of \<^const>\<open>submissionToMB\<close> is not caught.\<close>

definition announce_submission :: "u32 \<Rightarrow> attributes \<Rightarrow> server \<Rightarrow> unit run" where
  "announce_submission user a s =
     (case submissionToMB (sv_timer s) (sv_now s) (sv_db s) a [] (MessageBlock_new ''updatesubmissions'') of
        None \<Rightarrow> Inl Bad_string
      | Some mb \<Rightarrow> broadcast user (PT_BASE PERMISSION_SEE_ALL_SUBMISSIONS) mb s)"

definition process_submission :: "SubmissionMessage \<Rightarrow> server \<Rightarrow> bool run" where
  "process_submission m s = (case con s of
       None \<Rightarrow> Inr (False, s)
     | Some d \<Rightarrow>
         bind_run
           (case putSubmission (sm_submission_id m) (sm_user_id m) (sm_prob_id m) (sm_time m) (sm_server_id m)
                   (sm_content m) (sm_language m) d of
              None \<Rightarrow> Inr (False, s)
            | Some d1 \<Rightarrow>
                (let s1 = s\<lparr>sv_db := d1\<rparr>; a = getSubmission (sm_submission_id m) d1
                 in bind_run (if a = [] then Inr ((), s1) else announce_submission (sm_user_id m) a s1) (\<lambda>_ s2.
                    bind_run (if getServerAttribute (my_id s2) ''marker'' (sv_db s2) = ''yes''
                              then with_markers (\<lambda>sdb now. enqueueSubmission sdb now (sm_submission_id m)) s2
                              else Inr ((), s2)) (\<lambda>_ s3. Inr (a \<noteq> [], s3)))))
           (\<lambda>result s4.
              if result then Inr (True, s4)
              else bind_run (with_hub (sendMessage_to (sm_user_id m)
                     (failed_notice (attr (getProblemAttributes (sm_prob_id m) (sv_db s4)) ''shortname''))) s4)
                   (\<lambda>_ s5. Inr (False, s5))))"

text \<open>A file that is there already is logged and left as it is.\<close>

definition put_files :: "MarkMessage \<Rightarrow> db \<Rightarrow> db" where
  "put_files m d = fold (\<lambda>f d. case putMarkFile (mm_submission_id m) (mm_marker m) (mf_name f) (mf_data f) d of
     None \<Rightarrow> d | Some d' \<Rightarrow> d') (mm_files m) d"

definition process_mark :: "MarkMessage \<Rightarrow> server \<Rightarrow> bool run" where
  "process_mark m s = (case con s of
       None \<Rightarrow> Inr (False, s)
     | Some d \<Rightarrow>
         (let d1 = put_files m (putMark (mm_submission_id m) (mm_marker m) (uint (mm_time m)) (mm_result m)
                     (mm_comment m) (mm_server_id m) d);
              s1 = s\<lparr>sv_db := d1\<rparr>;
              user = submission2user_id (mm_submission_id m) d1
          in bind_run (announce_submission user (getSubmission (mm_submission_id m) d1) s1) (\<lambda>_ s2.
             bind_run (if mm_result m \<noteq> JUDGE then update_standings user s2 else Inr (True, s2)) (\<lambda>_ s3.
             Inr (True, s3)))))"

section \<open>Clarifications\<close>

text \<open>
  A reply is stored before its request is looked for, and \<^verbatim>\<open>getClarification\<close> makes a string of
  the question of the request: a null pointer when the request is not there.
\<close>

definition process_clarification :: "ClarificationMessage \<Rightarrow> server \<Rightarrow> bool run" where
  "process_clarification m s = (case con s of
       None \<Rightarrow> Inr (False, s)
     | Some d \<Rightarrow>
         if cl_request m \<noteq> 0 then
           (case putClarificationRequest (cl_clarification_request_id m) (cl_user_id m) (cl_prob_id m)
                   (uint (cl_time m)) (cl_text m) d of
              None \<Rightarrow> Inr (False, s)
            | Some d1 \<Rightarrow>
                (let s1 = s\<lparr>sv_db := d1\<rparr>; req = getClarificationRequest (cl_clarification_request_id m) d1
                 in if req = [] then Inr (False, s1)
                    else bind_run (broadcast (cl_user_id m) (PT_BASE PERMISSION_SEE_ALL_CLARIFICATION_REQUESTS)
                           (set_attrs req [] (MessageBlock_new ''updateclarificationrequests'')) s1)
                         (\<lambda>_ s2. Inr (True, s2))))
         else
           (let req = getClarificationRequest (cl_clarification_request_id m) d
            in case putClarification (cl_clarification_request_id m) (cl_clarification_id m) (cl_user_id m)
                      (uint (cl_time m)) (cl_prob_id m) (cl_text m) d of
                 None \<Rightarrow> Inr (False, s)
               | Some d1 \<Rightarrow>
                   (let s1 = s\<lparr>sv_db := d1\<rparr>
                    in case getClarification (cl_clarification_id m) d1 of
                         None \<Rightarrow> Inl Null_pointer
                       | Some c \<Rightarrow>
                           if req = [] then Inr (False, s1)
                           else (let notify = set_attrs c [] (MessageBlock_new ''updateclarifications'')
                                 in if cl_prob_id m \<noteq> 0
                                    then bind_run (broadcast 0 (PT_BASE PERMISSION_AUTH) notify s1)
                                           (\<lambda>_ s2. Inr (True, s2))
                                    else (case from_string_u32 (attr req ''user_id'') of
                                            None \<Rightarrow> Inl Bad_string
                                          | Some user \<Rightarrow>
                                              bind_run (broadcast user (PT_BASE PERMISSION_SEE_ALL_CLARIFICATIONS) notify s1)
                                                (\<lambda>_ s2. Inr (True, s2)))))))"

section \<open>Starting and stopping\<close>

text \<open>\<^verbatim>\<open>StartStopAction::perform\<close>: tells every group whose state has changed.\<close>

definition startstop_notice :: "int \<Rightarrow> MessageBlock" where
  "startstop_notice new = mb_set ''action'' (if new = TIMER_STATUS_STARTED then ''start'' else ''stop'')
     (MessageBlock_new ''startstop'')"

fun perform_groups :: "time_t \<Rightarrow> u32 list \<Rightarrow> server \<Rightarrow> unit run" where
  "perform_groups tm [] s = Inr ((), s)"
| "perform_groups tm (g # gs) s =
     (case updateGroupState (sv_timer s) (sv_now s) g tm of (old, new, t) \<Rightarrow>
        bind_run (if old \<noteq> new
                  then with_hub (triggerGroupEvent ''startstop'' (startstop_notice new) g) (s\<lparr>sv_timer := t\<rparr>)
                  else Inr ((), s\<lparr>sv_timer := t\<rparr>))
          (\<lambda>_. perform_groups tm gs))"

definition all_groups :: "server \<Rightarrow> u32 list" where
  "all_groups s = (case con s of None \<Rightarrow> [] | Some d \<Rightarrow> map fst (groupList d))"

definition StartStopAction_perform :: "time_t \<Rightarrow> server \<Rightarrow> unit run" where
  "StartStopAction_perform tm s = perform_groups tm (all_groups s) s"

text \<open>The ends of the contest that the message has moved, each once.\<close>

fun put_ends :: "u32 \<Rightarrow> time_t \<Rightarrow> u32 list \<Rightarrow> time_t list \<Rightarrow> server \<Rightarrow> server" where
  "put_ends grp now [] seen s = s"
| "put_ends grp now (g # gs) seen s =
     (if grp = 0 \<or> grp = g then
        (let e = contestEndTime (sv_timer s) g
         in if e > now \<and> e \<notin> set seen then put_ends grp now gs (e # seen) (putTimedAction e s)
            else put_ends grp now gs seen s)
      else put_ends grp now gs seen s)"

definition process_startstop :: "MsgStartStop \<Rightarrow> server \<Rightarrow> bool run" where
  "process_startstop m s =
     (let now = sv_now s; future = uint (ss_time m) > now
      in if con s = None then Inr (False, s)
         else (case scheduleStartStop (sv_timer s) (sv_startstop s) (Some True) (ss_group_id m) (uint (ss_time m))
                      (sint (ss_action m)) of (dbres, t, tab) \<Rightarrow>
           (let s1 = s\<lparr>sv_timer := t, sv_startstop := tab\<rparr>
            in if \<not> dbres then Inr (False, s1)
               else bind_run
                 (if future then Inr ((), putTimedAction (uint (ss_time m)) s1)
                  else bind_run (StartStopAction_perform now s1) (\<lambda>_ s2.
                       bind_run (if ss_group_id m = 0
                                 then with_hub (triggerEvent ''updateclock'' (MessageBlock_new ''updateclock'')) s2
                                 else with_hub (triggerGroupEvent ''updateclock'' (MessageBlock_new ''updateclock'')
                                        (ss_group_id m)) s2) (\<lambda>_ s3.
                       bind_run (update_standings 0 s3) (\<lambda>_ s4. Inr ((), s4)))))
                 (\<lambda>_ s5. Inr (True, put_ends (ss_group_id m) now (all_groups s5) [] s5)))))"

section \<open>Problems\<close>

definition drop_attributes :: "ProbMessage \<Rightarrow> db \<Rightarrow> db" where
  "drop_attributes m d = fold (\<lambda>(a, v) d.
     if smap_find (pm_ints m) a = None \<and> smap_find (pm_strings m) a = None \<and> smap_find (pm_files m) a = None
     then delProblemAttribute (pm_prob_id m) a d else d)
     (getProblemAttributes (pm_prob_id m) d) d"

text \<open>One \<^verbatim>\<open>result &= ...\<close>: a statement that fails leaves the database and clears the result.\<close>

definition and_then :: "(db \<Rightarrow> db option) \<Rightarrow> bool \<times> db \<Rightarrow> bool \<times> db" where
  "and_then f rd = (case rd of (r, d) \<Rightarrow> case f d of None \<Rightarrow> (False, d) | Some d' \<Rightarrow> (r, d'))"

definition set_attributes :: "ProbMessage \<Rightarrow> db \<Rightarrow> bool \<times> db" where
  "set_attributes m d =
     (let i = pm_prob_id m;
          r1 = fold (\<lambda>(a, f) rd. if pf_name f \<noteq> []
                 then and_then (setProblemAttribute_file i a (pf_name f) (pf_data f)) rd else rd) (pm_files m) (True, d);
          r2 = fold (\<lambda>(a, v). and_then (setProblemAttribute_int i a v)) (pm_ints m) r1
      in fold (\<lambda>(a, v). and_then (setProblemAttribute i a v)) (pm_strings m) r2)"

definition set_dependencies :: "ProbMessage \<Rightarrow> db \<Rightarrow> db" where
  "set_dependencies m d =
     (let i = pm_prob_id m;
          old = getProblemDependencies i d;
          d1 = fold (\<lambda>p d. if p \<in> set (pm_deps m) then d else delProblemDependency i p d) old d
      in fold (\<lambda>p d. if p \<in> set old then d
                     else (case addProblemDependency i p d of None \<Rightarrow> d | Some d' \<Rightarrow> d')) (pm_deps m) d1)"

definition process_prob :: "ProbMessage \<Rightarrow> server \<Rightarrow> bool run" where
  "process_prob m s = (case con s of
       None \<Rightarrow> Inr (False, s)
     | Some d \<Rightarrow>
         if pm_prob_id m = - 1 then Inr (False, s)
         else (let i = pm_prob_id m; ex_type = getProblemType i d
               in if ex_type \<noteq> [] \<and> getProblemUpdateTime i d > uint (pm_update_time m) then Inr (True, s)
                  else (let d1 = (if ex_type \<noteq> [] then drop_attributes m d else d);
                            d2 = (if ex_type \<noteq> pm_type m then setProblemType i (pm_type m) d1 else d1);
                            (result, d3) = set_attributes m d2;
                            d4 = setProblemUpdateTime i (uint (pm_update_time m)) d3
                        in Inr (result, s\<lparr>sv_db := set_dependencies m d4\<rparr>))))"

section \<open>Processing\<close>

fun int_process :: "message \<Rightarrow> server \<Rightarrow> bool run" where
  "int_process (M_CreateServer m) = process_createserver m"
| "int_process (M_CreateUser m) = process_createuser m"
| "int_process (M_Passwd m) = process_passwd m"
| "int_process (M_Prob m) = process_prob m"
| "int_process (M_Submission m) = process_submission m"
| "int_process (M_StartStop m) = process_startstop m"
| "int_process (M_Mark m) = process_mark m"
| "int_process (M_Clarification m) = process_clarification m"
| "int_process (M_CreateGroup m) = process_creategroup m"
| "int_process (M_Bonus m) = process_bonus m"

definition Message_process :: "u32 \<Rightarrow> u32 \<Rightarrow> message \<Rightarrow> server \<Rightarrow> bool run" where
  "Message_process server message_id m s =
     bind_run (int_process m s) (\<lambda>status s1.
       Inr (status, if status \<and> sv_connected s1 then s1\<lparr>sv_db := markProcessed server message_id (sv_db s1)\<rparr> else s1))"

end
