(* ===== verification/Actions.thy ===== *)
theory Actions
  imports Processing
begin

text \<open>
  The handlers behind the requests of clients that change something: \<^verbatim>\<open>int_process\<close> of the
  classes in \<^verbatim>\<open>src/act_*.C\<close>, and \<^verbatim>\<open>triggerMessage\<close>, which makes a message of the change,
  replicates it and waits until it has been processed.
\<close>

section \<open>Shared steps\<close>

text \<open>
  \<^verbatim>\<open>triggerMessage\<close>. The message goes through the queue of the one thread that processes messages;
  the handler waits for it, so that it is shown processed at once.
\<close>

definition triggerMessage :: "message \<Rightarrow> MessageBlock \<Rightarrow> server \<Rightarrow> MessageBlock run" where
  "triggerMessage m reply s = bind_run (makeMessage m s) (\<lambda>h s1. case h of
       None \<Rightarrow> Inr (mb_error ''Internal error creating message.  This is indicative of a bug.'', s1)
     | Some h \<Rightarrow> bind_run (Message_process (mh_server_id h) (mh_message_id h) m s1) (\<lambda>_ s2. Inr (reply, s2)))"

abbreviation err :: "string \<Rightarrow> server \<Rightarrow> MessageBlock run" where
  "err msg s \<equiv> Inr (mb_error msg, s)"

text \<open>The connection a request came on; it lives while its request is handled.\<close>

definition with_conn :: "conn \<Rightarrow> server \<Rightarrow> (connection \<Rightarrow> 'a run) \<Rightarrow> 'a run" where
  "with_conn cc s f = (case smap_find (conns (sv_hub s)) cc of None \<Rightarrow> Inl Deleted_connection | Some c \<Rightarrow> f c)"

definition may :: "connection \<Rightarrow> Permission \<Rightarrow> bool" where
  "may c p \<longleftrightarrow> ps_get (cn_permissions c) p = Some True"

definition quoted :: "string \<Rightarrow> string" where
  "quoted t = [CHR 0x27] @ t @ [CHR 0x27]"

section \<open>Logging in\<close>

text \<open>\<^verbatim>\<open>ActAuth\<close>; \<open>hash\<close> is \<^verbatim>\<open>hashpw\<close>. A connection that was logged in gives up its marking job.\<close>

definition ActAuth ::
  "(string \<Rightarrow> string \<Rightarrow> string) \<Rightarrow> conn \<Rightarrow> MessageBlock \<Rightarrow> server \<Rightarrow> MessageBlock run" where
  "ActAuth hash cc mb s = (case con s of
       None \<Rightarrow> err ''Unable to connect to database.'' s
     | Some d \<Rightarrow> (case authenticate hash (mb_get mb ''user'') (mb_get mb ''pass'') d of
           None \<Rightarrow> err ''Authentication failed.  Invalid username and/or password.'' s
         | Some (user, ty, grp) \<Rightarrow> with_conn cc s (\<lambda>c.
             bind_run (if cn_user_id c \<noteq> 0
                       then bind_run (with_hub (deregisterClient cc) s) (\<lambda>_.
                              with_markers (\<lambda>sdb now. preemptMarker sdb now cc))
                       else Inr ((), s)) (\<lambda>_ s1.
             bind_run (with_hub (\<lambda>h. registerClient cc (update_conn cc (\<lambda>c. c\<lparr>cn_user_id := user,
                         cn_group_id := grp, cn_permissions := permissions_of (unat ty)\<rparr>) h)) s1) (\<lambda>_ s2.
             Inr (mb_set ''user'' (mb_get mb ''user'') mb_ok, s2))))))"

section \<open>Accounts\<close>

text \<open>\<^verbatim>\<open>UserSupportModule::hashpw\<close> hashes with the name of the user: the empty text for no user.\<close>

definition user_hashpw :: "(string \<Rightarrow> string \<Rightarrow> string) \<Rightarrow> u32 \<Rightarrow> string \<Rightarrow> server \<Rightarrow> string" where
  "user_hashpw hash user pw s = (case con s of
       None \<Rightarrow> []
     | Some d \<Rightarrow> if username user d = [] then [] else hash (username user d) pw)"

definition ActPasswd :: "(string \<Rightarrow> string \<Rightarrow> string) \<Rightarrow> conn \<Rightarrow> MessageBlock \<Rightarrow> server \<Rightarrow> MessageBlock run" where
  "ActPasswd hash cc mb s = with_conn cc s (\<lambda>c.
     let newpass = mb_get mb ''newpass''; hashed = user_hashpw hash (cn_user_id c) newpass s
     in if newpass = [] then err ''Cannot have a blank password!'' s
        else if hashed = [] then err ''Error hashing password.'' s
        else triggerMessage (M_Passwd \<lparr>pw_user_id = cn_user_id c, pw_newpass = hashed\<rparr>) mb_ok s)"

definition ActIdPasswd :: "(string \<Rightarrow> string \<Rightarrow> string) \<Rightarrow> conn \<Rightarrow> MessageBlock \<Rightarrow> server \<Rightarrow> MessageBlock run" where
  "ActIdPasswd hash cc mb s = (case from_string_u32 (mb_get mb ''user_id'') of
       None \<Rightarrow> err (''user_id isn'' @ [CHR 0x27] @ ''t a valid integer'') s
     | Some user \<Rightarrow>
         (let newpass = mb_get mb ''newpass''; hashed = user_hashpw hash user newpass s
          in if newpass = [] then err ''Cannot have a blank password!'' s
             else if hashed = [] then err ''Invalid user id or hashing error.'' s
             else triggerMessage (M_Passwd \<lparr>pw_user_id = user, pw_newpass = hashed\<rparr>) mb_ok s))"

definition user_types :: "(string \<times> u32) list" where
  "user_types = [(''admin'', 1), (''judge'', 2), (''contestant'', 3), (''marker'', 4), (''observer'', 5), (''proctor'', 6)]"

text \<open>Without a connection \<^verbatim>\<open>groupname\<close> is empty and the lookup of a name answers \<^verbatim>\<open>~0U\<close>.\<close>

definition db_default :: "'a \<Rightarrow> (db \<Rightarrow> 'a) \<Rightarrow> server \<Rightarrow> 'a" where
  "db_default x f s = (case con s of None \<Rightarrow> x | Some d \<Rightarrow> f d)"

definition ActAddUser :: "(string \<Rightarrow> string \<Rightarrow> string) \<Rightarrow> conn \<Rightarrow> MessageBlock \<Rightarrow> server \<Rightarrow> MessageBlock run" where
  "ActAddUser hash cc mb s = with_conn cc s (\<lambda>c.
     let name = mb_get mb ''username''; friendly = mb_get mb ''friendlyname'';
         pw = mb_get mb ''passwd'';
         ty = (case map_of user_types (mb_get mb ''type'') of Some t \<Rightarrow> t | None \<Rightarrow> 0);
         grp = word_of_int (atol (mb_get mb ''group'')) :: u32;
         hashed = hash name pw
     in if ty = 0 then err (''Invalid user type '' @ mb_get mb ''type'') s
        else if name = [] then err ''Cannot have a blank username'' s
        else if pw = [] then err ''Cannot set a blank password'' s
        else if db_default [] (groupname grp) s = [] then err ''Invalid group ID'' s
        else if hashed = [] then err ''Password hashing error'' s
        else (let other = db_default (- 1) (user_id name) s
              in if other = - 1 then err (''Unexpected error while trying to query availability of username '' @ quoted name) s
                 else if other \<noteq> 0 then err (''Username '' @ quoted name @ '' is already in use'') s
                 else (case nextUserId (con s) (my_id s) (sv_last_user s) of (new_id, cur) \<Rightarrow>
                   (let s1 = s\<lparr>sv_last_user := cur\<rparr>
                    in if new_id = - 1 then err ''Unable to determine next usable user_id'' s1
                       else triggerMessage (M_CreateUser \<lparr>cu_user_id = new_id, cu_type = ty, cu_group_id = grp,
                              cu_requestor_id = cn_user_id c, cu_username = name,
                              cu_friendlyname = (if friendly = [] then name else friendly),
                              cu_password = hashed\<rparr>) mb_ok s1))))"

definition ActAddGroup :: "conn \<Rightarrow> MessageBlock \<Rightarrow> server \<Rightarrow> MessageBlock run" where
  "ActAddGroup cc mb s =
     (let name = mb_get mb ''groupname''; other = db_default (- 1) (group_id name) s
      in if name = [] then err ''Cannot have a blank group name'' s
         else if other = - 1 then err (''Unexpected error while trying to query availability of group name '' @ quoted name) s
         else if other \<noteq> 0 then err (''Group '' @ quoted name @ '' already exists'') s
         else (case nextGroupId (con s) (my_id s) (sv_last_group s) of (new_id, cur) \<Rightarrow>
           (let s1 = s\<lparr>sv_last_group := cur\<rparr>
            in if new_id = - 1 then err ''Unable to determine next usable group id'' s1
               else triggerMessage (M_CreateGroup \<lparr>cg_group_id = new_id, cg_groupname = name\<rparr>) mb_ok s1)))"

definition ActAddServer :: "conn \<Rightarrow> MessageBlock \<Rightarrow> server \<Rightarrow> MessageBlock run" where
  "ActAddServer cc mb s =
     (let name = mb_get mb ''servername''
      in if my_id s \<noteq> 1 then err ''Can only add servers from the master server'' s
         else if name = [] then err ''Cannot specify an empty server name'' s
         else if db_default (- 1) (server_id name) s \<noteq> 0 then err ''Servername is already in use!'' s
         else (case nextServerId (con s) (sv_last_server s) of (new_id, cur) \<Rightarrow>
           (let s1 = s\<lparr>sv_last_server := cur\<rparr>;
                m = fold (\<lambda>(k, v) m. if k \<noteq> ''servername'' \<and> k \<noteq> ''content-length'' then addAttribute k v m else m)
                      (mb_headers mb) \<lparr>cs_server_id = new_id, cs_name = name, cs_attribs = []\<rparr>
            in if new_id = - 1 then err ''Unable to determine next server_id'' s1
               else triggerMessage (M_CreateServer m) mb_ok s1)))"

definition from_string_i32 :: "string \<Rightarrow> int option" where
  "from_string_i32 t = from_string (- (2 ^ 31)) (2 ^ 31 - 1) t"

definition ActSetbonus :: "conn \<Rightarrow> MessageBlock \<Rightarrow> server \<Rightarrow> MessageBlock run" where
  "ActSetbonus cc mb s = (case from_string_u32 (mb_get mb ''user_id'') of
       None \<Rightarrow> err (''user_id isn'' @ [CHR 0x27] @ ''t a valid integer'') s
     | Some user \<Rightarrow> (case from_string_i32 (mb_get mb ''points'') of
           None \<Rightarrow> err (''points isn'' @ [CHR 0x27] @ ''t a valid integer'') s
         | Some p \<Rightarrow> (case from_string_i32 (mb_get mb ''seconds'') of
               None \<Rightarrow> err (''seconds isn'' @ [CHR 0x27] @ ''t a valid integer'') s
             | Some t \<Rightarrow> triggerMessage (M_Bonus \<lparr>bn_user_id = user, bn_points = word_of_int p,
                           bn_seconds = word_of_int t\<rparr>) mb_ok s)))"

section \<open>Starting and stopping\<close>

definition ActStartStop :: "conn \<Rightarrow> MessageBlock \<Rightarrow> server \<Rightarrow> MessageBlock run" where
  "ActStartStop cc mb s =
     (let a = mb_get mb ''action''; g = mb_get mb ''group_id'';
          act = (if a = ''start'' then Some 1 else if a = ''stop'' then Some 2 else None) :: u32 option
      in case act of
           None \<Rightarrow> err (''Invalid '' @ quoted ''action'' @ '', must be either '' @ quoted ''start'' @ '' or '' @ quoted ''stop'') s
         | Some action \<Rightarrow> (case from_string (- (2 ^ 63)) (2 ^ 63 - 1) (mb_get mb ''time'') of
               None \<Rightarrow> err ''Invalid start/stop time specified'' s
             | Some tm \<Rightarrow>
                 if tm = 0 then err ''Invalid start/stop time specified'' s
                 else (case (if g = ''all'' \<or> g = [] then Some 0 else from_string_u32 g) of
                         None \<Rightarrow> err ''Invalid group_id specified'' s
                       | Some grp \<Rightarrow> triggerMessage (M_StartStop \<lparr>ss_group_id = grp, ss_time = word_of_int tm,
                                       ss_action = action\<rparr>) mb_ok s)))"

definition ActSubscribeTime :: "conn \<Rightarrow> MessageBlock \<Rightarrow> server \<Rightarrow> MessageBlock run" where
  "ActSubscribeTime cc mb s = (case registerClient_event ''startstop'' cc (sv_hub s) of
       None \<Rightarrow> Inl Deleted_connection
     | Some (ok1, h1) \<Rightarrow>
         (let failed = ''Unable to subscribe to the '' @ quoted ''startstop'' @ '' event''
          in if \<not> ok1 then err failed (s\<lparr>sv_hub := h1\<rparr>)
             else (case registerClient_event ''updateclock'' cc h1 of
                     None \<Rightarrow> Inl Deleted_connection
                   | Some (ok2, h2) \<Rightarrow> Inr (if ok2 then mb_ok else mb_error failed, s\<lparr>sv_hub := h2\<rparr>))))"

definition ActEvents :: "conn \<Rightarrow> MessageBlock \<Rightarrow> server \<Rightarrow> MessageBlock run" where
  "ActEvents cc mb s = (case Act_ClientEventRegistry cc mb (sv_hub s) of
       None \<Rightarrow> Inl Deleted_connection | Some (reply, h) \<Rightarrow> Inr (reply, s\<lparr>sv_hub := h\<rparr>))"

section \<open>Clarifications\<close>

definition ActClarificationRequest :: "conn \<Rightarrow> MessageBlock \<Rightarrow> server \<Rightarrow> MessageBlock run" where
  "ActClarificationRequest cc mb s = with_conn cc s (\<lambda>c.
     let p = mb_get mb ''prob_id'';
         send = (\<lambda>prob. case nextClarificationRequestId (con s) (my_id s) (sv_last_request s) of (i, cur) \<Rightarrow>
           (let s1 = s\<lparr>sv_last_request := cur\<rparr>
            in if i = - 1 then err ''Internal server error. Error obtaining new clarification request id'' s1
               else triggerMessage (M_Clarification \<lparr>cl_request = 1, cl_clarification_request_id = i,
                      cl_clarification_id = 0, cl_user_id = cn_user_id c, cl_prob_id = prob,
                      cl_time = word_of_int (sv_now s), cl_server_id = my_id s,
                      cl_text = mb_get mb ''question''\<rparr>) mb_ok s1))
     in if p \<noteq> ''0'' \<and> p \<noteq> [] then
          (case from_string_u32 p of
             None \<Rightarrow> err (''prob_id isn'' @ [CHR 0x27] @ ''t a valid integer'') s
           | Some prob \<Rightarrow> (case con s of
                 None \<Rightarrow> err ''Unable to connect to database'' s
               | Some d \<Rightarrow> if prob \<in> set (getProblems d) then send prob
                            else err ''Invalid prob_id - no such id'' s))
        else send 0)"

definition ActClarification :: "conn \<Rightarrow> MessageBlock \<Rightarrow> server \<Rightarrow> MessageBlock run" where
  "ActClarification cc mb s = with_conn cc s (\<lambda>c.
     case from_string_u32 (mb_get mb ''clarification_request_id'') of
       None \<Rightarrow> err (''clarification_request_id isn'' @ [CHR 0x27] @ ''t a valid integer'') s
     | Some req \<Rightarrow> (case con s of
           None \<Rightarrow> err ''Unable to connect to database'' s
         | Some d \<Rightarrow>
             if getClarificationRequest req d = [] then err ''Invalid clarification_request_id - no such id'' s
             else (case nextClarificationId (con s) (my_id s) (sv_last_clarification s) of (i, cur) \<Rightarrow>
               (let s1 = s\<lparr>sv_last_clarification := cur\<rparr>
                in if i = - 1 then err ''Internal server error. Error obtaining new clarification id'' s1
                   else triggerMessage (M_Clarification \<lparr>cl_request = 0, cl_clarification_request_id = req,
                          cl_clarification_id = i, cl_user_id = cn_user_id c,
                          cl_prob_id = (if mb_get mb ''public'' = ''1'' then 1 else 0),
                          cl_time = word_of_int (sv_now s), cl_server_id = my_id s,
                          cl_text = mb_get mb ''answer''\<rparr>) mb_ok s1))))"

section \<open>Submitting\<close>

definition MAX_SUBMISSION_SIZE :: int where "MAX_SUBMISSION_SIZE = 100 * 1024"

definition content_bytes :: "MessageBlock \<Rightarrow> bytes" where
  "content_bytes mb = (case mb_content mb of None \<Rightarrow> [] | Some c \<Rightarrow> bytes_of c)"

text \<open>Why \<^verbatim>\<open>ActSubmit\<close> turns a submission down, in the order of its checks.\<close>

definition submit_refusal :: "connection \<Rightarrow> MessageBlock \<Rightarrow> server \<Rightarrow> string option" where
  "submit_refusal c mb s =
     (if contestStatus (sv_timer s) (sv_now s) (cn_group_id c) 0 \<noteq> TIMER_STATUS_STARTED
      then Some ''You cannot submit solutions unless the contest is running''
      else if mb_content_length mb > MAX_SUBMISSION_SIZE
      then Some (''Your submission is too large (max '' @ to_string MAX_SUBMISSION_SIZE @ '' bytes)'')
      else case from_string_u32 (mb_get mb ''prob_id'') of
             None \<Rightarrow> Some (''prob_id isn'' @ [CHR 0x27] @ ''t a valid integer'')
           | Some prob \<Rightarrow> (case con s of
                 None \<Rightarrow> Some ''Unable to connect to database''
               | Some d \<Rightarrow>
                   if prob \<notin> set (getProblems d) then Some ''Invalid prob_id - no such id''
                   else if hasSolved (cn_user_id c) prob d \<and> attr (getProblemAttributes prob d) ''multi_submit'' \<noteq> ''Yes''
                   then Some ''You have already solved this problem, you may no longer submit solutions for it''
                   else if \<not> isSubmissionAllowed (cn_user_id c) prob d
                   then Some ''You are not allowed to submit a solution for this problem''
                   else if mb_get mb ''lang'' \<notin> set (sv_languages s) then Some ''You have not specified the language''
                   else None))"

definition ActSubmit :: "conn \<Rightarrow> MessageBlock \<Rightarrow> server \<Rightarrow> MessageBlock run" where
  "ActSubmit cc mb s = with_conn cc s (\<lambda>c.
     case submit_refusal c mb s of
       Some msg \<Rightarrow> err msg s
     | None \<Rightarrow> (case nextSubmissionId (con s) (my_id s) (sv_last_submission s) of (i, cur) \<Rightarrow>
         (let s1 = s\<lparr>sv_last_submission := cur\<rparr>
          in if i = - 1 then err ''Internal server error. Error obtaining new submission id'' s1
             else triggerMessage (M_Submission \<lparr>sm_submission_id = i, sm_user_id = cn_user_id c,
                    sm_prob_id = (case from_string_u32 (mb_get mb ''prob_id'') of Some p \<Rightarrow> p | None \<Rightarrow> 0),
                    sm_time = word_of_int (sv_now s), sm_server_id = my_id s,
                    sm_content = content_bytes mb, sm_language = mb_get mb ''lang''\<rparr>)
                  (mb_set ''submission_id'' (u32_text i) mb_ok) s1)))"

end
