(* ===== verification/Actions_Mark.thy ===== *)
theory Actions_Mark
  imports Actions
begin

text \<open>
  The handlers that take files out of a request: \<^verbatim>\<open>ActPlaceMark\<close> and \<^verbatim>\<open>ActSubscribeMark\<close> in
  \<^verbatim>\<open>src/act_mark.C\<close> and \<^verbatim>\<open>ActSetProbAttrs\<close> in \<^verbatim>\<open>src/act_problemmanip.C\<close>. Copying bytes that
  the request does not have is the fault \<^const>\<open>Overread\<close>.
\<close>

section \<open>File descriptions\<close>

text \<open>
  The regular expressions, for texts of the C locale: two numbers, in \<^verbatim>\<open>act_mark.C\<close> of at most
  seven digits, and a name of allowed characters. The groups are the parts matched.
\<close>

definition is_decimal :: "char \<Rightarrow> bool" where
  "is_decimal c \<longleftrightarrow> CHR ''0'' \<le> c \<and> c \<le> CHR ''9''"

definition is_print :: "char \<Rightarrow> bool" where
  "is_print c \<longleftrightarrow> CHR '' '' \<le> c \<and> c \<le> CHR ''~''"

definition is_filename :: "char \<Rightarrow> bool" where
  "is_filename c \<longleftrightarrow> c \<in> set ''- _.'' \<or>
     list_ex (\<lambda>(first, last). first \<le> c \<and> c \<le> last) [(CHR ''A'', CHR ''Z''), (CHR ''a'', CHR ''z''), (CHR ''0'', CHR ''9'')]"

definition take_number :: "string \<Rightarrow> (string \<times> string) option" where
  "take_number t = (let ds = takeWhile is_decimal t; rest = dropWhile is_decimal t
     in case rest of c # cs \<Rightarrow> if ds \<noteq> [] \<and> c = CHR '' '' then Some (ds, cs) else None | [] \<Rightarrow> None)"

definition match_file :: "(string \<Rightarrow> bool) \<Rightarrow> (char \<Rightarrow> bool) \<Rightarrow> string \<Rightarrow> (string \<times> string \<times> string) option" where
  "match_file number name t = (case take_number t of
       None \<Rightarrow> None
     | Some (a, t1) \<Rightarrow> (case take_number t1 of
           None \<Rightarrow> None
         | Some (b, t2) \<Rightarrow> if number a \<and> number b \<and> t2 \<noteq> [] \<and> list_all name t2 then Some (a, b, t2) else None))"

definition match_mark_file :: "string \<Rightarrow> (string \<times> string \<times> string) option" where
  "match_mark_file t = match_file (\<lambda>ds. length ds \<le> 7) is_print (c_str t)"

definition match_prob_file :: "string \<Rightarrow> (string \<times> string \<times> string) option" where
  "match_prob_file t = match_file (\<lambda>ds. True) is_filename (c_str t)"

text \<open>\<open>size\<close> bytes of the content from \<open>start\<close> on; the content may be a null pointer.\<close>

definition copy_content :: "MessageBlock \<Rightarrow> u32 \<Rightarrow> u32 \<Rightarrow> bytes option" where
  "copy_content mb start len =
     (if unat start + unat len \<le> length (content_bytes mb)
      then Some (take (unat len) (drop (unat start) (content_bytes mb))) else None)"

section \<open>Marking\<close>

definition ActSubscribeMark :: "conn \<Rightarrow> MessageBlock \<Rightarrow> server \<Rightarrow> MessageBlock run" where
  "ActSubscribeMark cc mb s =
     bind_run (with_markers (\<lambda>sdb now. enqueueMarker sdb now cc) s) (\<lambda>_ s1. Inr (mb_ok, s1))"

text \<open>
  The permission checks of \<^verbatim>\<open>ActPlaceMark\<close>: the mark is legal, or illegal with a message. A
  judge's lookup in the database may fail before there is an answer.
\<close>

datatype legality = Legal | Illegal string | No_database

definition mark_legal :: "conn \<Rightarrow> connection \<Rightarrow> u32 \<Rightarrow> server \<Rightarrow> legality" where
  "mark_legal cc c sub s =
     (if may c PERMISSION_JUDGE_OVERRIDE then Legal
      else if may c PERMISSION_MARK then
        (if hasIssued cc (sv_markers s) = sub then Legal
         else Illegal ''Markers may only mark submissions issued to them'')
      else if may c PERMISSION_JUDGE then
        (case con s of
           None \<Rightarrow> No_database
         | Some d \<Rightarrow> (case getSubmissionState sub d of
               None \<Rightarrow> Illegal (''This hasn'' @ [CHR 0x27] @ ''t been compiled or even run: you really think I'' @
                 [CHR 0x27] @ ''m going to let you fiddle with the marks?'')
             | Some (res, utype, comment) \<Rightarrow>
                 if ps_get (permissions_of (unat utype)) PERMISSION_JUDGE = Some True
                 then Illegal ''Another judge has already judged this submission, sorry!''
                 else if res \<noteq> JUDGE
                 then Illegal ''You cannot change the status of this submission: the decision was black and white; no human required.''
                 else Legal))
      else Illegal ''You do not have permission to do this'')"

text \<open>The loop over the headers \<^verbatim>\<open>file0\<close>, \<^verbatim>\<open>file1\<close>, ...; a description that does not match is skipped.\<close>

definition add_mark_file :: "MessageBlock \<Rightarrow> string \<Rightarrow> MarkMessage \<Rightarrow> MarkMessage option" where
  "add_mark_file mb fdesc m = (case match_mark_file fdesc of
       None \<Rightarrow> Some m
     | Some (a, b, name) \<Rightarrow>
         (case (from_string_u32 a, from_string_u32 b) of
            (Some start, Some len) \<Rightarrow>
              map_option (\<lambda>bs. m\<lparr>mm_files := mm_files m @ [\<lparr>mf_name = name, mf_data = bs\<rparr>]\<rparr>) (copy_content mb start len)
          | _ \<Rightarrow> None))"

function mark_files_loop :: "MessageBlock \<Rightarrow> nat \<Rightarrow> MarkMessage \<Rightarrow> MarkMessage option" where
  "mark_files_loop mb n m =
     (if hasAttribute mb (''file'' @ string_of_nat n)
      then (case add_mark_file mb (mb_get mb (''file'' @ string_of_nat n)) m of
              None \<Rightarrow> None | Some m' \<Rightarrow> mark_files_loop mb (n + 1) m')
      else Some m)"
  by pat_completeness auto

text \<open>The loop ends: a request has finitely many headers.\<close>

lemma file_names_finite: "finite {n. hasAttribute mb (''file'' @ string_of_nat n)}"
proof -
  have "(\<lambda>n. ''file'' @ string_of_nat n) ` {n. hasAttribute mb (''file'' @ string_of_nat n)} \<subseteq> fst ` set (mb_headers mb)"
    by (auto simp: hasAttribute_def smap_find_dom)
  moreover have "inj_on (\<lambda>n. ''file'' @ string_of_nat n) A" for A
    by (auto intro!: inj_onI dest: string_of_nat_inj)
  ultimately show ?thesis by (meson finite_imageD finite_imageI finite_subset List.finite_set)
qed

lemma file_names_decrease:
  "hasAttribute mb (''file'' @ string_of_nat n) \<Longrightarrow>
   card {k. Suc n \<le> k \<and> hasAttribute mb (''file'' @ string_of_nat k)} <
   card {k. n \<le> k \<and> hasAttribute mb (''file'' @ string_of_nat k)}"
proof (rule psubset_card_mono)
  show "finite {k. n \<le> k \<and> hasAttribute mb (''file'' @ string_of_nat k)}"
    by (rule finite_subset [OF _ file_names_finite [of mb]]) auto
  assume "hasAttribute mb (''file'' @ string_of_nat n)"
  then have "n \<in> {k. n \<le> k \<and> hasAttribute mb (''file'' @ string_of_nat k)}" by simp
  moreover have "n \<notin> {k. Suc n \<le> k \<and> hasAttribute mb (''file'' @ string_of_nat k)}" by simp
  moreover have "{k. Suc n \<le> k \<and> hasAttribute mb (''file'' @ string_of_nat k)} \<subseteq>
      {k. n \<le> k \<and> hasAttribute mb (''file'' @ string_of_nat k)}" by auto
  ultimately show "{k. Suc n \<le> k \<and> hasAttribute mb (''file'' @ string_of_nat k)} \<subset>
      {k. n \<le> k \<and> hasAttribute mb (''file'' @ string_of_nat k)}" by blast
qed

termination mark_files_loop
  by (relation "measure (\<lambda>(mb, n, m). card {k. n \<le> k \<and> hasAttribute mb (''file'' @ string_of_nat k)})")
    (use file_names_decrease in auto)

declare mark_files_loop.simps [simp del]

definition ActPlaceMark :: "conn \<Rightarrow> MessageBlock \<Rightarrow> server \<Rightarrow> MessageBlock run" where
  "ActPlaceMark cc mb s = with_conn cc s (\<lambda>c.
     case from_string_u32 (mb_get mb ''submission_id'') of
       None \<Rightarrow> bind_run (with_markers (\<lambda>sdb now. preemptMarker sdb now cc) s) (\<lambda>_ s1. err ''Invalid submission_id'' s1)
     | Some sub \<Rightarrow> (case mark_legal cc c sub s of
           No_database \<Rightarrow> err ''Error connecting to database'' s
         | Illegal msg \<Rightarrow> err msg s
         | Legal \<Rightarrow> (case from_string_u32 (mb_get mb ''result'') of
               None \<Rightarrow> bind_run (with_markers (\<lambda>sdb now. preemptMarker sdb now cc) s)
                          (\<lambda>_ s1. err ''You must specify the result'' s1)
             | Some res \<Rightarrow> (case mark_files_loop mb 0 \<lparr>mm_submission_id = sub, mm_marker = cn_user_id c, mm_result = res,
                     mm_time = word_of_int (sv_now s), mm_server_id = my_id s, mm_comment = mb_get mb ''comment'',
                     mm_files = []\<rparr> of
                   None \<Rightarrow> Inl Overread
                 | Some m \<Rightarrow> bind_run (with_markers (\<lambda>sdb now. notifyMarked sdb now cc sub) s) (\<lambda>_ s1.
                     triggerMessage (M_Mark m) mb_ok s1)))))"

section \<open>Problem attributes\<close>

text \<open>\<^verbatim>\<open>ProblemType::getProblemDescription\<close>: the attributes of a type, separated by comma and blank.\<close>

definition getProblemDescription :: "string \<Rightarrow> server \<Rightarrow> string" where
  "getProblemDescription ty s = (case smap_find (sv_probtypes s) ty of
       None \<Rightarrow> []
     | Some attribs \<Rightarrow> (let d = concat (map (\<lambda>a. a @ '', '') attribs) in take (length d - 2) d))"

text \<open>The list of dependencies: numbers separated by commas, each read by \<^verbatim>\<open>atoi\<close>.\<close>

function split_commas :: "string \<Rightarrow> string list" where
  "split_commas t = (if t = [] then []
     else takeWhile (\<lambda>c. c \<noteq> CHR '','') t # split_commas (drop 1 (dropWhile (\<lambda>c. c \<noteq> CHR '','') t)))"
  by pat_completeness auto

lemma after_comma_length: "t \<noteq> [] \<Longrightarrow> length (drop 1 (dropWhile P t)) < length t"
proof -
  assume "t \<noteq> []"
  then have "0 < length t" by simp
  moreover have "length (drop 1 (dropWhile P t)) = length (dropWhile P t) - 1" by (rule length_drop)
  ultimately show ?thesis using length_dropWhile_le [of P t] by linarith
qed

termination split_commas
proof (relation "measure length", rule wf_measure)
  fix t :: string assume "t \<noteq> []"
  then show "(drop 1 (dropWhile (\<lambda>c. c \<noteq> CHR '','') t), t) \<in> measure length"
    unfolding in_measure by (rule after_comma_length)
qed

declare split_commas.simps [simp del]

definition parse_deps :: "string \<Rightarrow> u32 list" where
  "parse_deps t = map (\<lambda>x. word_of_int (atol x)) (split_commas t)"

text \<open>The outcome of checking one attribute of the request against the description.\<close>

datatype attr_result = is_Attr_ok: Attr_ok ProbMessage | Attr_error string | Attr_fault fault

definition file_attr :: "MessageBlock \<Rightarrow> u32 \<Rightarrow> string \<Rightarrow> ProbMessage \<Rightarrow> attr_result" where
  "file_attr mb prob a m =
     (let fdesc = mb_get mb a
      in if fdesc = ''-'' then
           (if prob = 0 then Attr_error (''You cannot '' @ quoted ''keep'' @ '' a file that was never available to begin with.  This applies to ''
              @ quoted ''new'' @ '' problems only'')
            else Attr_ok (keepFileAttrib a m))
         else case match_prob_file fdesc of
                None \<Rightarrow> Attr_error (''Invalid filename structure, filename attributes must match the structure '' @ quoted ''int int filename'')
              | Some (x, y, name) \<Rightarrow> (case (from_string_u32 x, from_string_u32 y) of
                    (Some start, Some len) \<Rightarrow>
                      if start + len > word_of_int (mb_content_length mb)
                      then Attr_error (''File limits for file '' @ quoted a @ '' out of bounds for passed data'')
                      else (case copy_content mb start len of
                              None \<Rightarrow> Attr_fault Overread
                            | Some bs \<Rightarrow> Attr_ok (addFileAttrib a name bs m))
                  | _ \<Rightarrow> Attr_fault Bad_string))"

text \<open>The values between braces; what follows a last comma is not looked at.\<close>

definition brace_values :: "string \<Rightarrow> string list" where
  "brace_values t = split_commas t"

definition int_attr :: "MessageBlock \<Rightarrow> string \<Rightarrow> ProbMessage \<Rightarrow> attr_result" where
  "int_attr mb a m = (case from_string_i32 (mb_get mb a) of
       None \<Rightarrow> Attr_error (''Value for '' @ a @ '' is not a valid integer'')
     | Some v \<Rightarrow> Attr_ok (addIntAttrib a (word_of_int v) m))"

text \<open>
  One terminal: its type and what follows in the description. None is a description that does
  not parse; a missing closing brace is one too, where the code would start over.
\<close>

definition terminal ::
  "MessageBlock \<Rightarrow> u32 \<Rightarrow> string \<Rightarrow> string \<Rightarrow> ProbMessage \<Rightarrow> (attr_result \<times> string) option" where
  "terminal mb prob a desc m =
     (let found = hasAttribute mb a
      in case desc of
           [] \<Rightarrow> None
         | c # rest \<Rightarrow>
             if c = CHR ''S'' then
               Some (Attr_ok (if found then addStringAttrib a (mb_get mb a) m else m), rest)
             else if c = CHR ''I'' then Some (if found then int_attr mb a m else Attr_ok m, rest)
             else if c = CHR ''F'' then Some (if found then file_attr mb prob a m else Attr_ok m, rest)
             else if c = CHR ''{'' then
               (case split_at (CHR ''}'') rest of
                  None \<Rightarrow> None
                | Some (vals, rest') \<Rightarrow>
                    Some (if found then
                            (if mb_get mb a \<in> set (brace_values vals) then Attr_ok (addStringAttrib a (mb_get mb a) m)
                             else Attr_error (''Invalid value for attribute '' @ a))
                          else Attr_ok m, rest'))
             else None)"

text \<open>\<^verbatim>\<open>?\<close> after a terminal makes it optional.\<close>

definition optional_mark :: "string \<Rightarrow> bool \<times> string" where
  "optional_mark t = (if take 2 t = '' ?'' then (True, drop 2 t) else (False, t))"

text \<open>Closing parentheses pop the stack of prefixes; an empty stack is a fault.\<close>

fun close_parens :: "string \<Rightarrow> string list \<Rightarrow> (string \<times> string list) option" where
  "close_parens (c # t) stack =
     (if c = CHR '')'' then (if stack = [] then None else close_parens t (butlast stack)) else Some (c # t, stack))"
| "close_parens [] stack = Some ([], stack)"

definition skip_separator :: "string \<Rightarrow> string" where
  "skip_separator t = dropWhile is_space (case t of c # cs \<Rightarrow> if c = CHR '','' then cs else t | [] \<Rightarrow> [])"

definition full_name :: "string list \<Rightarrow> string \<Rightarrow> string" where
  "full_name stack name = concat (map (\<lambda>x. x @ ''.'') stack) @ name"

text \<open>One turn of the loop over the description: the rest of it, the stack and the message.\<close>

definition attr_turn ::
  "MessageBlock \<Rightarrow> u32 \<Rightarrow> string \<Rightarrow> string list \<Rightarrow> ProbMessage \<Rightarrow> attr_result \<times> string \<times> string list" where
  "attr_turn mb prob desc stack m = (case split_at (CHR '' '') desc of
       None \<Rightarrow> (Attr_error ''Internal Server Error'', [], stack)
     | Some (name, rest) \<Rightarrow>
         if rest = [] then (Attr_error ''Internal Server Error'', [], stack)
         else (let (r, rest1, stack1) =
                 (if hd rest = CHR ''('' then (Attr_ok m, tl rest, stack @ [name])
                  else (case terminal mb prob (full_name stack name) rest m of
                          None \<Rightarrow> (Attr_error ''Internal Server Error'', [], stack)
                        | Some (r, rest1) \<Rightarrow> (case optional_mark rest1 of (opt, rest2) \<Rightarrow>
                            (case r of Attr_ok m' \<Rightarrow>
                               (if \<not> opt \<and> \<not> hasAttribute mb (full_name stack name)
                                then Attr_error (''Missing attribute '' @ full_name stack name) else Attr_ok m')
                             | _ \<Rightarrow> r, rest2, stack))))
               in if \<not> is_Attr_ok r then (r, [], stack1)
                  else case close_parens rest1 stack1 of
                         None \<Rightarrow> (Attr_fault Bad_stack, [], stack1)
                       | Some (rest3, stack3) \<Rightarrow> (r, skip_separator rest3, stack3)))"

lemma split_at_length: "split_at c t = Some (a, b) \<Longrightarrow> length b < length t"
  by (induction c t arbitrary: a b rule: split_at.induct) (auto split: if_splits)

lemma terminal_length: "terminal mb prob a desc m = Some (r, rest) \<Longrightarrow> length rest < length desc"
  by (auto simp: terminal_def Let_def dest: split_at_length split: list.splits if_splits option.splits)

lemma close_parens_length: "close_parens t stack = Some (t', stack') \<Longrightarrow> length t' \<le> length t"
  by (induction t stack rule: close_parens.induct) (auto split: if_splits)

lemma skip_separator_length: "length (skip_separator t) \<le> length t"
  by (auto simp: skip_separator_def length_dropWhile_le intro: order_trans [OF length_dropWhile_le] split: list.split)

lemma optional_mark_length: "length (snd (optional_mark t)) \<le> length t"
  by (simp add: optional_mark_def)

lemma attr_turn_length:
  "desc \<noteq> [] \<Longrightarrow> attr_turn mb prob desc stack m = (r, rest, stack') \<Longrightarrow> length rest < length desc"
proof -
  assume ne: "desc \<noteq> []" and t: "attr_turn mb prob desc stack m = (r, rest, stack')"
  show ?thesis
  proof (cases "split_at (CHR '' '') desc")
    case None
    with ne t show ?thesis by (auto simp: attr_turn_def)
  next
    case (Some x)
    obtain name r0 where x: "split_at (CHR '' '') desc = Some (name, r0)" using Some by (cases x) auto
    then have l0: "length r0 < length desc" by (rule split_at_length)
    have lt: "length r2 \<le> length r0" if "terminal mb prob a r0 m = Some (q, r1)" "optional_mark r1 = (o2, r2)" for a q r1 o2 r2
      using terminal_length [OF that(1)] optional_mark_length [of r1] that(2) by simp
    have lc: "length (skip_separator r3) \<le> length r2" if "close_parens r2 st = Some (r3, st')" for r2 st r3 st'
      using close_parens_length [OF that] skip_separator_length [of r3] by simp
    show ?thesis
    proof (cases "r0 = [] \<or> hd r0 = CHR ''(''")
      case True
      show ?thesis
      proof (cases "r0 = []")
        case True
        with t x ne show ?thesis by (auto simp: attr_turn_def)
      next
        case nonempty: False
        with True have "length rest \<le> length (tl r0)"
          using t x lc [of "tl r0" "stack @ [name]"]
          by (auto simp: attr_turn_def Let_def split: option.splits prod.splits)
        with l0 show ?thesis by simp
      qed
    next
      case False
      show ?thesis
      proof (cases "terminal mb prob (full_name stack name) r0 m")
        case None
        with False t x ne show ?thesis by (auto simp: attr_turn_def)
      next
        case (Some z)
        obtain q r1 where z: "terminal mb prob (full_name stack name) r0 m = Some (q, r1)" using Some by (cases z) auto
        obtain o2 r2 where o: "optional_mark r1 = (o2, r2)" by (cases "optional_mark r1")
        have "length rest \<le> length r2"
          using False t x z o lc [of r2 stack] by (auto simp: attr_turn_def Let_def split: option.splits prod.splits if_splits)
        with lt [OF z o] l0 show ?thesis by simp
      qed
    qed
  qed
qed

function attr_loop :: "MessageBlock \<Rightarrow> u32 \<Rightarrow> string \<Rightarrow> string list \<Rightarrow> ProbMessage \<Rightarrow> attr_result" where
  "attr_loop mb prob desc stack m =
     (if desc = [] then Attr_ok m
      else case attr_turn mb prob desc stack m of (r, rest, stack') \<Rightarrow>
        (case r of Attr_ok m' \<Rightarrow> attr_loop mb prob rest stack' m' | _ \<Rightarrow> r))"
  by pat_completeness auto

termination attr_loop
  by (relation "measure (\<lambda>(mb, prob, desc, stack, m). length desc)") (auto dest: attr_turn_length [OF _ sym])

declare attr_loop.simps [simp del]

definition ActSetProbAttrs :: "conn \<Rightarrow> MessageBlock \<Rightarrow> server \<Rightarrow> MessageBlock run" where
  "ActSetProbAttrs cc mb s =
     (let prob = word_of_int (atol (mb_get mb ''prob_id'')) :: u32; given = mb_get mb ''prob_type''
      in if prob \<noteq> 0 \<and> given = [] \<and> con s = None then err ''Error obtaining connection to database'' s
         else (let ty = (if prob \<noteq> 0 \<and> given = [] then db_default [] (getProblemType prob) s else given)
               in if ty = [] then err ''You must specify prob_type for new problems'' s
                  else (let desc = getProblemDescription ty s
                        in if desc = [] then err ''Invalid prob_type or internal server error'' s
                           else (case (if prob = 0 then nextProblemId (con s) (my_id s) (sv_last_problem s)
                                       else (prob, sv_last_problem s)) of (new_id, cur) \<Rightarrow>
                             (let s1 = s\<lparr>sv_last_problem := cur\<rparr>
                              in case attr_loop mb prob desc [] \<lparr>pm_prob_id = new_id, pm_update_time = word_of_int (sv_now s),
                                        pm_deps = parse_deps (mb_get mb ''prob_dependencies''), pm_type = ty,
                                        pm_ints = [], pm_strings = [], pm_files = []\<rparr> of
                                   Attr_error msg \<Rightarrow> err msg s1
                                 | Attr_fault e \<Rightarrow> Inl e
                                 | Attr_ok m \<Rightarrow> triggerMessage (M_Prob m) mb_ok s1)))))"

end
