(* ===== verification/Actions_Query.thy ===== *)
theory Actions_Query
  imports Actions_Mark
begin

text \<open>
  The handlers that only answer: lists of problems, submissions, clarifications, users, groups and
  servers, the standings, the clock, files, and the message store that \<^verbatim>\<open>src/udtcpmessenger.C\<close>
  opens to its peers.
\<close>

section \<open>Numbered entries\<close>

text \<open>The entries of a list as headers with the position appended to the name.\<close>

fun numbered :: "('a \<Rightarrow> string \<Rightarrow> MessageBlock \<Rightarrow> MessageBlock) \<Rightarrow> 'a list \<Rightarrow> nat \<Rightarrow> MessageBlock \<Rightarrow> MessageBlock" where
  "numbered f [] c mb = mb"
| "numbered f (x # xs) c mb = numbered f xs (c + 1) (f x (string_of_nat c) mb)"

section \<open>The connection and the contest\<close>

definition ActWhatAmI :: "conn \<Rightarrow> MessageBlock \<Rightarrow> server \<Rightarrow> MessageBlock run" where
  "ActWhatAmI cc mb s = with_conn cc s (\<lambda>c.
     Inr (numbered (\<lambda>name i. mb_set (''permission'' @ i) name)
       (map snd (filter (\<lambda>(b, name). b) (zip (cn_permissions c) permission_names))) 0 mb_ok, s))"

definition ActContesttime :: "conn \<Rightarrow> MessageBlock \<Rightarrow> server \<Rightarrow> MessageBlock run" where
  "ActContesttime cc mb s = with_conn cc s (\<lambda>c.
     let t = contestTime (sv_timer s) (sv_now s) (cn_group_id c) 0;
         running = (contestStatus (sv_timer s) (sv_now s) (cn_group_id c) 0 = TIMER_STATUS_STARTED)
     in Inr (mb_set ''blinds'' (to_string (blinds (sv_timer s)))
          (mb_set ''remain'' (to_string (duration (sv_timer s) - t))
            (mb_set ''time'' (to_string t) (mb_set ''running'' (if running then ''yes'' else ''no'') mb_ok))), s))"

definition ActRunning :: "conn \<Rightarrow> MessageBlock \<Rightarrow> server \<Rightarrow> MessageBlock run" where
  "ActRunning cc mb s = with_conn cc s (\<lambda>c.
     Inr (mb_set ''status'' (if contestStatus (sv_timer s) (sv_now s) (cn_group_id c) 0 = TIMER_STATUS_STARTED
            then ''running'' else ''stopped'') mb_ok, s))"

definition ActStandings :: "conn \<Rightarrow> MessageBlock \<Rightarrow> server \<Rightarrow> MessageBlock run" where
  "ActStandings cc mb s = with_conn cc s (\<lambda>c.
     case getStandings (con s) (sv_standings s) 0 (may c PERMISSION_SEE_FINAL_STANDINGS)
            (may c PERMISSION_SEE_ALL_STANDINGS) mb_ok of
       None \<Rightarrow> err ''failed to get standings'' s
     | Some reply \<Rightarrow> Inr (reply, s))"

section \<open>Lists\<close>

definition ServerListAct :: "conn \<Rightarrow> MessageBlock \<Rightarrow> server \<Rightarrow> MessageBlock run" where
  "ServerListAct cc mb s = (case con s of
       None \<Rightarrow> err ''Error connecting to database'' s
     | Some d \<Rightarrow> Inr (numbered (\<lambda>(i, name) n. mb_set (''server'' @ n) name) (getServers d) 0 mb_ok, s))"

definition ActGetGroups :: "conn \<Rightarrow> MessageBlock \<Rightarrow> server \<Rightarrow> MessageBlock run" where
  "ActGetGroups cc mb s =
     Inr (numbered (\<lambda>(i, name) n mb. mb_set (''groupname'' @ n) name (mb_set (''id'' @ n) (u32_text i) mb))
       (db_default [] groupList s) 0 mb_ok, s)"

definition type_names :: "string list" where
  "type_names = [''none'', ''admin'', ''judge'', ''contestant'', ''marker'', ''observer'', ''proctor'']"

definition ActGetUsers :: "conn \<Rightarrow> MessageBlock \<Rightarrow> server \<Rightarrow> MessageBlock run" where
  "ActGetUsers cc mb s =
     (let users = db_default [] userList s; d = sv_db s
      in if list_ex (\<lambda>(i, name). length type_names \<le> unat (usertype i d)) users then err ''Invalid user type'' s
         else Inr (numbered (\<lambda>(i, name) n mb.
                mb_set (''type'' @ n) (type_names ! unat (usertype i d))
                  (mb_set (''friendlyname'' @ n) (friendlyname i d)
                    (mb_set (''username'' @ n) name (mb_set (''id'' @ n) (u32_text i) mb)))) users 0 mb_ok, s))"

definition ActGetbonus :: "conn \<Rightarrow> MessageBlock \<Rightarrow> server \<Rightarrow> MessageBlock run" where
  "ActGetbonus cc mb s = (case from_string_u32 (mb_get mb ''user_id'') of
       None \<Rightarrow> err (''user_id isn'' @ [CHR 0x27] @ ''t a valid integer'') s
     | Some user \<Rightarrow> (case db_default None (user_bonus user) s of
           None \<Rightarrow> err ''could not get bonus for this user'' s
         | Some (p, t) \<Rightarrow> Inr (mb_set ''seconds'' (to_string t) (mb_set ''points'' (to_string p) mb_ok), s)))"

definition ActGetProblems :: "conn \<Rightarrow> MessageBlock \<Rightarrow> server \<Rightarrow> MessageBlock run" where
  "ActGetProblems cc mb s = with_conn cc s (\<lambda>c. case con s of
       None \<Rightarrow> err ''Error connecting to database'' s
     | Some d \<Rightarrow>
         (let visible = filter (\<lambda>p. may c PERMISSION_SEE_ALL_PROBLEMS \<or> isSubmissionAllowed (cn_user_id c) p d) (getProblems d)
          in Inr (numbered (\<lambda>p n mb.
               mb_set (''name'' @ n) (attr (getProblemAttributes p d) ''longname'')
                 (mb_set (''code'' @ n) (attr (getProblemAttributes p d) ''shortname'')
                   (mb_set (''id'' @ n) (u32_text p) mb))) visible 0 mb_ok, s)))"

text \<open>A list of submissions; the rows come from the database, so that none throws.\<close>

fun submissions_mb :: "timer \<Rightarrow> time_t \<Rightarrow> db \<Rightarrow> attributes list \<Rightarrow> nat \<Rightarrow> MessageBlock \<Rightarrow> MessageBlock option" where
  "submissions_mb t now d [] c mb = Some mb"
| "submissions_mb t now d (a # as) c mb = (case submissionToMB t now d a (string_of_nat c) mb of
       None \<Rightarrow> None | Some mb' \<Rightarrow> submissions_mb t now d as (c + 1) mb')"

definition answer_submissions :: "u32 \<Rightarrow> db \<Rightarrow> server \<Rightarrow> MessageBlock run" where
  "answer_submissions uid d s =
     (case submissions_mb (sv_timer s) (sv_now s) d (getSubmissions uid d) 0 mb_ok of
        None \<Rightarrow> Inl Bad_string | Some reply \<Rightarrow> Inr (reply, s))"

definition ActGetSubmissions :: "conn \<Rightarrow> MessageBlock \<Rightarrow> server \<Rightarrow> MessageBlock run" where
  "ActGetSubmissions cc mb s = with_conn cc s (\<lambda>c. case con s of
       None \<Rightarrow> err ''Error connecting to database'' s
     | Some d \<Rightarrow> answer_submissions (if may c PERMISSION_SEE_ALL_SUBMISSIONS then 0 else cn_user_id c) d s)"

definition ActGetSubmissionsForUser :: "conn \<Rightarrow> MessageBlock \<Rightarrow> server \<Rightarrow> MessageBlock run" where
  "ActGetSubmissionsForUser cc mb s = with_conn cc s (\<lambda>c. case con s of
       None \<Rightarrow> err ''Error connecting to database'' s
     | Some d \<Rightarrow> (case from_string_u32 (mb_get mb ''user_id'') of
           None \<Rightarrow> Inl Bad_string
         | Some user \<Rightarrow> answer_submissions (if may c PERMISSION_SEE_ALL_SUBMISSIONS then user else cn_user_id c) d s))"

definition ActGetClarifications :: "conn \<Rightarrow> MessageBlock \<Rightarrow> server \<Rightarrow> MessageBlock run" where
  "ActGetClarifications cc mb s = with_conn cc s (\<lambda>c. case con s of
       None \<Rightarrow> err ''Error connecting to database'' s
     | Some d \<Rightarrow> (case getClarifications (if may c PERMISSION_SEE_ALL_CLARIFICATIONS then 0 else cn_user_id c) d of
           None \<Rightarrow> Inl Null_pointer
         | Some l \<Rightarrow> Inr (numbered set_attrs l 0 mb_ok, s)))"

definition ActGetClarificationRequests :: "conn \<Rightarrow> MessageBlock \<Rightarrow> server \<Rightarrow> MessageBlock run" where
  "ActGetClarificationRequests cc mb s = with_conn cc s (\<lambda>c. case con s of
       None \<Rightarrow> err ''Error connecting to database'' s
     | Some d \<Rightarrow> Inr (numbered set_attrs (getClarificationRequests
         (if may c PERMISSION_SEE_ALL_CLARIFICATION_REQUESTS then 0 else cn_user_id c) d) 0 mb_ok, s))"

definition ActGetLanguages :: "conn \<Rightarrow> MessageBlock \<Rightarrow> server \<Rightarrow> MessageBlock run" where
  "ActGetLanguages cc mb s = Inr (numbered (\<lambda>l n. mb_set (''language'' @ n) l) (sv_languages s) 0 mb_ok, s)"

section \<open>Files\<close>

text \<open>
  \<^verbatim>\<open>ActSubmissionFileFetcher\<close>. The number of the submission is read with the \<^verbatim>\<open>from_string\<close> that
  throws, before anything else is checked.
\<close>

definition fetch_refusal :: "connection \<Rightarrow> u32 \<Rightarrow> db \<Rightarrow> string option" where
  "fetch_refusal c sub d =
     (let hidden = (if may c PERMISSION_SEE_SUBMISSION_DETAILS then None
                    else case getSubmissionState sub d of
                           None \<Rightarrow> Some (''This submission hasn'' @ [CHR 0x27] @ ''t been marked yet, please be patient :-)'')
                         | Some (r, ty, comment) \<Rightarrow>
                             if r \<noteq> COMPILE_FAILED
                             then Some ''Not allowed to fetch file data for anything except failed compilations'' else None)
      in case hidden of Some msg \<Rightarrow> Some msg
         | None \<Rightarrow> if \<not> may c PERMISSION_SEE_ALL_SUBMISSIONS \<and> submission2user_id sub d \<noteq> cn_user_id c
                   then Some (''This submission doesn'' @ [CHR 0x27] @ ''t belong to you; I can'' @ [CHR 0x27] @ ''t let you look at it'')
                   else None)"

definition ActSubmissionFileFetcher :: "conn \<Rightarrow> MessageBlock \<Rightarrow> server \<Rightarrow> MessageBlock run" where
  "ActSubmissionFileFetcher cc mb s = with_conn cc s (\<lambda>c. case con s of
       None \<Rightarrow> err ''Error connecting to database'' s
     | Some d \<Rightarrow> (case from_string_u32 (mb_get mb ''submission_id'') of
           None \<Rightarrow> Inl Bad_string
         | Some sub \<Rightarrow> (case fetch_refusal c sub d of
               Some msg \<Rightarrow> err msg s
             | None \<Rightarrow>
                 if mb_get mb ''request'' = ''count'' then
                   Inr (mb_set ''count'' (u32_text (countMarkFiles sub d)) mb_ok, s)
                 else if mb_get mb ''request'' = ''data'' then
                   (case from_string_u32 (mb_get mb ''index'') of
                      None \<Rightarrow> Inl Bad_string
                    | Some i \<Rightarrow> (case getMarkFile sub i d of
                          None \<Rightarrow> err ''Mark file not found'' s
                        | Some (name, data) \<Rightarrow>
                            Inr (setContent (string_of_bytes data) (mb_set ''length'' (string_of_nat (length data))
                                   (mb_set ''name'' name mb_ok)), s)))
                 else Inr (mb_ok, s))))"

definition ActGetSubmissionSource :: "conn \<Rightarrow> MessageBlock \<Rightarrow> server \<Rightarrow> MessageBlock run" where
  "ActGetSubmissionSource cc mb s = with_conn cc s (\<lambda>c. case con s of
       None \<Rightarrow> err ''Error connecting to database'' s
     | Some d \<Rightarrow> (case from_string_u32 (mb_get mb ''submission_id'') of
           None \<Rightarrow> Inl Bad_string
         | Some sub \<Rightarrow> (case retrieveSubmission (if may c PERMISSION_SEE_ALL_SUBMISSIONS then 0 else cn_user_id c) sub d of
               None \<Rightarrow> err ''Unable to retrieve contestant source code'' s
             | Some (content, language, prob) \<Rightarrow> Inr (mb_set ''lang'' language (setContent content mb_ok), s))))"

section \<open>Problems\<close>

definition ActGetProbAttrs :: "conn \<Rightarrow> MessageBlock \<Rightarrow> server \<Rightarrow> MessageBlock run" where
  "ActGetProbAttrs cc mb s = (case from_string_u32 (mb_get mb ''prob_id'') of
       None \<Rightarrow> err ''Invalid problem Id'' s
     | Some prob \<Rightarrow> (case con s of
           None \<Rightarrow> err ''Error connecting to database'' s
         | Some d \<Rightarrow>
             (let a = getProblemAttributes prob d; ty = getProblemType prob d
              in if a = [] \<or> ty = [] then err ''No such problem'' s
                 else Inr (mb_set ''prob_type'' ty (set_attrs a [] mb_ok), s))))"

definition ActGetProblemFile :: "conn \<Rightarrow> MessageBlock \<Rightarrow> server \<Rightarrow> MessageBlock run" where
  "ActGetProblemFile cc mb s = (case from_string_u32 (mb_get mb ''prob_id'') of
       None \<Rightarrow> err ''Invalid problem Id'' s
     | Some prob \<Rightarrow>
         if prob = 0 then err ''Invalid problem Id'' s
         else if mb_get mb ''file'' = [] then err (''You have not specified which '' @ quoted ''file'' @ '' you'' @ [CHR 0x27] @ ''d like'') s
         else (case con s of
                 None \<Rightarrow> err ''Error connecting to database'' s
               | Some d \<Rightarrow> (case getProblemFileData prob (mb_get mb ''file'') d of
                     None \<Rightarrow> err ''You have specified an invalid problem id'' s
                   | Some data \<Rightarrow> Inr (setContent (string_of_bytes data) mb_ok, s))))"

definition ActGetProbTypes :: "conn \<Rightarrow> MessageBlock \<Rightarrow> server \<Rightarrow> MessageBlock run" where
  "ActGetProbTypes cc mb s = Inr (numbered (\<lambda>t n. mb_set (''type'' @ n) t) (map fst (sv_probtypes s)) 0 mb_ok, s)"

definition ActGetProbDescript :: "conn \<Rightarrow> MessageBlock \<Rightarrow> server \<Rightarrow> MessageBlock run" where
  "ActGetProbDescript cc mb s =
     (let ty = mb_get mb ''type''; desc = getProblemDescription ty s
      in if ty = [] then err ''You must specify the type to describe'' s
         else if desc = [] then err (''Error retrieving description for type '' @ ty) s
         else Inr (mb_set ''descript'' desc mb_ok, s))"

section \<open>Peer messages over TCP\<close>

text \<open>
  \<^verbatim>\<open>TCPTransmitAction\<close>: a stored message as a blob, for connections that are not logged in. A
  message that cannot be rebuilt leaves the container a null pointer. Otherwise the reply
  refers to the bytes of the container, which is freed before the reply is sent: with no
  other request for the same message running, its counter of users falls to zero.
\<close>

definition TCPTransmitAction :: "conn \<Rightarrow> MessageBlock \<Rightarrow> server \<Rightarrow> MessageBlock run" where
  "TCPTransmitAction cc mb s =
     (case (from_string_u32 (mb_get mb ''server_id''), from_string_u32 (mb_get mb ''message_id''),
            from_string_u32 (mb_get mb ''skip'')) of
        (Some server, Some i, Some skp) \<Rightarrow>
          if server = 0 \<or> i = 0 then err ''Ill-formed message'' s
          else (case con s of
                  None \<Rightarrow> err ''Could not connect to database'' s
                | Some d \<Rightarrow> (case smap_find (t_PeerMessage d) (server, i) of
                      None \<Rightarrow> err ''Message not found'' s
                    | Some r \<Rightarrow> (case rebuild (server, i) r of
                          Built h m \<Rightarrow>
                            (if unat skp < length (r_data r) + sizeof_st_blob - 1 then Inl Freed_memory
                             else err ''skip < block_size'' s)
                        | Build_overread \<Rightarrow> Inl Overread
                        | _ \<Rightarrow> Inl Null_pointer)))
      | _ \<Rightarrow> Inl Bad_string)"

end
