(* ===== verification/Dispatch.thy ===== *)
theory Dispatch
  imports Actions_Query
begin

text \<open>
  \<^verbatim>\<open>ClientAction::process\<close> and the table of actions that the modules register with the permission
  each needs; and the ends of a connection: \<^verbatim>\<open>ClientListener\<close> accepting it and the destructor of
  \<^verbatim>\<open>ClientConnection\<close>.
\<close>

section \<open>The table\<close>

type_synonym handler = "conn \<Rightarrow> MessageBlock \<Rightarrow> server \<Rightarrow> MessageBlock run"

text \<open>\<open>hash\<close> is \<^verbatim>\<open>hashpw\<close>, which calls the digest of the TLS library.\<close>

definition actionmap :: "(string \<Rightarrow> string \<Rightarrow> string) \<Rightarrow> (string \<times> PermissionTest \<times> handler) list" where
  "actionmap hash = [
     (''addgroup'', PT_BASE PERMISSION_USER_ADMIN, ActAddGroup),
     (''getgroups'', PT_OR (PT_BASE PERMISSION_USER_ADMIN) (PT_BASE PERMISSION_START_STOP), ActGetGroups),
     (''addserver'', PT_BASE PERMISSION_SERVER_ADMIN, ActAddServer),
     (''adduser'', PT_BASE PERMISSION_USER_ADMIN, ActAddUser hash),
     (''auth'', PT_ANY, ActAuth hash),
     (''getbonus'', PT_BASE PERMISSION_SEE_STANDINGS, ActGetbonus),
     (''setbonus'', PT_BASE PERMISSION_SET_BONUS, ActSetbonus),
     (''getclarifications'', PT_BASE PERMISSION_AUTH, ActGetClarifications),
     (''getclarificationrequests'', PT_BASE PERMISSION_AUTH, ActGetClarificationRequests),
     (''clarificationrequest'', PT_BASE PERMISSION_CLARIFICATION_REQUEST, ActClarificationRequest),
     (''clarification'', PT_BASE PERMISSION_CLARIFICATION_REPLY, ActClarification),
     (''contesttime'', PT_BASE PERMISSION_AUTH, ActContesttime),
     (''eventmap'', PT_ANY, ActEvents),
     (''subscribemark'', PT_BASE PERMISSION_MARK, ActSubscribeMark),
     (''mark'', PT_OR (PT_BASE PERMISSION_MARK) (PT_BASE PERMISSION_JUDGE), ActPlaceMark),
     (''passwd'', PT_BASE PERMISSION_CHANGE_PASSWORD, ActPasswd hash),
     (''id_passwd'', PT_BASE PERMISSION_USER_ADMIN, ActIdPasswd hash),
     (''getusers'', PT_BASE PERMISSION_USER_ADMIN, ActGetUsers),
     (''setprobattrs'', PT_BASE PERMISSION_PROBLEM_ADMIN, ActSetProbAttrs),
     (''getprobattrs'', PT_BASE PERMISSION_SEE_PROBLEM_DETAILS, ActGetProbAttrs),
     (''getprobfile'', PT_BASE PERMISSION_SEE_PROBLEM_DETAILS, ActGetProblemFile),
     (''getprobtypes'', PT_BASE PERMISSION_PROBLEM_ADMIN, ActGetProbTypes),
     (''getprobdescript'', PT_BASE PERMISSION_PROBLEM_ADMIN, ActGetProbDescript),
     (''getserverlist'', PT_BASE PERMISSION_SERVER_ADMIN, ServerListAct),
     (''standings'', PT_BASE PERMISSION_SEE_STANDINGS, ActStandings),
     (''startstop'', PT_BASE PERMISSION_START_STOP, ActStartStop),
     (''subscribetime'', PT_BASE PERMISSION_AUTH, ActSubscribeTime),
     (''conteststatus'', PT_BASE PERMISSION_AUTH, ActRunning),
     (''submit'', PT_BASE PERMISSION_SUBMIT, ActSubmit),
     (''getproblems'', PT_BASE PERMISSION_AUTH, ActGetProblems),
     (''getsubmissions'', PT_BASE PERMISSION_AUTH, ActGetSubmissions),
     (''getsubmissions_for_user'', PT_AND (PT_BASE PERMISSION_SEE_ALL_SUBMISSIONS) (PT_BASE PERMISSION_SEE_USER_ID),
        ActGetSubmissionsForUser),
     (''fetchfile'', PT_BASE PERMISSION_AUTH, ActSubmissionFileFetcher),
     (''getsubmissionsource'', PT_BASE PERMISSION_AUTH, ActGetSubmissionSource),
     (''getlanguages'', PT_BASE PERMISSION_AUTH, ActGetLanguages),
     (''whatami'', PT_ANY, ActWhatAmI),
     (''udtcppeermessageget'', PT_NOT (PT_BASE PERMISSION_AUTH), TCPTransmitAction)]"

section \<open>Processing a request\<close>

definition answer :: "conn \<Rightarrow> MessageBlock \<Rightarrow> MessageBlock \<Rightarrow> server \<Rightarrow> unit run" where
  "answer cc mb reply s =
     with_hub (sendMessageBlock cc (Message_Block.setMessageId (mb_message_id mb) reply)) s"

definition ClientAction_process ::
  "(string \<Rightarrow> string \<Rightarrow> string) \<Rightarrow> conn \<Rightarrow> MessageBlock \<Rightarrow> server \<Rightarrow> unit run" where
  "ClientAction_process hash cc mb s0 =
     (let me = my_id s0; s = remember_id s0
      in bind_run
           (if me = 0 then err ''Server has not yet been initialised - please try again later'' s
            else with_conn cc s (\<lambda>c. case map_of (actionmap hash) (mb_message mb) of
                   None \<Rightarrow> err ''No such action'' s
                 | Some (pt, act) \<Rightarrow>
                     if matches pt (cn_permissions c) \<noteq> Some True then err ''Action not permitted'' s
                     else act cc mb s))
           (\<lambda>reply s1. answer cc mb reply s1))"

section \<open>Connections\<close>

definition client_accept :: "conn \<Rightarrow> server \<Rightarrow> server" where
  "client_accept cc s = s\<lparr>sv_hub := accept_conn cc (sv_hub s)\<rparr>"

text \<open>The destructor: out of the registry, the marking job back into the queue, gone.\<close>

definition client_close :: "conn \<Rightarrow> server \<Rightarrow> unit run" where
  "client_close cc s =
     bind_run (with_hub (deregisterClient cc) s) (\<lambda>_ s1.
     bind_run (with_markers (\<lambda>sdb now. preemptMarker sdb now cc) s1) (\<lambda>_ s2.
     Inr ((), s2\<lparr>sv_hub := (sv_hub s2)\<lparr>conns := smap_erase cc (conns (sv_hub s2))\<rparr>\<rparr>)))"

end
