(* ===== verification/Events_Safe.thy ===== *)
theory Events_Safe
  imports Events
begin

text \<open>
  The registry of \<open>Events\<close> never holds a deleted connection: an invariant of every state the
  server can reach, and what it gives for the messages that are sent.
\<close>

section \<open>Invariant\<close>

definition clients_live :: "hub \<Rightarrow> bool" where
  "clients_live h \<longleftrightarrow> distinct (clients h) \<and>
     (\<forall>u cc. (u, cc) \<in> set (clients h) \<longrightarrow> u \<noteq> 0 \<and> (\<exists>c. smap_find (conns h) cc = Some c \<and> cn_user_id c = u))"

definition subscribers_live :: "hub \<Rightarrow> bool" where
  "subscribers_live h \<longleftrightarrow> (\<forall>name e cc. smap_find (eventmap h) name = Some e \<longrightarrow> smap_find (e_clients e) cc \<noteq> None \<longrightarrow>
     (\<exists>c. smap_find (conns h) cc = Some c \<and> matches (e_pt e) (cn_permissions c) = Some True))"

text \<open>No event is open to a connection that is not logged in.\<close>

definition events_closed :: "hub \<Rightarrow> bool" where
  "events_closed h \<longleftrightarrow> smap_ok (eventmap h) \<and>
     (\<forall>name e. smap_find (eventmap h) name = Some e \<longrightarrow>
        smap_ok (e_clients e) \<and> matches (e_pt e) empty_set = Some False)"

definition conns_ok :: "hub \<Rightarrow> bool" where
  "conns_ok h \<longleftrightarrow> smap_ok (conns h) \<and>
     (\<forall>cc c. smap_find (conns h) cc = Some c \<longrightarrow> ps_wf (cn_permissions c) \<and>
        (cn_user_id c = 0 \<longrightarrow> cn_permissions c = empty_set))"

definition hub_inv :: "hub \<Rightarrow> bool" where
  "hub_inv h \<longleftrightarrow> clients_live h \<and> subscribers_live h \<and> events_closed h \<and> conns_ok h"

lemma client_live:
  "hub_inv h \<Longrightarrow> (u, cc) \<in> set (clients h) \<Longrightarrow> u \<noteq> 0 \<and> (\<exists>c. smap_find (conns h) cc = Some c \<and> cn_user_id c = u)"
  unfolding hub_inv_def clients_live_def by blast

lemma subscriber_live:
  "hub_inv h \<Longrightarrow> smap_find (eventmap h) name = Some e \<Longrightarrow> smap_find (e_clients e) cc \<noteq> None \<Longrightarrow>
   \<exists>c. smap_find (conns h) cc = Some c \<and> matches (e_pt e) (cn_permissions c) = Some True"
  unfolding hub_inv_def subscribers_live_def by blast

lemma hub_inv_ok: "hub_inv h \<Longrightarrow> smap_ok (conns h)"
  by (simp add: hub_inv_def conns_ok_def)

section \<open>Steps\<close>

text \<open>
  Everything that changes connections or the registry. The user id a login answers is not
  zero: \<^verbatim>\<open>user_id\<close> is the key of a table whose numbers start at one.
\<close>

inductive hub_step :: "hub \<Rightarrow> hub \<Rightarrow> bool" where
  accept: "smap_find (conns h) cc = None \<Longrightarrow> hub_step h (accept_conn cc h)"
| close: "close_conn cc h = Some h' \<Longrightarrow> hub_step h h'"
| login: "user \<noteq> 0 \<Longrightarrow> login cc user ty grp h = Some h' \<Longrightarrow> hub_step h h'"
| events: "Act_ClientEventRegistry cc mb h = Some (reply, h') \<Longrightarrow> hub_step h h'"
| subscribe: "registerClient_event name cc h = Some (ok, h') \<Longrightarrow> hub_step h h'"
| register_event: "(name, pt) \<in> set server_events \<Longrightarrow> hub_step h (registerEvent name pt h)"
| send: "sendMessageBlock cc mb h = Some h' \<Longrightarrow> hub_step h h'"
| broadcast: "broadcastEvent user pt mb h = Some h' \<Longrightarrow> hub_step h h'"
| trigger: "triggerEvent name mb h = Some h' \<Longrightarrow> hub_step h h'"
| trigger_group: "triggerGroupEvent name mb grp h = Some h' \<Longrightarrow> hub_step h h'"
| notify: "sendMessage_to user mb h = Some h' \<Longrightarrow> hub_step h h'"

inductive hub_reach :: "hub \<Rightarrow> bool" where
  start: "hub_reach hub_new"
| step: "hub_reach h \<Longrightarrow> hub_step h h' \<Longrightarrow> hub_reach h'"

section \<open>Sending\<close>

text \<open>Sending changes nothing but the queues of connections that exist.\<close>

definition quiet :: "connection \<Rightarrow> connection" where
  "quiet c = c\<lparr>cn_queue := []\<rparr>"

definition same_hub :: "hub \<Rightarrow> hub \<Rightarrow> bool" where
  "same_hub h h' \<longleftrightarrow> eventmap h' = eventmap h \<and> clients h' = clients h \<and>
     (smap_ok (conns h) \<longrightarrow> smap_ok (conns h')) \<and>
     (\<forall>cc. map_option quiet (smap_find (conns h') cc) = map_option quiet (smap_find (conns h) cc))"

lemma same_hub_refl [simp, intro]: "same_hub h h"
  by (simp add: same_hub_def)

lemma same_hub_trans: "same_hub h1 h2 \<Longrightarrow> same_hub h2 h3 \<Longrightarrow> same_hub h1 h3"
  by (simp add: same_hub_def)

lemma same_hub_find:
  assumes "same_hub h h'" "smap_find (conns h) cc = Some c"
  shows "\<exists>c'. smap_find (conns h') cc = Some c' \<and> cn_user_id c' = cn_user_id c \<and>
    cn_group_id c' = cn_group_id c \<and> cn_permissions c' = cn_permissions c"
proof -
  have "map_option quiet (smap_find (conns h') cc) = Some (quiet c)"
    using assms by (simp add: same_hub_def)
  then obtain c' where "smap_find (conns h') cc = Some c'" "quiet c' = quiet c" by auto
  then show ?thesis by (metis connection.select_convs connection.surjective connection.update_convs(4) quiet_def)
qed

lemma same_hub_sym: "same_hub h h' \<Longrightarrow> smap_ok (conns h) \<Longrightarrow> same_hub h' h"
  by (simp add: same_hub_def)

lemma send_same: "sendMessageBlock cc mb h = Some h' \<Longrightarrow> same_hub h h'"
  by (auto simp: sendMessageBlock_def same_hub_def quiet_def Let_def smap_find_put smap_ok_put
      split: option.splits if_splits)

lemma send_live: "smap_find (conns h) cc \<noteq> None \<Longrightarrow> \<exists>h'. sendMessageBlock cc mb h = Some h'"
  by (auto simp: sendMessageBlock_def Let_def)

text \<open>A set of connections is live if each exists.\<close>

definition live :: "conn list \<Rightarrow> hub \<Rightarrow> bool" where
  "live ccs h \<longleftrightarrow> (\<forall>cc\<in>set ccs. smap_find (conns h) cc \<noteq> None)"

lemma live_Cons [simp]: "live (cc # ccs) h \<longleftrightarrow> smap_find (conns h) cc \<noteq> None \<and> live ccs h"
  by (simp add: live_def)

lemma live_same: "same_hub h h' \<Longrightarrow> live ccs h \<Longrightarrow> live ccs h'"
  using same_hub_find by (fastforce simp: live_def)

lemma send_all_live: "live ccs h \<Longrightarrow> \<exists>h'. send_all ccs mb h = Some h' \<and> same_hub h h'"
proof (induction ccs arbitrary: h)
  case (Cons cc ccs)
  then obtain h1 where h1: "sendMessageBlock cc mb h = Some h1" using send_live live_Cons by blast
  then have "live ccs h1" using live_same [OF send_same [OF h1]] Cons.prems by simp
  with Cons.IH obtain h2 where "send_all ccs mb h1 = Some h2" "same_hub h1 h2" by blast
  with h1 show ?case using same_hub_trans [OF send_same [OF h1]] by simp
qed simp

lemma send_if_live: "live ccs h \<Longrightarrow> \<exists>h'. send_if P ccs mb h = Some h' \<and> same_hub h h'"
proof (induction ccs arbitrary: h)
  case (Cons cc ccs)
  then obtain c where c: "smap_find (conns h) cc = Some c" by auto
  show ?case
  proof (cases "P c")
    case True
    obtain h1 where h1: "sendMessageBlock cc mb h = Some h1" using send_live c by blast
    then have "live ccs h1" using live_same [OF send_same [OF h1]] Cons.prems by simp
    with Cons.IH obtain h2 where "send_if P ccs mb h1 = Some h2" "same_hub h1 h2" by blast
    with h1 c True show ?thesis using same_hub_trans [OF send_same [OF h1]] by simp
  next
    case False
    with Cons c show ?thesis by simp
  qed
qed simp

lemma broadcast_loop_live:
  "live (map snd cs) h \<Longrightarrow> \<exists>h'. broadcast_loop user pt mb cs h = Some h' \<and> same_hub h h'"
proof (induction cs arbitrary: h)
  case (Cons ucc cs)
  obtain u cc where ucc: "ucc = (u, cc)" by (cases ucc)
  from Cons.prems ucc obtain c where c: "smap_find (conns h) cc = Some c" by auto
  obtain h1 where h1: "sendMessageBlock cc mb h = Some h1" using send_live c by blast
  then have l1: "live (map snd cs) h1" and l: "live (map snd cs) h"
    using live_same [OF send_same [OF h1]] Cons.prems by simp_all
  from Cons.IH [OF l1] Cons.IH [OF l] ucc c h1 show ?case
    using same_hub_trans [OF send_same [OF h1]] by auto
qed simp

lemma clients_are_live: "hub_inv h \<Longrightarrow> live (map snd (clients h)) h"
  by (auto simp: live_def hub_inv_def clients_live_def dest!: spec)

lemma subscribers_are_live: "hub_inv h \<Longrightarrow> smap_find (eventmap h) name = Some e \<Longrightarrow> live (map fst (e_clients e)) h"
proof -
  assume h: "hub_inv h" and e: "smap_find (eventmap h) name = Some e"
  have "smap_find (e_clients e) cc \<noteq> None" if "cc \<in> fst ` set (e_clients e)" for cc
    using that by (simp add: smap_find_dom)
  with h e show ?thesis by (fastforce simp: live_def hub_inv_def subscribers_live_def)
qed

lemma hub_inv_same: "same_hub h h' \<Longrightarrow> hub_inv h \<Longrightarrow> hub_inv h'"
proof -
  assume s: "same_hub h h'" and h: "hub_inv h"
  then have ok: "smap_ok (conns h)" by (simp add: hub_inv_def conns_ok_def)
  note fwd = same_hub_find [OF s] and bwd = same_hub_find [OF same_hub_sym [OF s ok]]
  have ec: "eventmap h' = eventmap h" "clients h' = clients h" "smap_ok (conns h')"
    using s ok by (simp_all add: same_hub_def)
  have "clients_live h'" using h fwd by (fastforce simp: hub_inv_def clients_live_def ec)
  moreover have "subscribers_live h'"
    unfolding subscribers_live_def ec
  proof (intro allI impI)
    fix name e cc
    assume "smap_find (eventmap h) name = Some e" "smap_find (e_clients e) cc \<noteq> None"
    then obtain c where "smap_find (conns h) cc = Some c" "matches (e_pt e) (cn_permissions c) = Some True"
      using h unfolding hub_inv_def subscribers_live_def by blast
    then show "\<exists>c. smap_find (conns h') cc = Some c \<and> matches (e_pt e) (cn_permissions c) = Some True"
      using fwd by fastforce
  qed
  moreover have "events_closed h'" using h by (simp add: hub_inv_def events_closed_def ec)
  moreover have "conns_ok h'"
    unfolding conns_ok_def
  proof (intro conjI allI impI ec(3))
    fix cc c assume "smap_find (conns h') cc = Some c"
    from bwd [OF this] obtain c0 where c0: "smap_find (conns h) cc = Some c0" "cn_user_id c0 = cn_user_id c"
      "cn_permissions c0 = cn_permissions c" by auto
    with h show "ps_wf (cn_permissions c)" "cn_user_id c = 0 \<Longrightarrow> cn_permissions c = empty_set"
      by (auto simp: hub_inv_def conns_ok_def dest!: spec)
  qed
  ultimately show ?thesis by (simp add: hub_inv_def)
qed

section \<open>Leaving and joining the registry\<close>

definition absent :: "conn \<Rightarrow> hub \<Rightarrow> bool" where
  "absent cc h \<longleftrightarrow> (\<forall>u. (u, cc) \<notin> set (clients h)) \<and>
     (\<forall>name e. smap_find (eventmap h) name = Some e \<longrightarrow> smap_find (e_clients e) cc = None)"

lemma smap_find_map: "smap_find (map (\<lambda>(k, v). (k, f v)) m) k = map_option f (smap_find m k)"
  by (induction m k rule: smap_find.induct) auto

lemma smap_ok_map: "smap_ok (map (\<lambda>(k, v). (k, f v)) m) = smap_ok m"
proof -
  have "map fst (map (\<lambda>(k, v). (k, f v)) m) = map fst m" by (induction m) auto
  then show ?thesis by (simp only: smap_ok_def)
qed

lemma event_deregister_spec:
  "snd (event_deregisterClient cc c e) =
     (if matches (e_pt e) (cn_permissions c) = Some True then e\<lparr>e_clients := smap_erase cc (e_clients e)\<rparr> else e)"
  by (simp add: event_deregisterClient_def)

lemma event_deregister_find:
  assumes "smap_ok (e_clients e)"
  shows "smap_find (e_clients (snd (event_deregisterClient cc c e))) x =
    (if x = cc \<and> matches (e_pt e) (cn_permissions c) = Some True then None else smap_find (e_clients e) x)"
  by (simp add: event_deregister_spec sm.find_erase assms)

lemma deregister_inv:
  assumes h: "hub_inv h" and d: "deregisterClient cc h = Some h'"
  shows "hub_inv h' \<and> absent cc h' \<and> conns h' = conns h"
proof -
  from d obtain c where c: "smap_find (conns h) cc = Some c"
    and h': "h' = h\<lparr>eventmap := map (\<lambda>(n, e). (n, snd (event_deregisterClient cc c e))) (eventmap h),
      clients := filter (\<lambda>(u, x). \<not> (u = cn_user_id c \<and> x = cc)) (clients h)\<rparr>"
    by (auto simp: deregisterClient_def split: option.splits)
  have ev: "smap_find (eventmap h') name = map_option (\<lambda>e. snd (event_deregisterClient cc c e)) (smap_find (eventmap h) name)" for name
    by (simp add: h' smap_find_map)
  have ok: "smap_ok (e_clients e)" "matches (e_pt e) empty_set = Some False" if "smap_find (eventmap h) name = Some e" for name e
    using h that by (auto simp: hub_inv_def events_closed_def)
  have sub: "\<exists>c. smap_find (conns h) x = Some c \<and> matches (e_pt e) (cn_permissions c) = Some True"
    if "smap_find (eventmap h) name = Some e" "smap_find (e_clients e) x \<noteq> None" for name e x
    using h that unfolding hub_inv_def subscribers_live_def by blast
  have pt: "e_pt (snd (event_deregisterClient cc c e)) = e_pt e" for e by (simp add: event_deregister_spec)
  have cl: "clients_live h'" using h by (auto simp: hub_inv_def clients_live_def h')
  have su: "subscribers_live h'"
    unfolding subscribers_live_def
  proof (intro allI impI)
    fix name e x
    assume "smap_find (eventmap h') name = Some e" and x: "smap_find (e_clients e) x \<noteq> None"
    then obtain e0 where e0: "smap_find (eventmap h) name = Some e0" "e = snd (event_deregisterClient cc c e0)"
      by (auto simp: ev)
    then have "smap_find (e_clients e0) x \<noteq> None"
      using x event_deregister_find [OF ok(1) [OF e0(1)]] by (auto split: if_splits)
    from sub [OF e0(1) this] show "\<exists>c. smap_find (conns h') x = Some c \<and> matches (e_pt e) (cn_permissions c) = Some True"
      by (simp add: e0(2) pt h')
  qed
  have ec: "events_closed h'"
    unfolding events_closed_def
  proof (intro conjI allI impI)
    show "smap_ok (eventmap h')" using h by (simp add: h' smap_ok_map hub_inv_def events_closed_def)
    fix name e assume "smap_find (eventmap h') name = Some e"
    then obtain e0 where e0: "smap_find (eventmap h) name = Some e0" "e = snd (event_deregisterClient cc c e0)"
      by (auto simp: ev)
    then show "smap_ok (e_clients e)" "matches (e_pt e) empty_set = Some False"
      using ok [OF e0(1)] by (auto simp: pt event_deregister_spec smap_ok_erase)
  qed
  have co: "conns_ok h'" using h by (simp add: hub_inv_def conns_ok_def h')
  have ab: "absent cc h'"
    unfolding absent_def
  proof (intro conjI allI impI)
    fix u show "(u, cc) \<notin> set (clients h')" using client_live [OF h, of u cc] c by (auto simp: h')
  next
    fix name e assume "smap_find (eventmap h') name = Some e"
    then obtain e0 where e0: "smap_find (eventmap h) name = Some e0" "e = snd (event_deregisterClient cc c e0)"
      by (auto simp: ev)
    show "smap_find (e_clients e) cc = None"
      using sub [OF e0(1), of cc] c event_deregister_find [OF ok(1) [OF e0(1)], of cc c cc]
      by (cases "smap_find (e_clients e0) cc") (auto simp: e0(2) split: if_splits)
  qed
  show ?thesis using cl su ec co ab by (simp add: hub_inv_def h')
qed

lemma anonymous_absent:
  assumes h: "hub_inv h" and c: "smap_find (conns h) cc = Some c" and z: "cn_user_id c = 0"
  shows "absent cc h"
proof -
  have "cn_permissions c = empty_set" using h c z by (auto simp: hub_inv_def conns_ok_def)
  moreover have "matches (e_pt e) (cn_permissions c) = Some True"
    if "smap_find (eventmap h) name = Some e" "smap_find (e_clients e) cc \<noteq> None" for name e
  proof -
    from h that obtain c' where "smap_find (conns h) cc = Some c'" "matches (e_pt e) (cn_permissions c') = Some True"
      unfolding hub_inv_def subscribers_live_def by blast
    with c show ?thesis by simp
  qed
  moreover have "matches (e_pt e) empty_set = Some False" if "smap_find (eventmap h) name = Some e" for name e
    using h that unfolding hub_inv_def events_closed_def by blast
  ultimately have "smap_find (e_clients e) cc = None" if "smap_find (eventmap h) name = Some e" for name e
    using that by (metis option.inject)
  moreover have "(u, cc) \<notin> set (clients h)" for u using client_live [OF h, of u cc] c z by auto
  ultimately show ?thesis by (simp add: absent_def)
qed

text \<open>A connection the registry does not know may change or go.\<close>

lemma hub_inv_conns:
  assumes h: "hub_inv h" and a: "absent cc h"
    and same: "\<And>x. x \<noteq> cc \<Longrightarrow> smap_find cs x = smap_find (conns h) x" and ok: "smap_ok cs"
    and new: "\<And>c. smap_find cs cc = Some c \<Longrightarrow> ps_wf (cn_permissions c) \<and> (cn_user_id c = 0 \<longrightarrow> cn_permissions c = empty_set)"
  shows "hub_inv (h\<lparr>conns := cs\<rparr>)"
proof -
  have "clients_live (h\<lparr>conns := cs\<rparr>)"
    using h a same unfolding hub_inv_def clients_live_def absent_def by simp metis
  moreover have "subscribers_live (h\<lparr>conns := cs\<rparr>)"
    unfolding subscribers_live_def
  proof (intro allI impI)
    fix name e x
    assume e: "smap_find (eventmap (h\<lparr>conns := cs\<rparr>)) name = Some e" and x: "smap_find (e_clients e) x \<noteq> None"
    then have "x \<noteq> cc" using a by (auto simp: absent_def)
    moreover obtain c where "smap_find (conns h) x = Some c" "matches (e_pt e) (cn_permissions c) = Some True"
      using subscriber_live [OF h _ x, of name] e by auto
    ultimately show "\<exists>c. smap_find (conns (h\<lparr>conns := cs\<rparr>)) x = Some c \<and> matches (e_pt e) (cn_permissions c) = Some True"
      using same by simp
  qed
  moreover have "events_closed (h\<lparr>conns := cs\<rparr>)" using h by (simp add: hub_inv_def events_closed_def)
  moreover have "conns_ok (h\<lparr>conns := cs\<rparr>)"
    unfolding conns_ok_def
  proof (intro conjI allI impI)
    show "smap_ok (conns (h\<lparr>conns := cs\<rparr>))" using ok by simp
    fix x c assume "smap_find (conns (h\<lparr>conns := cs\<rparr>)) x = Some c"
    then show "ps_wf (cn_permissions c)" "cn_user_id c = 0 \<Longrightarrow> cn_permissions c = empty_set"
      using new [of c] same [of x] h by (cases "x = cc"; auto simp: hub_inv_def conns_ok_def)+
  qed
  ultimately show ?thesis by (simp add: hub_inv_def)
qed

lemma multimap_insert_set: "set (multimap_insert k v m) = insert (k, v) (set m)"
  by (induction k v m rule: multimap_insert.induct) auto

lemma multimap_insert_distinct: "(k, v) \<notin> set m \<Longrightarrow> distinct m \<Longrightarrow> distinct (multimap_insert k v m)"
  by (induction k v m rule: multimap_insert.induct) (auto simp: multimap_insert_set)

lemma registerClient_inv:
  assumes h: "hub_inv h" and a: "absent cc h" and r: "registerClient cc h = Some h'"
    and nz: "\<And>c. smap_find (conns h) cc = Some c \<Longrightarrow> cn_user_id c \<noteq> 0"
  shows "hub_inv h'"
proof -
  from r obtain c where c: "smap_find (conns h) cc = Some c"
    and h': "h' = h\<lparr>clients := multimap_insert (cn_user_id c) cc (clients h)\<rparr>"
    by (auto simp: registerClient_def split: option.splits)
  have "clients_live h'"
    using h a c nz [OF c] by (auto simp: h' hub_inv_def clients_live_def absent_def multimap_insert_set
        intro!: multimap_insert_distinct)
  with h show ?thesis by (simp add: h' hub_inv_def subscribers_live_def events_closed_def conns_ok_def)
qed

lemma login_inv:
  assumes h: "hub_inv h" and l: "login cc user ty grp h = Some h'" and u: "user \<noteq> 0"
  shows "hub_inv h'"
proof -
  from l obtain c h1 where c: "smap_find (conns h) cc = Some c"
    and h1: "(if cn_user_id c \<noteq> 0 then deregisterClient cc h else Some h) = Some h1"
    and r: "registerClient cc (update_conn cc (\<lambda>c. c\<lparr>cn_user_id := user, cn_group_id := grp,
      cn_permissions := permissions_of ty\<rparr>) h1) = Some h'"
    by (auto simp: login_def split: option.splits)
  have inv1: "hub_inv h1" and ab1: "absent cc h1" and c1: "conns h1 = conns h"
    using h1 deregister_inv [OF h] anonymous_absent [OF h c] h by (auto split: if_splits)
  let ?c = "c\<lparr>cn_user_id := user, cn_group_id := grp, cn_permissions := permissions_of ty\<rparr>"
  let ?h2 = "h1\<lparr>conns := smap_put cc ?c (conns h1)\<rparr>"
  have r2: "registerClient cc ?h2 = Some h'" using r c c1 by (simp add: update_conn_def)
  have "smap_ok (conns h1)" using inv1 by (simp add: hub_inv_def conns_ok_def)
  then have "hub_inv ?h2"
    using u by (intro hub_inv_conns [OF inv1 ab1]) (auto simp: smap_find_put smap_ok_put)
  moreover have "absent cc ?h2" using ab1 by (simp add: absent_def)
  ultimately show ?thesis
    using u by (intro registerClient_inv [OF _ _ r2]) (auto simp: smap_find_put)
qed

lemma close_inv:
  assumes h: "hub_inv h" and cl: "close_conn cc h = Some h'"
  shows "hub_inv h' \<and> absent cc h' \<and> smap_find (conns h') cc = None"
proof -
  from cl obtain h1 where h1: "deregisterClient cc h = Some h1" "h' = h1\<lparr>conns := smap_erase cc (conns h1)\<rparr>"
    by (auto simp: close_conn_def)
  note d = deregister_inv [OF h h1(1)]
  then have ok: "smap_ok (conns h1)" by (blast intro: hub_inv_ok)
  have "hub_inv h'"
    unfolding h1(2) using d ok by (intro hub_inv_conns [of h1 cc]) (auto simp: sm.find_erase smap_ok_erase)
  with d ok show ?thesis by (simp add: h1(2) absent_def sm.find_erase)
qed

lemma accept_inv:
  assumes h: "hub_inv h" and new: "smap_find (conns h) cc = None"
  shows "hub_inv (accept_conn cc h)"
proof -
  have ok: "smap_ok (conns h)" using h by (simp add: hub_inv_def conns_ok_def)
  have "(u, cc) \<notin> set (clients h)" for u using client_live [OF h, of u cc] new by auto
  moreover have "smap_find (e_clients e) cc = None" if "smap_find (eventmap h) name = Some e" for name e
    using subscriber_live [OF h that, of cc] new by (cases "smap_find (e_clients e) cc") auto
  ultimately have "absent cc h" by (simp add: absent_def)
  with h ok show ?thesis
    unfolding accept_conn_def
    by (intro hub_inv_conns [of h cc]) (auto simp: smap_find_put smap_ok_put connection_new_def)
qed

text \<open>Replacing an event by one with the same test and other, permitted subscribers.\<close>

lemma eventmap_inv:
  assumes h: "hub_inv h" and ok: "smap_ok (e_clients e')" and anon: "matches (e_pt e') empty_set = Some False"
    and sub: "\<And>cc. smap_find (e_clients e') cc \<noteq> None \<Longrightarrow>
      \<exists>c. smap_find (conns h) cc = Some c \<and> matches (e_pt e') (cn_permissions c) = Some True"
  shows "hub_inv (h\<lparr>eventmap := smap_put name e' (eventmap h)\<rparr>)"
proof -
  let ?h = "h\<lparr>eventmap := smap_put name e' (eventmap h)\<rparr>"
  have "subscribers_live ?h"
    unfolding subscribers_live_def
  proof (intro allI impI)
    fix n e cc assume e: "smap_find (eventmap ?h) n = Some e" and cc: "smap_find (e_clients e) cc \<noteq> None"
    then show "\<exists>c. smap_find (conns ?h) cc = Some c \<and> matches (e_pt e) (cn_permissions c) = Some True"
      using sub [of cc] subscriber_live [OF h _ cc, of n] by (cases "n = name") (auto simp: smap_find_put)
  qed
  moreover have "events_closed ?h"
    using h ok anon by (auto simp: hub_inv_def events_closed_def smap_find_put smap_ok_put)
  ultimately show ?thesis using h by (simp add: hub_inv_def clients_live_def conns_ok_def)
qed

lemma event_facts:
  "hub_inv h \<Longrightarrow> smap_find (eventmap h) name = Some e \<Longrightarrow> smap_ok (e_clients e) \<and> matches (e_pt e) empty_set = Some False"
  unfolding hub_inv_def events_closed_def by blast

lemma registerClient_event_inv:
  assumes h: "hub_inv h" and r: "registerClient_event name cc h = Some (ok, h')"
  shows "hub_inv h'"
proof (cases "smap_find (eventmap h) name")
  case (Some e)
  from r Some obtain c where c: "smap_find (conns h) cc = Some c"
    and h': "h' = h\<lparr>eventmap := smap_put name (snd (event_registerClient cc c e)) (eventmap h)\<rparr>"
    by (auto simp: registerClient_event_def split: option.splits prod.splits)
  show ?thesis
    unfolding h' using event_facts [OF h Some] subscriber_live [OF h Some] c
    by (intro eventmap_inv [OF h]) (auto simp: event_registerClient_def smap_ok_put smap_find_put split: if_splits)
qed (use assms in \<open>auto simp: registerClient_event_def split: option.splits\<close>)

lemma deregisterClient_event_inv:
  assumes h: "hub_inv h" and r: "deregisterClient_event name cc h = Some (ok, h')"
  shows "hub_inv h'"
proof (cases "smap_find (eventmap h) name")
  case (Some e)
  from r Some obtain c where c: "smap_find (conns h) cc = Some c"
    and h': "h' = h\<lparr>eventmap := smap_put name (snd (event_deregisterClient cc c e)) (eventmap h)\<rparr>"
    by (auto simp: deregisterClient_event_def split: option.splits prod.splits)
  show ?thesis
    unfolding h' using event_facts [OF h Some] subscriber_live [OF h Some] c
    by (intro eventmap_inv [OF h]) (auto simp: event_deregister_spec smap_ok_erase sm.find_erase split: if_splits)
qed (use assms in \<open>auto simp: deregisterClient_event_def split: option.splits\<close>)

lemma server_events_closed: "(name, pt) \<in> set server_events \<Longrightarrow> matches pt empty_set = Some False"
proof -
  have "\<forall>(name, pt)\<in>set server_events. matches pt empty_set = Some False" by code_simp
  then show "(name, pt) \<in> set server_events \<Longrightarrow> ?thesis" by blast
qed

lemma registerEvent_inv: "hub_inv h \<Longrightarrow> (name, pt) \<in> set server_events \<Longrightarrow> hub_inv (registerEvent name pt h)"
  by (auto simp: registerEvent_def server_events_closed intro!: eventmap_inv split: option.split)

lemma sending_same:
  assumes "hub_inv h"
  shows "broadcastEvent user pt mb h = Some h' \<Longrightarrow> same_hub h h'"
    "triggerEvent name mb h = Some h' \<Longrightarrow> same_hub h h'"
    "triggerGroupEvent name mb grp h = Some h' \<Longrightarrow> same_hub h h'"
    "sendMessage_to user mb h = Some h' \<Longrightarrow> same_hub h h'"
proof -
  have "live (map snd (filter (\<lambda>(u, cc). u = user) (clients h))) h"
    using clients_are_live [OF assms] by (auto simp: live_def)
  from send_all_live [OF this, of mb] show "sendMessage_to user mb h = Some h' \<Longrightarrow> same_hub h h'"
    by (auto simp: sendMessage_to_def)
  show "broadcastEvent user pt mb h = Some h' \<Longrightarrow> same_hub h h'"
    using broadcast_loop_live [OF clients_are_live [OF assms], of user pt mb] by (auto simp: broadcastEvent_def)
  show "triggerEvent name mb h = Some h' \<Longrightarrow> same_hub h h'"
    using send_all_live [OF subscribers_are_live [OF assms], of name _ mb]
    by (fastforce simp: triggerEvent_def split: option.splits)
  show "triggerGroupEvent name mb grp h = Some h' \<Longrightarrow> same_hub h h'"
    using send_if_live [OF subscribers_are_live [OF assms], of name _ "\<lambda>c. cn_group_id c = grp" mb]
    by (fastforce simp: triggerGroupEvent_def split: option.splits)
qed

lemma sending_inv:
  assumes "hub_inv h"
  shows "broadcastEvent user pt mb h = Some h' \<Longrightarrow> hub_inv h'"
    "triggerEvent name mb h = Some h' \<Longrightarrow> hub_inv h'"
    "triggerGroupEvent name mb grp h = Some h' \<Longrightarrow> hub_inv h'"
    "sendMessage_to user mb h = Some h' \<Longrightarrow> hub_inv h'"
  using sending_same [OF assms] hub_inv_same assms by blast+

lemma hub_step_inv: "hub_step h h' \<Longrightarrow> hub_inv h \<Longrightarrow> hub_inv h'"
proof (induction rule: hub_step.induct)
  case (events cc mb h reply h')
  then show ?case
    by (auto simp: Act_ClientEventRegistry_def Let_def split: option.splits if_splits
        intro: registerClient_event_inv deregisterClient_event_inv)
next
  case (send cc mb h h')
  then show ?case using hub_inv_same send_same by blast
qed (blast intro: accept_inv close_inv [THEN conjunct1] login_inv registerClient_event_inv registerEvent_inv sending_inv)+

lemma hub_reach_inv: "hub_reach h \<Longrightarrow> hub_inv h"
proof (induction rule: hub_reach.induct)
  case start
  show ?case
    by (simp add: hub_inv_def hub_new_def clients_live_def subscribers_live_def events_closed_def conns_ok_def)
qed (blast intro: hub_step_inv)

section \<open>Everyone who is logged in is known\<close>

definition complete :: "hub \<Rightarrow> bool" where
  "complete h \<longleftrightarrow> (\<forall>cc c. smap_find (conns h) cc = Some c \<longrightarrow> cn_user_id c \<noteq> 0 \<longrightarrow> (cn_user_id c, cc) \<in> set (clients h))"

lemma complete_same: "same_hub h h' \<Longrightarrow> hub_inv h \<Longrightarrow> complete h \<Longrightarrow> complete h'"
  unfolding complete_def
proof (intro allI impI)
  fix cc c
  assume s: "same_hub h h'" and i: "hub_inv h"
    and k: "\<forall>cc c. smap_find (conns h) cc = Some c \<longrightarrow> cn_user_id c \<noteq> 0 \<longrightarrow> (cn_user_id c, cc) \<in> set (clients h)"
    and c: "smap_find (conns h') cc = Some c" "cn_user_id c \<noteq> 0"
  from same_hub_find [OF same_hub_sym [OF s hub_inv_ok [OF i]] c(1)] obtain c0 where
    "smap_find (conns h) cc = Some c0" "cn_user_id c0 = cn_user_id c" by auto
  with k c(2) have "(cn_user_id c, cc) \<in> set (clients h)" by metis
  with s show "(cn_user_id c, cc) \<in> set (clients h')" by (simp add: same_hub_def)
qed

lemma deregister_fields:
  "deregisterClient cc h = Some h' \<Longrightarrow> conns h' = conns h \<and> {x \<in> set (clients h). snd x \<noteq> cc} \<subseteq> set (clients h')"
  by (auto simp: deregisterClient_def split: option.splits)

lemma login_complete:
  assumes k: "complete h" and l: "login cc user ty grp h = Some h'"
  shows "complete h'"
proof -
  from l obtain c h1 where c: "smap_find (conns h) cc = Some c"
    and h1: "(if cn_user_id c \<noteq> 0 then deregisterClient cc h else Some h) = Some h1"
    and r: "registerClient cc (update_conn cc (\<lambda>c. c\<lparr>cn_user_id := user, cn_group_id := grp,
      cn_permissions := permissions_of ty\<rparr>) h1) = Some h'"
    by (auto simp: login_def split: option.splits)
  have f: "conns h1 = conns h" "{x \<in> set (clients h). snd x \<noteq> cc} \<subseteq> set (clients h1)"
    using h1 deregister_fields [of cc h h1] by (auto split: if_splits)
  show ?thesis
    unfolding complete_def
  proof (intro allI impI)
    fix x c' assume x: "smap_find (conns h') x = Some c'" and nz: "cn_user_id c' \<noteq> 0"
    show "(cn_user_id c', x) \<in> set (clients h')"
    proof (cases "x = cc")
      case True
      with x r f c show ?thesis by (auto simp: registerClient_def update_conn_def smap_find_put multimap_insert_set)
    next
      case False
      then have "smap_find (conns h) x = Some c'"
        using x r f c by (auto simp: registerClient_def update_conn_def smap_find_put)
      then have "(cn_user_id c', x) \<in> set (clients h1)" using k nz f(2) False unfolding complete_def by auto
      with r f c show ?thesis by (auto simp: registerClient_def update_conn_def smap_find_put multimap_insert_set)
    qed
  qed
qed

lemma close_complete:
  assumes "hub_inv h" "complete h" "close_conn cc h = Some h'"
  shows "complete h'"
proof -
  from assms(3) obtain h1 where h1: "deregisterClient cc h = Some h1" "h' = h1\<lparr>conns := smap_erase cc (conns h1)\<rparr>"
    by (auto simp: close_conn_def)
  note f = deregister_fields [OF h1(1)]
  have "smap_find (conns h') x = (if x = cc then None else smap_find (conns h) x)" for x
    using f hub_inv_ok [OF assms(1)] by (simp add: h1(2) sm.find_erase)
  with assms(2) f show ?thesis by (auto simp: complete_def h1(2) split: if_splits)
qed

lemma event_ops_fields:
  "registerClient_event name cc h = Some (ok, h') \<Longrightarrow> conns h' = conns h \<and> clients h' = clients h"
  "deregisterClient_event name cc h = Some (ok, h') \<Longrightarrow> conns h' = conns h \<and> clients h' = clients h"
  "conns (registerEvent name pt h) = conns h \<and> clients (registerEvent name pt h) = clients h"
  by (auto simp: registerClient_event_def deregisterClient_event_def registerEvent_def split: option.splits prod.splits)

lemma complete_fields: "conns h' = conns h \<and> clients h' = clients h \<Longrightarrow> complete h \<Longrightarrow> complete h'"
  by (simp add: complete_def)

lemma hub_step_complete: "hub_step h h' \<Longrightarrow> hub_inv h \<Longrightarrow> complete h \<Longrightarrow> complete h'"
proof (induction rule: hub_step.induct)
  case (accept h cc)
  then show ?case by (auto simp: complete_def accept_conn_def smap_find_put connection_new_def)
next
  case (events cc mb h reply h')
  then have "conns h' = conns h \<and> clients h' = clients h"
    by (auto simp: Act_ClientEventRegistry_def Let_def split: option.splits if_splits dest: event_ops_fields(1,2))
  with events show ?case by (blast intro: complete_fields)
next
  case (subscribe name cc h ok h')
  then show ?case by (blast intro: complete_fields dest: event_ops_fields(1))
next
  case (register_event name pt h)
  then show ?case by (intro complete_fields [OF event_ops_fields(3)])
qed (blast intro: close_complete login_complete complete_same send_same sending_same)+

lemma hub_reach_complete: "hub_reach h \<Longrightarrow> complete h"
proof (induction rule: hub_reach.induct)
  case start
  show ?case by (simp add: complete_def hub_new_def)
qed (blast intro: hub_step_complete hub_reach_inv)

section \<open>Who is told\<close>

lemma getRaw_nonempty [simp]: "getRaw mb \<noteq> []"
  by (simp add: getRaw_def)

lemma send_queue:
  "sendMessageBlock cc mb h = Some h' \<Longrightarrow> smap_find (conns h') x =
     (if x = cc then map_option (\<lambda>c. c\<lparr>cn_queue := cn_queue c @ [getRaw mb]\<rparr>) (smap_find (conns h) x)
      else smap_find (conns h) x)"
  by (auto simp: sendMessageBlock_def Let_def smap_find_put split: option.splits)

definition told :: "u32 \<Rightarrow> PermissionTest \<Rightarrow> u32 \<Rightarrow> connection \<Rightarrow> bool" where
  "told user pt u c \<longleftrightarrow> u = user \<or> matches pt (cn_permissions c) = Some True"

lemma broadcast_loop_queue:
  "distinct (map snd cs) \<Longrightarrow> broadcast_loop user pt mb cs h = Some h' \<Longrightarrow>
   smap_find (conns h') x = map_option (\<lambda>c. if \<exists>u. (u, x) \<in> set cs \<and> told user pt u c
       then c\<lparr>cn_queue := cn_queue c @ [getRaw mb]\<rparr> else c) (smap_find (conns h) x)"
proof (induction cs arbitrary: h)
  case Nil
  then show ?case by (simp add: option.map_ident)
next
  case (Cons ucc cs)
  obtain u cc where ucc: "ucc = (u, cc)" by (cases ucc)
  from Cons.prems(2) ucc obtain c where c: "smap_find (conns h) cc = Some c" by (auto split: option.splits)
  have nin: "(v, cc) \<notin> set cs" for v using Cons.prems(1) ucc by force
  show ?case
  proof (cases "told user pt u c")
    case True
    then obtain h1 where h1: "sendMessageBlock cc mb h = Some h1" "broadcast_loop user pt mb cs h1 = Some h'"
      using Cons.prems(2) ucc c by (auto simp: told_def split: option.splits if_splits)
    show ?thesis
      using Cons.IH [OF _ h1(2)] Cons.prems(1) ucc c nin True send_queue [OF h1(1), of x] by (auto simp: told_def)
  next
    case False
    then have "broadcast_loop user pt mb cs h = Some h'"
      using Cons.prems(2) ucc c by (auto simp: told_def)
    with False show ?thesis
      using Cons.IH [of h] Cons.prems(1) ucc c nin by (cases "x = cc") auto
  qed
qed

lemma clients_distinct_conns: "hub_inv h \<Longrightarrow> distinct (map snd (clients h))"
proof -
  assume h: "hub_inv h"
  then have d: "distinct (clients h)" by (simp add: hub_inv_def clients_live_def)
  have "inj_on snd (set (clients h))"
  proof (rule inj_onI)
    fix x y assume xy: "x \<in> set (clients h)" "y \<in> set (clients h)" "snd x = snd y"
    obtain u cc v where "x = (u, cc)" "y = (v, cc)" using xy(3) by (cases x; cases y) auto
    with xy client_live [OF h, of u cc] client_live [OF h, of v cc] show "x = y" by auto
  qed
  with d show ?thesis by (simp add: distinct_map)
qed

section \<open>Properties\<close>

text \<open>
  In every state the server reaches by accepting and closing connections, logging them
  in, also again as another user, subscribing and unsubscribing them and sending messages,
  the registry holds no connection that has been deleted: every broadcast and every event
  goes to live connections only, and closing a connection removes every reference to it.
\<close>

theorem no_deleted_connection_used:
  assumes "hub_reach h"
  shows "(\<exists>h'. broadcastEvent user pt mb h = Some h') \<and> (\<exists>h'. triggerEvent name mb h = Some h') \<and>
    (\<exists>h'. triggerGroupEvent name mb grp h = Some h') \<and> (\<exists>h'. sendMessage_to user mb h = Some h') \<and>
    (close_conn cc h = Some h1 \<longrightarrow> absent cc h1)"
proof -
  have h: "hub_inv h" using assms by (rule hub_reach_inv)
  have "live (map snd (filter (\<lambda>(u, cc). u = user) (clients h))) h"
    using clients_are_live [OF h] by (auto simp: live_def)
  then have "\<exists>h'. sendMessage_to user mb h = Some h'"
    using send_all_live by (fastforce simp: sendMessage_to_def)
  moreover have "\<exists>h'. broadcastEvent user pt mb h = Some h'"
    using broadcast_loop_live [OF clients_are_live [OF h], of user pt mb] by (auto simp: broadcastEvent_def)
  moreover have "\<exists>h'. triggerEvent name mb h = Some h'"
    using send_all_live [OF subscribers_are_live [OF h], of name _ mb]
    by (fastforce simp: triggerEvent_def split: option.split)
  moreover have "\<exists>h'. triggerGroupEvent name mb grp h = Some h'"
    using send_if_live [OF subscribers_are_live [OF h], of name _ "\<lambda>c. cn_group_id c = grp" mb]
    by (fastforce simp: triggerGroupEvent_def split: option.split)
  ultimately show ?thesis using close_inv [OF h] by blast
qed

text \<open>One connection, logged in as contestant 4 of group 1.\<close>

definition example_hub :: hub where
  "example_hub = the (login 9 4 3 1 (accept_conn 9 hub_new))"

lemma example_hub_reach: "hub_reach example_hub"
proof -
  have a: "hub_reach (accept_conn 9 hub_new)"
    by (rule hub_reach.step [OF hub_reach.start hub_step.accept]) (simp add: hub_new_def)
  have b: "login 9 4 3 1 (accept_conn 9 hub_new) = Some example_hub"
    by (simp add: example_hub_def login_def accept_conn_def hub_new_def connection_new_def registerClient_def
        update_conn_def)
  have nz: "(4 :: u32) \<noteq> 0" by simp
  show ?thesis by (rule hub_reach.step [OF a hub_step.login [OF nz b]])
qed

theorem no_deleted_connection_used_witness:
  "\<exists>h'. broadcastEvent 0 PT_ANY mb_ok example_hub = Some h'"
  using no_deleted_connection_used [OF example_hub_reach, of 0 PT_ANY mb_ok] by blast

text \<open>
  Claim C17. A broadcast puts its message exactly once into the queue of each logged-in connection
  that belongs to the user it names or whose permissions pass its test, and into no other
  queue.
\<close>

theorem broadcast_reaches_audience:
  assumes "hub_reach h" and "broadcastEvent user pt mb h = Some h'" and "smap_find (conns h) cc = Some c"
  shows "smap_find (conns h') cc = Some
    (if cn_user_id c \<noteq> 0 \<and> (cn_user_id c = user \<or> matches pt (cn_permissions c) = Some True)
     then c\<lparr>cn_queue := cn_queue c @ [getRaw mb]\<rparr> else c)"
proof -
  have h: "hub_inv h" using assms(1) by (rule hub_reach_inv)
  have "(\<exists>u. (u, cc) \<in> set (clients h) \<and> told user pt u c) \<longleftrightarrow>
      cn_user_id c \<noteq> 0 \<and> (cn_user_id c = user \<or> matches pt (cn_permissions c) = Some True)"
    using client_live [OF h, of _ cc] assms(3) hub_reach_complete [OF assms(1)]
    by (auto simp: told_def complete_def)
  with assms show ?thesis
    using broadcast_loop_queue [OF clients_distinct_conns [OF h], of user pt mb h h' cc]
    by (simp add: broadcastEvent_def)
qed

theorem broadcast_reaches_audience_witness:
  "\<exists>h' c. broadcastEvent 4 PT_NONE mb_ok example_hub = Some h' \<and> smap_find (conns h') 9 = Some c \<and>
     cn_queue c = [getRaw mb_ok]"
proof -
  have c: "smap_find (conns example_hub) 9 =
      Some \<lparr>cn_user_id = 4, cn_group_id = 1, cn_permissions = permissions_of 3, cn_queue = []\<rparr>"
    by (simp add: example_hub_def login_def accept_conn_def hub_new_def connection_new_def registerClient_def
        update_conn_def)
  obtain h' where h': "broadcastEvent 4 PT_NONE mb_ok example_hub = Some h'"
    using broadcast_loop_live [OF clients_are_live [OF hub_reach_inv [OF example_hub_reach]], of 4 PT_NONE mb_ok]
    by (auto simp: broadcastEvent_def)
  show ?thesis using broadcast_reaches_audience [OF example_hub_reach h' c] h' by simp
qed

end
