(* ===== verification/Server_Safe.thy ===== *)
theory Server_Safe
  imports Dispatch Events_Safe
begin

text \<open>
  No request, message or timer makes the server use a connection that it has deleted: an
  invariant over the registry of \<open>Events\<close> and the queues of \<open>Markers\<close> together, kept by every
  handler and every message class.
\<close>

section \<open>Invariant\<close>

text \<open>The connections the dispatcher of markers holds a pointer to.\<close>

definition pointed :: "markers_state \<Rightarrow> conn set" where
  "pointed m = set (markers m) \<union> {cc. smap_find (issued m) cc \<noteq> None}"

definition alive :: "server \<Rightarrow> conn set" where
  "alive s = {cc. smap_find (conns (sv_hub s)) cc \<noteq> None}"

definition server_inv :: "server \<Rightarrow> bool" where
  "server_inv s \<longleftrightarrow> hub_inv (sv_hub s) \<and> markers_inv (sv_markers s) \<and> pointed (sv_markers s) \<subseteq> alive s"

text \<open>A state that handlers reach from \<open>s0\<close>: the invariant holds and no connection was lost.\<close>

definition okay :: "server \<Rightarrow> server \<Rightarrow> bool" where
  "okay s0 s \<longleftrightarrow> server_inv s \<and> alive s0 \<subseteq> alive s"

definition safe :: "server \<Rightarrow> 'a run \<Rightarrow> bool" where
  "safe s0 r \<longleftrightarrow> (case r of Inl e \<Rightarrow> e \<noteq> Deleted_connection | Inr (x, s) \<Rightarrow> okay s0 s)"

lemma okay_refl: "server_inv s \<Longrightarrow> okay s s"
  by (simp add: okay_def)

lemma okay_alive: "okay s0 s \<Longrightarrow> cc \<in> alive s0 \<Longrightarrow> cc \<in> alive s"
  by (auto simp: okay_def)

lemma okay_trans: "okay s0 s1 \<Longrightarrow> okay s1 s2 \<Longrightarrow> okay s0 s2"
  by (auto simp: okay_def)

named_theorems safe_intro "rules that split a run into its steps"
named_theorems safe_frame "updates that no rule looks at"

lemma okay_frame [safe_frame]:
  "okay s0 (s\<lparr>sv_db := d\<rparr>) = okay s0 s"
  "okay s0 (s\<lparr>sv_id := i\<rparr>) = okay s0 s"
  "okay s0 (s\<lparr>sv_timer := t\<rparr>) = okay s0 s"
  "okay s0 (s\<lparr>sv_startstop := tab\<rparr>) = okay s0 s"
  "okay s0 (s\<lparr>sv_standings := st\<rparr>) = okay s0 s"
  "okay s0 (s\<lparr>sv_timed := ts\<rparr>) = okay s0 s"
  "okay s0 (s\<lparr>sv_acks := ids\<rparr>) = okay s0 s"
  "okay s0 (s\<lparr>sv_network := nw\<rparr>) = okay s0 s"
  "okay s0 (s\<lparr>sv_last_submission := i\<rparr>) = okay s0 s"
  "okay s0 (s\<lparr>sv_last_request := i\<rparr>) = okay s0 s"
  "okay s0 (s\<lparr>sv_last_clarification := i\<rparr>) = okay s0 s"
  "okay s0 (s\<lparr>sv_last_problem := i\<rparr>) = okay s0 s"
  "okay s0 (s\<lparr>sv_last_user := i\<rparr>) = okay s0 s"
  "okay s0 (s\<lparr>sv_last_group := i\<rparr>) = okay s0 s"
  "okay s0 (s\<lparr>sv_last_server := i\<rparr>) = okay s0 s"
  by (simp_all add: okay_def server_inv_def alive_def)

lemma okay_remember [safe_frame]: "okay s0 (remember_id s) = okay s0 s"
  by (simp add: remember_id_def safe_frame)

lemma safe_Inl [safe_intro]: "e \<noteq> Deleted_connection \<Longrightarrow> safe s0 (Inl e)"
  by (simp add: safe_def)

lemma safe_Inr [safe_intro]: "okay s0 s \<Longrightarrow> safe s0 (Inr (x, s))"
  by (simp add: safe_def)

lemma safe_Let [safe_intro]: "safe s0 (f v) \<Longrightarrow> safe s0 (Let v f)"
  by simp

lemma safe_if [safe_intro]:
  "(P \<Longrightarrow> safe s0 r) \<Longrightarrow> (\<not> P \<Longrightarrow> safe s0 r') \<Longrightarrow> safe s0 (if P then r else r')"
  by simp

lemma safe_prod [safe_intro]: "(\<And>a b. p = (a, b) \<Longrightarrow> safe s0 (f a b)) \<Longrightarrow> safe s0 (case p of (a, b) \<Rightarrow> f a b)"
  by (cases p) simp

lemma safe_option [safe_intro]:
  "(x = None \<Longrightarrow> safe s0 r) \<Longrightarrow> (\<And>y. x = Some y \<Longrightarrow> safe s0 (f y)) \<Longrightarrow>
   safe s0 (case x of None \<Rightarrow> r | Some y \<Rightarrow> f y)"
  by (cases x) simp_all

lemma safe_bind [safe_intro]:
  "safe s0 r \<Longrightarrow> (\<And>x s. okay s0 s \<Longrightarrow> safe s0 (f x s)) \<Longrightarrow> safe s0 (bind_run r f)"
  by (cases r) (auto simp: safe_def bind_run_def)

lemma safe_with_conn [safe_intro]:
  "okay s0 s \<Longrightarrow> cc \<in> alive s0 \<Longrightarrow> (\<And>c. safe s0 (f c)) \<Longrightarrow> safe s0 (with_conn cc s f)"
  using okay_alive [of s0 s cc] by (auto simp: with_conn_def alive_def)

section \<open>Sending\<close>

lemma same_alive: "same_hub h h' \<Longrightarrow> (smap_find (conns h') cc \<noteq> None) = (smap_find (conns h) cc \<noteq> None)"
  unfolding same_hub_def by (metis option.map_disc_iff)

lemma okay_hub:
  "okay s0 s \<Longrightarrow> same_hub (sv_hub s) h \<Longrightarrow> okay s0 (s\<lparr>sv_hub := h\<rparr>)"
  using same_alive [of "sv_hub s" h] hub_inv_same [of "sv_hub s" h]
  by (auto simp: okay_def server_inv_def alive_def)

lemma okay_hub_inv: "okay s0 s \<Longrightarrow> hub_inv (sv_hub s)"
  by (simp add: okay_def server_inv_def)

lemma safe_with_hub:
  assumes "okay s0 s" "\<exists>h. f (sv_hub s) = Some h \<and> same_hub (sv_hub s) h"
  shows "safe s0 (with_hub f s)"
  using assms okay_hub [OF assms(1)] by (auto simp: with_hub_def safe_def)

lemma sending_total:
  assumes "hub_inv h"
  shows "\<exists>h'. broadcastEvent user pt mb h = Some h' \<and> same_hub h h'"
    "\<exists>h'. triggerEvent name mb h = Some h' \<and> same_hub h h'"
    "\<exists>h'. triggerGroupEvent name mb grp h = Some h' \<and> same_hub h h'"
    "\<exists>h'. sendMessage_to user mb h = Some h' \<and> same_hub h h'"
proof -
  show "\<exists>h'. broadcastEvent user pt mb h = Some h' \<and> same_hub h h'"
    unfolding broadcastEvent_def by (rule broadcast_loop_live [OF clients_are_live [OF assms]])
  show "\<exists>h'. triggerEvent name mb h = Some h' \<and> same_hub h h'"
    using send_all_live [OF subscribers_are_live [OF assms, of name]]
    by (auto simp: triggerEvent_def split: option.split)
  show "\<exists>h'. triggerGroupEvent name mb grp h = Some h' \<and> same_hub h h'"
    using send_if_live [OF subscribers_are_live [OF assms, of name]]
    by (auto simp: triggerGroupEvent_def split: option.split)
  have "live (map snd (filter (\<lambda>(u, cc). u = user) (clients h))) h"
    using clients_are_live [OF assms] by (auto simp: live_def)
  then show "\<exists>h'. sendMessage_to user mb h = Some h' \<and> same_hub h h'"
    unfolding sendMessage_to_def by (rule send_all_live)
qed

lemma safe_sending [safe_intro]:
  assumes "okay s0 s"
  shows "safe s0 (broadcast user pt mb s)"
    "safe s0 (with_hub (triggerEvent name mb) s)"
    "safe s0 (with_hub (triggerGroupEvent name mb grp) s)"
    "safe s0 (with_hub (sendMessage_to user mb) s)"
  unfolding broadcast_def
  by (intro safe_with_hub [OF assms] sending_total okay_hub_inv [OF assms])+

lemma safe_send [safe_intro]:
  assumes "okay s0 s" "cc \<in> alive s0"
  shows "safe s0 (with_hub (sendMessageBlock cc mb) s)"
  using send_live [of "sv_hub s" cc mb] okay_alive [OF assms] send_same
  by (intro safe_with_hub [OF assms(1)]) (fastforce simp: alive_def)

lemma safe_broadcast_all [safe_intro]: "okay s0 s \<Longrightarrow> safe s0 (broadcast_all events s)"
  by (induction events s rule: broadcast_all.induct) (auto intro: safe_intro)

lemma safe_update_standings [safe_intro]: "okay s0 s \<Longrightarrow> safe s0 (update_standings uid s)"
  by (auto simp: update_standings_def safe_frame split: prod.split intro!: safe_intro)

section \<open>Markers\<close>

text \<open>All that the dispatcher holds and sends to is in \<open>A\<close>.\<close>

definition within :: "conn set \<Rightarrow> markers_state \<Rightarrow> bool" where
  "within A m \<longleftrightarrow> pointed m \<subseteq> A \<and> fst ` set (sent m) \<subseteq> A"

lemma issue_within: "markers_inv m \<Longrightarrow> within A m \<Longrightarrow> cc \<in> A \<Longrightarrow> within A (issue db now cc sd m)"
  by (auto simp: within_def pointed_def issue_def smap_find_put split: option.splits if_splits)

lemma real_enqueueSubmission_within:
  assumes "within A m"
  shows "within A (real_enqueueSubmission db now sd m)"
proof (cases "markers m")
  case (Cons cc rest)
  with assms show ?thesis
    by (auto simp: real_enqueueSubmission_def within_def pointed_def issue_def smap_find_put
        split: option.splits if_splits)
qed (use assms in \<open>auto simp: real_enqueueSubmission_def within_def pointed_def\<close>)

lemma real_enqueueMarker_within:
  "within A m \<Longrightarrow> cc \<in> A \<Longrightarrow> within A (real_enqueueMarker db now cc m)"
  by (auto simp: real_enqueueMarker_def within_def pointed_def issue_def smap_find_put
      split: list.splits option.splits if_splits)

lemma enqueueMarker_within: "within A m \<Longrightarrow> cc \<in> A \<Longrightarrow> within A (enqueueMarker db now cc m)"
  by (simp add: enqueueMarker_def real_enqueueMarker_within)

lemma erase_within:
  "markers_inv m \<Longrightarrow> within A m \<Longrightarrow> within A (m\<lparr>issued := smap_erase cc (issued m)\<rparr>)"
  by (auto simp: within_def pointed_def markers_inv_def smap_find_erase split: if_splits)

lemma notifyMarked_within:
  assumes "markers_inv m" "within A m" "cc \<in> A"
  shows "within A (notifyMarked db now cc sub m)"
proof (cases "smap_find (issued m) cc")
  case (Some sd)
  let ?m1 = "if sub \<noteq> sd then real_enqueueSubmission db now sd m else m"
  have "within A ?m1" "markers_inv ?m1"
    using assms real_enqueueSubmission_within [of A m db now sd] real_enqueueSubmission_inv [of m db now sd] by auto
  then have "within A (?m1\<lparr>issued := smap_erase cc (issued ?m1)\<rparr>)" by (intro erase_within)
  with Some assms show ?thesis by (simp add: notifyMarked_def Let_def real_enqueueMarker_within del: if_split)
qed (use assms in \<open>simp add: notifyMarked_def\<close>)

text \<open>After a preemption nothing is left of the connection.\<close>

lemma preemptMarker_within:
  assumes m: "markers_inv m" and w: "within A m" and s: "sent m = []"
  shows "within (A - {cc}) (preemptMarker db now cc m)"
proof -
  have d: "distinct (markers m)" and ok: "smap_ok (issued m)"
    and x: "cc \<in> set (markers m) \<Longrightarrow> smap_find (issued m) cc = None"
    using m by (auto simp: markers_inv_def)
  consider "cc \<in> set (markers m)" | "cc \<notin> set (markers m)" "smap_find (issued m) cc = None"
    | sd where "cc \<notin> set (markers m)" "smap_find (issued m) cc = Some sd" by fastforce
  then show ?thesis
  proof cases
    case 1
    with w x d s show ?thesis by (auto simp: preemptMarker_def within_def pointed_def)
  next
    case 2
    with w s show ?thesis by (auto simp: preemptMarker_def within_def pointed_def)
  next
    case 3
    with w s ok have "within (A - {cc}) (m\<lparr>issued := smap_erase cc (issued m)\<rparr>)"
      by (auto simp: within_def pointed_def smap_find_erase split: if_splits)
    with 3 show ?thesis by (simp add: preemptMarker_def real_enqueueSubmission_within)
  qed
qed

lemma within_mono: "within A m \<Longrightarrow> A \<subseteq> B \<Longrightarrow> within B m"
  by (auto simp: within_def)

lemma checkForTimeouts_within:
  "markers_inv m \<Longrightarrow> within A m \<Longrightarrow> within A (checkForTimeouts db now m)"
proof (induction db now m rule: checkForTimeouts.induct)
  case (1 db now m)
  have "within A (timeout_one db now e m)" for e
  proof -
    obtain t cc sd where e: "e = (t, cc, sd)" by (cases e)
    let ?m = "m\<lparr>issue_times := remove1 e (issue_times m)\<rparr>"
    have "within A ?m" "markers_inv ?m" using 1(2,3) by (simp_all add: within_def pointed_def markers_inv_def)
    then show ?thesis
      using erase_within [of ?m A cc] by (simp add: timeout_one_def e Let_def real_enqueueSubmission_within)
  qed
  with 1 show ?case by (subst checkForTimeouts.simps) (auto simp: timeout_one_inv)
qed

lemma send_each_live:
  "fst ` set l \<subseteq> {cc. smap_find (conns h) cc \<noteq> None} \<Longrightarrow> \<exists>h'. send_each l h = Some h' \<and> same_hub h h'"
proof (induction l arbitrary: h)
  case (Cons x l)
  obtain cc mb where x: "x = (cc, mb)" by (cases x)
  with Cons.prems obtain h1 where h1: "sendMessageBlock cc mb h = Some h1" using send_live [of h cc mb] by auto
  note s = send_same [OF h1]
  have "fst ` set l \<subseteq> {cc. smap_find (conns h1) cc \<noteq> None}"
    using Cons.prems same_alive [OF s] by auto
  from Cons.IH [OF this] obtain h2 where "send_each l h1 = Some h2" "same_hub h1 h2" by blast
  with h1 x s show ?case by (auto intro: same_hub_trans)
qed simp

lemma with_markers_run:
  assumes ok: "okay s0 s"
    and f: "\<And>db now m. markers_inv m \<Longrightarrow> within (alive s) m \<Longrightarrow> sent m = [] \<Longrightarrow>
      markers_inv (f db now m) \<and> within A (f db now m)" and A: "A \<subseteq> alive s"
  shows "\<exists>s'. with_markers f s = Inr ((), s') \<and> okay s0 s' \<and> pointed (sv_markers s') \<subseteq> A \<and>
    same_hub (sv_hub s) (sv_hub s') \<and> alive s' = alive s"
proof -
  let ?fresh = "(sv_markers s)\<lparr>sent := []\<rparr>"
  let ?m = "f (submissions_db s) (sv_now s) ?fresh"
  have "markers_inv ?fresh" "within (alive s) ?fresh"
    using ok by (auto simp: okay_def server_inv_def within_def pointed_def markers_inv_def)
  moreover have "sent ?fresh = []" by simp
  ultimately have m: "markers_inv ?m" "within A ?m" using f by blast+
  then have "fst ` set (sent ?m) \<subseteq> {cc. smap_find (conns (sv_hub s)) cc \<noteq> None}"
    using A by (auto simp: within_def alive_def)
  from send_each_live [OF this] obtain h where h: "send_each (sent ?m) (sv_hub s) = Some h" "same_hub (sv_hub s) h" by blast
  let ?s = "s\<lparr>sv_markers := ?m, sv_hub := h\<rparr>"
  have "with_markers f s = Inr ((), ?s)" using h by (simp add: with_markers_def with_hub_def Let_def)
  moreover have "alive ?s = alive s" using same_alive [OF h(2)] by (auto simp: alive_def)
  moreover from this have "okay s0 ?s"
    using ok m A hub_inv_same [OF h(2)] by (auto simp: okay_def server_inv_def within_def)
  ultimately show ?thesis using m h by (auto simp: within_def)
qed

lemma safe_with_markers:
  assumes "okay s0 s"
    and "\<And>db now m. markers_inv m \<Longrightarrow> within (alive s) m \<Longrightarrow> sent m = [] \<Longrightarrow>
      markers_inv (f db now m) \<and> within (alive s) (f db now m)"
  shows "safe s0 (with_markers f s)"
proof -
  obtain s' where "with_markers f s = Inr ((), s')" "okay s0 s'"
    using with_markers_run [OF assms(1) _ subset_refl, of f] assms(2) by blast
  then show ?thesis by (simp add: safe_def)
qed

lemma safe_markers [safe_intro]:
  assumes "okay s0 s"
  shows "cc \<in> alive s0 \<Longrightarrow> safe s0 (with_markers (\<lambda>db now. enqueueMarker db now cc) s)"
    "safe s0 (with_markers (\<lambda>db now. preemptMarker db now cc) s)"
    "safe s0 (with_markers (\<lambda>db now. enqueueSubmission db now sub) s)"
    "cc \<in> alive s0 \<Longrightarrow> safe s0 (with_markers (\<lambda>db now. notifyMarked db now cc sub) s)"
    "safe s0 (with_markers checkForTimeouts s)"
  using okay_alive [OF assms]
  by (auto intro!: safe_with_markers [OF assms] simp: enqueueSubmission_def enqueueMarker_inv enqueueMarker_within
      preemptMarker_inv real_enqueueSubmission_inv real_enqueueSubmission_within notifyMarked_inv notifyMarked_within
      checkForTimeouts_inv checkForTimeouts_within intro: within_mono [OF preemptMarker_within])

section \<open>Messages\<close>

lemma db_try_okay: "db_try f s = (b, s1) \<Longrightarrow> okay s0 s \<Longrightarrow> okay s0 s1"
  by (auto simp: db_try_def safe_frame split: option.splits)

lemma putAck_okay [safe_frame]: "okay s0 (putAck server message i s) = okay s0 s"
  by (simp add: putAck_def Let_def safe_frame)

lemma put_ends_okay [safe_frame]: "okay s0 (put_ends grp now gs seen s) = okay s0 s"
  by (induction gs arbitrary: seen s) (auto simp: Let_def putTimedAction_def safe_frame)

lemma safe_perform_groups [safe_intro]: "okay s0 s \<Longrightarrow> safe s0 (perform_groups tm gs s)"
  by (induction gs arbitrary: s) (auto simp: safe_frame split: prod.split intro!: safe_intro)

lemma safe_StartStopAction [safe_intro]: "okay s0 s \<Longrightarrow> safe s0 (StartStopAction_perform tm s)"
  by (simp add: StartStopAction_perform_def safe_perform_groups)

lemma safe_announce [safe_intro]: "okay s0 s \<Longrightarrow> safe s0 (announce_submission user a s)"
  by (auto simp: announce_submission_def split: option.split intro: safe_intro)

lemma safe_process_createserver: "okay s0 s \<Longrightarrow> safe s0 (process_createserver m s)"
  by (auto simp: process_createserver_def Let_def safe_frame split: option.split intro!: safe_intro)

lemma safe_process_createuser: "okay s0 s \<Longrightarrow> safe s0 (process_createuser m s)"
  by (auto simp: process_createuser_def Let_def split: prod.split dest: db_try_okay intro!: safe_intro)

lemma safe_process_creategroup: "okay s0 s \<Longrightarrow> safe s0 (process_creategroup m s)"
  by (auto simp: process_creategroup_def Let_def safe_frame split: prod.split dest: db_try_okay intro!: safe_intro)

lemma safe_process_submission: "okay s0 s \<Longrightarrow> safe s0 (process_submission m s)"
  by (auto simp: process_submission_def Let_def safe_frame split: option.split intro!: safe_intro)

lemma safe_process_mark: "okay s0 s \<Longrightarrow> safe s0 (process_mark m s)"
  by (auto simp: process_mark_def Let_def safe_frame split: option.split intro!: safe_intro)

lemma safe_process_clarification: "okay s0 s \<Longrightarrow> safe s0 (process_clarification m s)"
  by (auto simp: process_clarification_def Let_def safe_frame split: option.split intro!: safe_intro)

lemma safe_process_startstop: "okay s0 s \<Longrightarrow> safe s0 (process_startstop m s)"
  by (auto simp: process_startstop_def Let_def putTimedAction_def safe_frame split: prod.split intro!: safe_intro)

lemma safe_process_others:
  assumes "okay s0 s"
  shows "safe s0 (process_passwd p s)" "safe s0 (process_bonus b s)" "safe s0 (process_prob q s)"
  using assms
  by (auto simp: process_passwd_def process_bonus_def process_prob_def Let_def safe_frame
      split: option.split prod.split intro!: safe_intro)

lemma safe_int_process [safe_intro]: "okay s0 s \<Longrightarrow> safe s0 (int_process m s)"
  by (cases m) (simp_all add: safe_process_createserver safe_process_createuser safe_process_creategroup
      safe_process_submission safe_process_mark safe_process_clarification safe_process_startstop safe_process_others)

lemma safe_Message_process [safe_intro]: "okay s0 s \<Longrightarrow> safe s0 (Message_process server i m s)"
  by (auto simp: Message_process_def safe_frame intro!: safe_intro)

lemma safe_triggerMessage [safe_intro]: "okay s0 s \<Longrightarrow> safe s0 (triggerMessage m reply s)"
proof -
  assume "okay s0 s"
  then have "safe s0 (makeMessage m s)"
    by (auto simp: makeMessage_def Let_def safe_frame split: option.split intro!: safe_intro)
  then show ?thesis
    by (auto simp: triggerMessage_def split: option.split intro!: safe_intro)
qed

section \<open>Requests\<close>

lemma safe_account_actions:
  assumes "okay s0 s" "cc \<in> alive s0"
  shows "safe s0 (ActPasswd hash cc mb s)" "safe s0 (ActIdPasswd hash cc mb s)" "safe s0 (ActAddUser hash cc mb s)"
    "safe s0 (ActAddGroup cc mb s)" "safe s0 (ActAddServer cc mb s)" "safe s0 (ActSetbonus cc mb s)"
    "safe s0 (ActStartStop cc mb s)"
  unfolding ActPasswd_def ActIdPasswd_def ActAddUser_def ActAddGroup_def ActAddServer_def ActSetbonus_def
      ActStartStop_def
  using assms by (intro safe_intro; simp add: safe_frame)+

lemma safe_legality [safe_intro]:
  "safe s0 r \<Longrightarrow> (\<And>msg. safe s0 (f msg)) \<Longrightarrow> safe s0 r' \<Longrightarrow>
   safe s0 (case x of Legal \<Rightarrow> r | Illegal msg \<Rightarrow> f msg | No_database \<Rightarrow> r')"
  by (cases x) simp_all

lemma safe_contest_actions:
  assumes "okay s0 s" "cc \<in> alive s0"
  shows "safe s0 (ActClarificationRequest cc mb s)" "safe s0 (ActClarification cc mb s)" "safe s0 (ActSubmit cc mb s)"
    "safe s0 (ActSubscribeMark cc mb s)" "safe s0 (ActPlaceMark cc mb s)"
  unfolding ActClarificationRequest_def ActClarification_def ActSubmit_def ActSubscribeMark_def ActPlaceMark_def
  using assms by (intro safe_intro; simp add: safe_frame)+

text \<open>The faults of the parser of problem attributes are its own.\<close>

lemma attr_turn_fault: "attr_turn mb prob desc stack m = (Attr_fault e, rest, stack') \<Longrightarrow> e \<noteq> Deleted_connection"
  by (auto simp: attr_turn_def terminal_def file_attr_def int_attr_def Let_def
      split: option.splits if_splits list.splits prod.splits attr_result.splits)

lemma attr_loop_fault: "attr_loop mb prob desc stack m = Attr_fault e \<Longrightarrow> e \<noteq> Deleted_connection"
proof (induction mb prob desc stack m rule: attr_loop.induct)
  case (1 mb prob desc stack m)
  show ?case
  proof (cases "desc = []")
    case False
    obtain r rest stack' where t: "attr_turn mb prob desc stack m = (r, rest, stack')"
      by (cases "attr_turn mb prob desc stack m")
    with False 1 show ?thesis
      by (subst (asm) (2) attr_loop.simps) (auto split: attr_result.splits dest: attr_turn_fault)
  qed (use 1(2) in \<open>simp add: attr_loop.simps\<close>)
qed

lemma safe_attr_result:
  "(\<And>m. x = Attr_ok m \<Longrightarrow> safe s0 (f m)) \<Longrightarrow> (\<And>msg. safe s0 (g msg)) \<Longrightarrow>
   (\<And>e. x = Attr_fault e \<Longrightarrow> safe s0 (k e)) \<Longrightarrow>
   safe s0 (case x of Attr_ok m \<Rightarrow> f m | Attr_error msg \<Rightarrow> g msg | Attr_fault e \<Rightarrow> k e)"
  by (cases x) simp_all

lemma safe_ActSetProbAttrs: "okay s0 s \<Longrightarrow> safe s0 (ActSetProbAttrs cc mb s)"
  unfolding ActSetProbAttrs_def by (intro safe_intro safe_attr_result; auto simp: safe_frame dest: attr_loop_fault)

lemma safe_connection_queries:
  assumes "okay s0 s" "cc \<in> alive s0"
  shows "safe s0 (ActWhatAmI cc mb s)" "safe s0 (ActContesttime cc mb s)" "safe s0 (ActRunning cc mb s)"
    "safe s0 (ActStandings cc mb s)" "safe s0 (ActGetProblems cc mb s)" "safe s0 (ActGetSubmissions cc mb s)"
    "safe s0 (ActGetSubmissionsForUser cc mb s)" "safe s0 (ActGetClarifications cc mb s)"
    "safe s0 (ActGetClarificationRequests cc mb s)" "safe s0 (ActSubmissionFileFetcher cc mb s)"
    "safe s0 (ActGetSubmissionSource cc mb s)"
  unfolding ActWhatAmI_def ActContesttime_def ActRunning_def ActStandings_def ActGetProblems_def ActGetSubmissions_def
      ActGetSubmissionsForUser_def ActGetClarifications_def ActGetClarificationRequests_def
      ActSubmissionFileFetcher_def ActGetSubmissionSource_def answer_submissions_def
  using assms by (intro safe_intro; simp add: safe_frame)+

lemma safe_other_queries:
  assumes "okay s0 s"
  shows "safe s0 (ServerListAct cc mb s)" "safe s0 (ActGetGroups cc mb s)" "safe s0 (ActGetUsers cc mb s)"
    "safe s0 (ActGetbonus cc mb s)" "safe s0 (ActGetLanguages cc mb s)" "safe s0 (ActGetProbAttrs cc mb s)"
    "safe s0 (ActGetProblemFile cc mb s)" "safe s0 (ActGetProbTypes cc mb s)" "safe s0 (ActGetProbDescript cc mb s)"
  unfolding ServerListAct_def ActGetGroups_def ActGetUsers_def ActGetbonus_def ActGetLanguages_def
      ActGetProbAttrs_def ActGetProblemFile_def ActGetProbTypes_def ActGetProbDescript_def
  using assms by (intro safe_intro; simp add: safe_frame)+

lemma safe_TCPTransmitAction: "okay s0 s \<Longrightarrow> safe s0 (TCPTransmitAction cc mb s)"
  unfolding TCPTransmitAction_def
  by (intro safe_intro; simp add: safe_def split: build_result.split)

text \<open>The registry without a change to the connections.\<close>

lemma okay_conns: "okay s0 s \<Longrightarrow> hub_inv h \<Longrightarrow> conns h = conns (sv_hub s) \<Longrightarrow> okay s0 (s\<lparr>sv_hub := h\<rparr>)"
  by (simp add: okay_def server_inv_def alive_def)

lemma event_ops_total:
  assumes "smap_find (conns h) cc \<noteq> None"
  shows "\<exists>ok h'. registerClient_event name cc h = Some (ok, h')" "\<exists>ok h'. deregisterClient_event name cc h = Some (ok, h')"
  using assms by (auto simp: registerClient_event_def deregisterClient_event_def split: option.split prod.split)

lemma register_okay:
  assumes "okay s0 s" "cc \<in> alive s0"
  shows "\<exists>ok h. registerClient_event name cc (sv_hub s) = Some (ok, h) \<and> okay s0 (s\<lparr>sv_hub := h\<rparr>)"
    "\<exists>ok h. deregisterClient_event name cc (sv_hub s) = Some (ok, h) \<and> okay s0 (s\<lparr>sv_hub := h\<rparr>)"
proof -
  have cc: "smap_find (conns (sv_hub s)) cc \<noteq> None" using okay_alive [OF assms] by (simp add: alive_def)
  note inv = okay_hub_inv [OF assms(1)]
  from event_ops_total(1) [OF cc] obtain ok h where h: "registerClient_event name cc (sv_hub s) = Some (ok, h)" by blast
  with okay_conns [OF assms(1) registerClient_event_inv [OF inv h]] event_ops_fields(1) [OF h]
  show "\<exists>ok h. registerClient_event name cc (sv_hub s) = Some (ok, h) \<and> okay s0 (s\<lparr>sv_hub := h\<rparr>)" by simp
  from event_ops_total(2) [OF cc] obtain ok h where h: "deregisterClient_event name cc (sv_hub s) = Some (ok, h)" by blast
  with okay_conns [OF assms(1) deregisterClient_event_inv [OF inv h]] event_ops_fields(2) [OF h]
  show "\<exists>ok h. deregisterClient_event name cc (sv_hub s) = Some (ok, h) \<and> okay s0 (s\<lparr>sv_hub := h\<rparr>)" by simp
qed

lemma safe_ActEvents: "okay s0 s \<Longrightarrow> cc \<in> alive s0 \<Longrightarrow> safe s0 (ActEvents cc mb s)"
  using register_okay [of s0 s cc "mb_get mb ''event''"]
  by (auto simp: ActEvents_def Act_ClientEventRegistry_def Let_def safe_def)

lemma safe_ActSubscribeTime:
  assumes s: "okay s0 s" and cc: "cc \<in> alive s0"
  shows "safe s0 (ActSubscribeTime cc mb s)"
proof -
  obtain ok h where h: "registerClient_event ''startstop'' cc (sv_hub s) = Some (ok, h)" "okay s0 (s\<lparr>sv_hub := h\<rparr>)"
    using register_okay(1) [OF s cc] by blast
  obtain ok2 h2 where "registerClient_event ''updateclock'' cc h = Some (ok2, h2)" "okay s0 (s\<lparr>sv_hub := h2\<rparr>)"
    using register_okay(1) [OF h(2) cc, of "''updateclock''"] by auto
  with h show ?thesis by (simp add: ActSubscribeTime_def Let_def safe_def)
qed

section \<open>Logging in and leaving\<close>

text \<open>
  The number of a user is never zero: the registry takes a connection with user zero for one
  that is not logged in.
\<close>

definition users_numbered :: "server \<Rightarrow> bool" where
  "users_numbered s \<longleftrightarrow> list_all (\<lambda>(i, r). i \<noteq> 0) (t_User (sv_db s))"

lemma authenticate_user:
  "users_numbered s \<Longrightarrow> con s = Some d \<Longrightarrow> authenticate hash name pw d = Some (user, ty, grp) \<Longrightarrow> user \<noteq> 0"
proof -
  assume u: "users_numbered s" and d: "con s = Some d" and a: "authenticate hash name pw d = Some (user, ty, grp)"
  from a obtain r rest where
    "filter (\<lambda>(i, r). u_username r = name \<and> u_password r = hash name pw) (t_User d) = (user, r) # rest"
    by (auto simp: authenticate_def split: list.splits)
  from arg_cong [OF this, of set] have "(user, r) \<in> set (t_User d)" by auto
  with u d show ?thesis by (auto simp: users_numbered_def con_def list_all_iff split: if_splits)
qed

lemma deregister_total: "smap_find (conns h) cc \<noteq> None \<Longrightarrow> \<exists>h'. deregisterClient cc h = Some h'"
  by (auto simp: deregisterClient_def)

lemma absent_same: "same_hub h h' \<Longrightarrow> absent cc h \<Longrightarrow> absent cc h'"
  by (simp add: same_hub_def absent_def)

text \<open>What both the destructor and a second login begin with.\<close>

lemma leave_run:
  assumes s: "okay s0 s" and cc: "cc \<in> alive s"
  shows "\<exists>s'. bind_run (with_hub (deregisterClient cc) s) (\<lambda>_. with_markers (\<lambda>db now. preemptMarker db now cc)) = Inr ((), s') \<and>
    okay s0 s' \<and> absent cc (sv_hub s') \<and> alive s' = alive s \<and> pointed (sv_markers s') \<subseteq> alive s - {cc}"
proof -
  obtain h where h: "deregisterClient cc (sv_hub s) = Some h" using deregister_total cc by (fastforce simp: alive_def)
  note d = deregister_inv [OF okay_hub_inv [OF s] h]
  let ?s = "s\<lparr>sv_hub := h\<rparr>"
  have ok: "okay s0 ?s" using d okay_conns [OF s] by simp
  have al: "alive ?s = alive s" using d by (simp add: alive_def)
  have "\<exists>s'. with_markers (\<lambda>db now. preemptMarker db now cc) ?s = Inr ((), s') \<and> okay s0 s' \<and>
    pointed (sv_markers s') \<subseteq> alive s - {cc} \<and> same_hub (sv_hub ?s) (sv_hub s') \<and> alive s' = alive ?s"
    by (rule with_markers_run [OF ok]) (auto simp: al preemptMarker_inv preemptMarker_within)
  then obtain s' where s': "with_markers (\<lambda>db now. preemptMarker db now cc) ?s = Inr ((), s')" "okay s0 s'"
    "pointed (sv_markers s') \<subseteq> alive s - {cc}" "same_hub h (sv_hub s')" "alive s' = alive s" by (auto simp: al)
  have "absent cc (sv_hub s')" using absent_same [OF s'(4)] d by simp
  with s' h show ?thesis by (simp add: with_hub_def)
qed

lemma join_run:
  assumes s: "okay s0 s" and a: "absent cc (sv_hub s)" and cc: "cc \<in> alive s" and u: "user \<noteq> 0"
  shows "safe s0 (with_hub (\<lambda>h. registerClient cc (update_conn cc (\<lambda>c. c\<lparr>cn_user_id := user,
    cn_group_id := grp, cn_permissions := permissions_of ty\<rparr>) h)) s)"
proof -
  obtain c where c: "smap_find (conns (sv_hub s)) cc = Some c" using cc by (auto simp: alive_def)
  let ?c = "c\<lparr>cn_user_id := user, cn_group_id := grp, cn_permissions := permissions_of ty\<rparr>"
  let ?h = "(sv_hub s)\<lparr>conns := smap_put cc ?c (conns (sv_hub s))\<rparr>"
  note inv = okay_hub_inv [OF s]
  have h: "hub_inv ?h"
    using u hub_inv_ok [OF inv] by (intro hub_inv_conns [OF inv a]) (auto simp: smap_find_put smap_ok_put)
  have a': "absent cc ?h" using a by (simp add: absent_def)
  have r: "registerClient cc ?h = Some (?h\<lparr>clients := multimap_insert user cc (clients ?h)\<rparr>)"
    by (simp add: registerClient_def smap_find_put)
  let ?g = "?h\<lparr>clients := multimap_insert user cc (clients ?h)\<rparr>"
  have "hub_inv ?g" by (rule registerClient_inv [OF h a' r]) (use u in \<open>auto simp: smap_find_put\<close>)
  moreover have "alive (s\<lparr>sv_hub := ?g\<rparr>) = alive s" using cc by (auto simp: alive_def smap_find_put)
  ultimately have "okay s0 (s\<lparr>sv_hub := ?g\<rparr>)" using s by (auto simp: okay_def server_inv_def)
  with r c show ?thesis by (simp add: with_hub_def update_conn_def safe_def)
qed

lemma safe_ActAuth:
  assumes s: "okay s0 s" and cc: "cc \<in> alive s0" and u: "users_numbered s"
  shows "safe s0 (ActAuth hash cc mb s)"
proof -
  have cc': "cc \<in> alive s" using okay_alive [OF s cc] .
  have "safe s0 (bind_run (if cn_user_id c \<noteq> 0
        then bind_run (with_hub (deregisterClient cc) s) (\<lambda>_. with_markers (\<lambda>sdb now. preemptMarker sdb now cc))
        else Inr ((), s)) (\<lambda>_ s1.
      bind_run (with_hub (\<lambda>h. registerClient cc (update_conn cc (\<lambda>c. c\<lparr>cn_user_id := user,
        cn_group_id := grp, cn_permissions := permissions_of (unat ty)\<rparr>) h)) s1) (\<lambda>_ s2. Inr (reply, s2))))"
    if c: "smap_find (conns (sv_hub s)) cc = Some c" and nz: "user \<noteq> 0" for c user grp ty reply
  proof (cases "cn_user_id c = 0")
    case True
    from anonymous_absent [OF okay_hub_inv [OF s] c this]
    have "safe s0 (with_hub (\<lambda>h. registerClient cc (update_conn cc (\<lambda>c. c\<lparr>cn_user_id := user,
        cn_group_id := grp, cn_permissions := permissions_of (unat ty)\<rparr>) h)) s)"
      by (rule join_run [OF s _ cc' nz])
    with True show ?thesis by (auto intro: safe_bind safe_Inr)
  next
    case False
    obtain s1 where s1: "bind_run (with_hub (deregisterClient cc) s) (\<lambda>_. with_markers (\<lambda>db now. preemptMarker db now cc)) = Inr ((), s1)"
      "okay s0 s1" "absent cc (sv_hub s1)" "alive s1 = alive s" using leave_run [OF s cc'] by blast
    have "safe s0 (with_hub (\<lambda>h. registerClient cc (update_conn cc (\<lambda>c. c\<lparr>cn_user_id := user,
        cn_group_id := grp, cn_permissions := permissions_of (unat ty)\<rparr>) h)) s1)"
      using s1 cc' by (intro join_run [OF s1(2,3) _ nz]) simp
    with False s1(1) show ?thesis by (auto intro: safe_bind safe_Inr)
  qed
  note run = this
  obtain c where c: "smap_find (conns (sv_hub s)) cc = Some c" using cc' by (auto simp: alive_def)
  show ?thesis
  proof (cases "con s")
    case None
    with s show ?thesis by (simp add: ActAuth_def safe_def)
  next
    case (Some d)
    show ?thesis
    proof (cases "authenticate hash (mb_get mb ''user'') (mb_get mb ''pass'') d")
      case None
      with s Some show ?thesis by (simp add: ActAuth_def safe_def)
    next
      case (Some r)
      obtain user ty grp where r: "r = (user, ty, grp)" by (cases r)
      with authenticate_user [OF u \<open>con s = Some d\<close>] Some have "user \<noteq> 0" by simp
      from run [OF c this] show ?thesis
        by (simp only: ActAuth_def with_conn_def \<open>con s = Some d\<close> Some r c option.case prod.case)
    qed
  qed
qed

section \<open>The server\<close>

lemmas safe_actions = safe_account_actions safe_contest_actions safe_ActSetProbAttrs safe_connection_queries
  safe_other_queries safe_TCPTransmitAction safe_ActEvents safe_ActSubscribeTime safe_ActAuth

lemma safe_action:
  assumes "okay s0 s" "cc \<in> alive s0" "users_numbered s" "map_of (actionmap hash) name = Some (pt, act)"
  shows "safe s0 (act cc mb s)"
proof -
  have "list_all (\<lambda>(name, pt, act). safe s0 (act cc mb s)) (actionmap hash)"
    by (simp add: actionmap_def safe_actions assms(1-3))
  then show ?thesis using map_of_SomeD [OF assms(4)] by (auto simp: list_all_iff)
qed

lemma safe_ClientAction_process:
  assumes s: "server_inv s" and u: "users_numbered s" and cc: "cc \<in> alive s"
  shows "safe s (ClientAction_process hash cc mb s)"
proof -
  have ok: "okay s (remember_id s)" using okay_refl [OF s] by (simp add: safe_frame)
  have u': "users_numbered (remember_id s)" using u by (simp add: users_numbered_def remember_id_def)
  show ?thesis
    unfolding ClientAction_process_def answer_def
    by (intro safe_intro; (rule safe_action [OF ok cc u'])?; simp add: ok cc)
qed

lemma client_close_run:
  assumes s: "server_inv s" and cc: "cc \<in> alive s"
  shows "\<exists>s'. client_close cc s = Inr ((), s') \<and> server_inv s' \<and> alive s' = alive s - {cc}"
proof -
  obtain s1 where s1: "bind_run (with_hub (deregisterClient cc) s) (\<lambda>_. with_markers (\<lambda>db now. preemptMarker db now cc)) = Inr ((), s1)"
    "okay s s1" "absent cc (sv_hub s1)" "alive s1 = alive s" "pointed (sv_markers s1) \<subseteq> alive s - {cc}"
    using leave_run [OF okay_refl [OF s] cc] by blast
  let ?h = "(sv_hub s1)\<lparr>conns := smap_erase cc (conns (sv_hub s1))\<rparr>"
  note inv = okay_hub_inv [OF s1(2)]
  have ok: "smap_ok (conns (sv_hub s1))" using hub_inv_ok [OF inv] .
  have "hub_inv ?h" using ok by (intro hub_inv_conns [OF inv s1(3)]) (auto simp: sm.find_erase smap_ok_erase)
  moreover have al: "alive (s1\<lparr>sv_hub := ?h\<rparr>) = alive s - {cc}"
    using ok s1(4) by (auto simp: alive_def sm.find_erase)
  ultimately have "server_inv (s1\<lparr>sv_hub := ?h\<rparr>)" using s1(2,5) by (simp add: server_inv_def okay_def)
  moreover have "client_close cc s = Inr ((), s1\<lparr>sv_hub := ?h\<rparr>)"
    using s1(1) by (auto simp: client_close_def bind_run_def split: sum.splits)
  ultimately show ?thesis using al by blast
qed

lemma client_accept_inv: "server_inv s \<Longrightarrow> cc \<notin> alive s \<Longrightarrow> server_inv (client_accept cc s)"
  using accept_inv [of "sv_hub s" cc]
  by (auto simp: server_inv_def client_accept_def alive_def accept_conn_def smap_find_put)

text \<open>
  The steps of the server, each run to its end by one thread: a client comes, asks or goes, a
  message is processed, a timed action is due, jobs of markers are taken back, and anything
  that touches neither connections nor markers, such as time and the network.
\<close>

inductive server_step :: "(string \<Rightarrow> string \<Rightarrow> string) \<Rightarrow> server \<Rightarrow> server \<Rightarrow> bool" for hash where
  accept: "cc \<notin> alive s \<Longrightarrow> server_step hash s (client_accept cc s)"
| close: "cc \<in> alive s \<Longrightarrow> client_close cc s = Inr ((), s') \<Longrightarrow> server_step hash s s'"
| request: "cc \<in> alive s \<Longrightarrow> ClientAction_process hash cc mb s = Inr ((), s') \<Longrightarrow> server_step hash s s'"
| message: "Message_process server i m s = Inr (status, s') \<Longrightarrow> server_step hash s s'"
| timed: "StartStopAction_perform tm s = Inr ((), s') \<Longrightarrow> server_step hash s s'"
| timeouts: "with_markers checkForTimeouts s = Inr ((), s') \<Longrightarrow> server_step hash s s'"
| other: "sv_hub s' = sv_hub s \<Longrightarrow> sv_markers s' = sv_markers s \<Longrightarrow> server_step hash s s'"

inductive server_reach :: "(string \<Rightarrow> string \<Rightarrow> string) \<Rightarrow> server \<Rightarrow> bool" for hash where
  start: "sv_hub s = fold (\<lambda>(name, pt). registerEvent name pt) server_events hub_new \<Longrightarrow>
    sv_markers s = markers_new limit \<Longrightarrow> users_numbered s \<Longrightarrow> server_reach hash s"
| step: "server_reach hash s \<Longrightarrow> server_step hash s s' \<Longrightarrow> users_numbered s' \<Longrightarrow> server_reach hash s'"

lemma safe_inv: "safe s0 (Inr (x, s)) \<Longrightarrow> server_inv s"
  by (simp add: safe_def okay_def)

lemma server_step_inv: "server_step hash s s' \<Longrightarrow> users_numbered s \<Longrightarrow> server_inv s \<Longrightarrow> server_inv s'"
proof (induction rule: server_step.induct)
  case (accept cc s)
  then show ?case by (simp add: client_accept_inv)
next
  case (close cc s s')
  then show ?case using client_close_run [of s cc] by auto
next
  case (request cc s mb s')
  then show ?case using safe_ClientAction_process [of s cc hash mb] safe_inv by metis
next
  case (message server i m s status s')
  then show ?case using safe_Message_process [OF okay_refl, of s server i m] safe_inv by metis
next
  case (timed tm s s')
  then show ?case using safe_StartStopAction [OF okay_refl, of s tm] safe_inv by metis
next
  case (timeouts s s')
  then show ?case using safe_markers(5) [OF okay_refl, of s] safe_inv by metis
next
  case (other s' s)
  then show ?case by (simp add: server_inv_def alive_def)
qed

lemma events_fold_inv:
  "hub_inv h \<Longrightarrow> set evs \<subseteq> set server_events \<Longrightarrow> hub_inv (fold (\<lambda>(name, pt). registerEvent name pt) evs h)"
  by (induction evs arbitrary: h) (auto simp: registerEvent_inv)

lemma server_reach_inv: "server_reach hash s \<Longrightarrow> server_inv s \<and> users_numbered s"
proof (induction rule: server_reach.induct)
  case (start s limit)
  have "hub_inv (sv_hub s)"
    unfolding start(1) by (rule events_fold_inv [OF hub_reach_inv [OF hub_reach.start]]) simp
  with start show ?case by (simp add: server_inv_def markers_inv_def pointed_def markers_new_def)
next
  case (step s s')
  then show ?case by (blast intro: server_step_inv)
qed

text \<open>
  Claim C3. In every state the server can reach, no request of a client that is connected, no
  message, no timed action, no check for lost markers and no disconnection uses a connection
  that has been deleted, whatever the request or the message holds, and a disconnection always
  succeeds. The hypothesis built into reachability is that no user has the number zero.
\<close>

theorem server_never_uses_deleted_connection:
  assumes "server_reach hash s"
  shows "Message_process server i m s \<noteq> Inl Deleted_connection \<and>
    StartStopAction_perform tm s \<noteq> Inl Deleted_connection \<and>
    with_markers checkForTimeouts s \<noteq> Inl Deleted_connection \<and>
    (cc \<in> alive s \<longrightarrow> ClientAction_process hash cc mb s \<noteq> Inl Deleted_connection \<and>
       (\<exists>s'. client_close cc s = Inr ((), s') \<and> cc \<notin> alive s'))"
proof -
  have inv: "server_inv s" and u: "users_numbered s" using server_reach_inv [OF assms] by simp_all
  note ok = okay_refl [OF inv]
  have "Message_process server i m s \<noteq> Inl Deleted_connection"
    using safe_Message_process [OF ok, of server i m] by (auto simp: safe_def)
  moreover have "StartStopAction_perform tm s \<noteq> Inl Deleted_connection"
    using safe_StartStopAction [OF ok, of tm] by (auto simp: safe_def)
  moreover have "with_markers checkForTimeouts s \<noteq> Inl Deleted_connection"
    using safe_markers(5) [OF ok] by (auto simp: safe_def)
  moreover have "ClientAction_process hash cc mb s \<noteq> Inl Deleted_connection" if "cc \<in> alive s"
    using safe_ClientAction_process [OF inv u that, of hash mb] by (auto simp: safe_def)
  moreover have "\<exists>s'. client_close cc s = Inr ((), s') \<and> cc \<notin> alive s'" if "cc \<in> alive s"
    using client_close_run [OF inv that] by blast
  ultimately show ?thesis by blast
qed

text \<open>A server just started, with one client.\<close>

lemma example_reach:
  assumes "list_all (\<lambda>(i, r). i \<noteq> 0) (t_User d)"
  shows "server_reach hash (client_accept 7 (example_server d))"
proof (rule server_reach.step)
  show "server_reach hash (example_server d)"
    using assms by (intro server_reach.start [of _ 120]) (simp_all add: example_server_def users_numbered_def)
  have "conns (fold (\<lambda>(name, pt). registerEvent name pt) evs h) = conns h" for evs h
    by (induction evs arbitrary: h) (auto simp: event_ops_fields(3))
  then show "server_step hash (example_server d) (client_accept 7 (example_server d))"
    by (intro server_step.accept) (simp add: alive_def example_server_def hub_new_def)
  show "users_numbered (client_accept 7 (example_server d))"
    using assms by (simp add: users_numbered_def client_accept_def example_server_def)
qed

theorem server_never_uses_deleted_connection_witness:
  "7 \<in> alive (client_accept 7 (example_server db_empty)) \<and>
   ClientAction_process (\<lambda>u p. p) 7 (MessageBlock_new ''whatami'') (client_accept 7 (example_server db_empty)) \<noteq>
     Inl Deleted_connection"
proof -
  have r: "server_reach (\<lambda>u p. p) (client_accept 7 (example_server db_empty))"
    by (rule example_reach) (simp add: db_empty_def)
  have "7 \<in> alive (client_accept 7 (example_server db_empty))"
    by (simp add: alive_def client_accept_def accept_conn_def smap_find_put)
  then show ?thesis using server_never_uses_deleted_connection [OF r, where cc = 7] by blast
qed

end
