(* ===== verification/Run_Frame.thy ===== *)
theory Run_Frame
  imports Dispatch
begin

text \<open>
  Relations between the state before and after a run that every step of the server respects.
  The interface asks only about the single statements on the database and updates of fields;
  that every message class and every handler respects the relation is proved once.
\<close>

definition keeps :: "(server \<Rightarrow> server \<Rightarrow> bool) \<Rightarrow> server \<Rightarrow> 'a run \<Rightarrow> bool" where
  "keeps R s0 r \<longleftrightarrow> (case r of Inl e \<Rightarrow> True | Inr (x, s) \<Rightarrow> R s0 s)"

named_theorems keep_intro "rules that split a run into its steps"

lemma keeps_control [keep_intro]:
  "keeps R s0 (Inl e)"
  "R s0 s \<Longrightarrow> keeps R s0 (Inr (x, s))"
  "keeps R s0 (f v) \<Longrightarrow> keeps R s0 (Let v f)"
  "(P \<Longrightarrow> keeps R s0 r) \<Longrightarrow> (\<not> P \<Longrightarrow> keeps R s0 r') \<Longrightarrow> keeps R s0 (if P then r else r')"
  by (auto simp: keeps_def)

lemma keeps_cases [keep_intro]:
  "(\<And>a b. p = (a, b) \<Longrightarrow> keeps R s0 (g a b)) \<Longrightarrow> keeps R s0 (case p of (a, b) \<Rightarrow> g a b)"
  "(x = None \<Longrightarrow> keeps R s0 r) \<Longrightarrow> (\<And>y. x = Some y \<Longrightarrow> keeps R s0 (f y)) \<Longrightarrow>
   keeps R s0 (case x of None \<Rightarrow> r | Some y \<Rightarrow> f y)"
  by (auto split: prod.split option.split)

lemma keeps_bind [keep_intro]:
  "keeps R s0 r \<Longrightarrow> (\<And>x s. R s0 s \<Longrightarrow> keeps R s0 (f x s)) \<Longrightarrow> keeps R s0 (bind_run r f)"
  by (cases r) (auto simp: keeps_def bind_run_def)

lemma keeps_with_conn [keep_intro]: "(\<And>c. keeps R s0 (f c)) \<Longrightarrow> keeps R s0 (with_conn cc s f)"
  by (auto simp: with_conn_def keeps_def split: option.split)

section \<open>Messages\<close>

text \<open>
  Fields that only notify clients or schedule work, and the statements on the contest data.
\<close>

locale run_frame =
  fixes R :: "server \<Rightarrow> server \<Rightarrow> bool"
  assumes R_refl: "R s s"
    and R_trans: "R s s1 \<Longrightarrow> R s1 s2 \<Longrightarrow> R s s2"
    and R_hub: "R s (s\<lparr>sv_hub := h\<rparr>)"
    and R_markers: "R s (s\<lparr>sv_markers := mk\<rparr>)"
    and R_standings: "R s (s\<lparr>sv_standings := st\<rparr>)"
    and R_timer: "R s (s\<lparr>sv_timer := t\<rparr>)"
    and R_startstop: "R s (s\<lparr>sv_startstop := tab\<rparr>)"
    and R_timed: "R s (s\<lparr>sv_timed := ts\<rparr>)"
    and R_update_user: "(\<And>r. u_username (fu r) = u_username r) \<Longrightarrow> R s (s\<lparr>sv_db := (sv_db s)\<lparr>t_User := update_row i fu (t_User (sv_db s))\<rparr>\<rparr>)"
    and R_addUser: "addUser i name friendly pw ty grp (sv_db s) = Some d \<Longrightarrow> R s (s\<lparr>sv_db := d\<rparr>)"
    and R_addGroup: "addGroup i name (sv_db s) = Some d \<Longrightarrow> R s (s\<lparr>sv_db := d\<rparr>)"
    and R_putSubmission: "putSubmission i user prob tm srv content lang (sv_db s) = Some d \<Longrightarrow> R s (s\<lparr>sv_db := d\<rparr>)"
    and R_putMark: "R s (s\<lparr>sv_db := putMark i user tm' res remark srv (sv_db s)\<rparr>)"
    and R_putMarkFile: "putMarkFile i user fname data (sv_db s) = Some d \<Longrightarrow> R s (s\<lparr>sv_db := d\<rparr>)"
    and R_putClarificationRequest: "putClarificationRequest i user prob tm' q (sv_db s) = Some d \<Longrightarrow> R s (s\<lparr>sv_db := d\<rparr>)"
    and R_putClarification: "putClarification req i user tm' pub a (sv_db s) = Some d \<Longrightarrow> R s (s\<lparr>sv_db := d\<rparr>)"
    and R_delProblemAttribute: "R s (s\<lparr>sv_db := delProblemAttribute i a' (sv_db s)\<rparr>)"
    and R_setProblemAttribute: "setProblemAttribute i a' v (sv_db s) = Some d \<Longrightarrow> R s (s\<lparr>sv_db := d\<rparr>)"
    and R_setProblemAttribute_file: "setProblemAttribute_file i a' fname data (sv_db s) = Some d \<Longrightarrow> R s (s\<lparr>sv_db := d\<rparr>)"
    and R_setProblemType: "R s (s\<lparr>sv_db := setProblemType i pt (sv_db s)\<rparr>)"
    and R_setProblemUpdateTime: "R s (s\<lparr>sv_db := setProblemUpdateTime i ut (sv_db s)\<rparr>)"
    and R_delProblemDependency: "R s (s\<lparr>sv_db := delProblemDependency i p' (sv_db s)\<rparr>)"
    and R_addProblemDependency: "addProblemDependency i p' (sv_db s) = Some d \<Longrightarrow> R s (s\<lparr>sv_db := d\<rparr>)"
begin

lemma R_after:
  "R s0 s \<Longrightarrow> R s0 (s\<lparr>sv_hub := h\<rparr>)" "R s0 s \<Longrightarrow> R s0 (s\<lparr>sv_markers := mk\<rparr>)"
  "R s0 s \<Longrightarrow> R s0 (s\<lparr>sv_standings := st\<rparr>)" "R s0 s \<Longrightarrow> R s0 (s\<lparr>sv_timer := t\<rparr>)"
  "R s0 s \<Longrightarrow> R s0 (s\<lparr>sv_startstop := tab\<rparr>)" "R s0 s \<Longrightarrow> R s0 (s\<lparr>sv_timed := ts\<rparr>)"
  by (erule R_trans, rule R_hub R_markers R_standings R_timer R_startstop R_timed)+

lemma keeps_with_hub: "R s0 s \<Longrightarrow> keeps R s0 (with_hub f s)"
  by (auto simp: with_hub_def keeps_def R_after split: option.split)

lemma keeps_broadcast: "R s0 s \<Longrightarrow> keeps R s0 (broadcast user pt mb s)"
  by (simp add: broadcast_def keeps_with_hub)

lemma keeps_broadcast_all: "R s0 s \<Longrightarrow> keeps R s0 (broadcast_all events s)"
  by (induction events s rule: broadcast_all.induct) (auto intro: keep_intro keeps_broadcast)

lemma keeps_update_standings: "R s0 s \<Longrightarrow> keeps R s0 (update_standings uid s)"
  unfolding update_standings_def by (intro keep_intro keeps_broadcast_all R_after)

lemma keeps_with_markers: "R s0 s \<Longrightarrow> keeps R s0 (with_markers f s)"
  unfolding with_markers_def by (intro keep_intro keeps_with_hub R_after)

lemma keeps_announce: "R s0 s \<Longrightarrow> keeps R s0 (announce_submission user a s)"
  unfolding announce_submission_def by (intro keep_intro keeps_broadcast)

lemma keeps_perform_groups: "R s0 s \<Longrightarrow> keeps R s0 (perform_groups tm gs s)"
  by (induction gs arbitrary: s) (auto intro!: keep_intro keeps_with_hub R_after split: prod.split)

lemma R_put_ends: "R s0 s \<Longrightarrow> R s0 (put_ends grp now gs seen s)"
  by (induction gs arbitrary: seen s) (auto simp: Let_def putTimedAction_def R_after)

lemmas keep_notify = keeps_with_hub keeps_broadcast keeps_update_standings keeps_with_markers keeps_announce
  keeps_perform_groups

text \<open>Folds of statements.\<close>

lemma R_db: "R s0 s \<Longrightarrow> R s (s\<lparr>sv_db := d\<rparr>) \<Longrightarrow> R s0 (s\<lparr>sv_db := d\<rparr>)"
  by (rule R_trans)

lemma R_fold:
  assumes "\<And>x d. R (s\<lparr>sv_db := d\<rparr>) (s\<lparr>sv_db := f x d\<rparr>)"
  shows "R (s\<lparr>sv_db := d\<rparr>) (s\<lparr>sv_db := fold f xs d\<rparr>)"
  by (induction xs arbitrary: d) (auto intro: R_refl R_trans assms)

lemma R_put_files: "R (s\<lparr>sv_db := d\<rparr>) (s\<lparr>sv_db := put_files m d\<rparr>)"
  unfolding put_files_def
  by (rule R_fold) (auto split: option.split intro: R_refl dest: R_putMarkFile [of _ _ _ _ "s\<lparr>sv_db := d\<rparr>" for d, simplified])

lemma R_drop_attributes: "R (s\<lparr>sv_db := d\<rparr>) (s\<lparr>sv_db := drop_attributes m d\<rparr>)"
  unfolding drop_attributes_def
  by (rule R_fold) (auto intro: R_refl R_delProblemAttribute [of "s\<lparr>sv_db := d\<rparr>" for d, simplified] split: prod.split)

lemma R_set_dependencies: "R (s\<lparr>sv_db := d\<rparr>) (s\<lparr>sv_db := set_dependencies m d\<rparr>)"
proof -
  have "R (s\<lparr>sv_db := d\<rparr>) (s\<lparr>sv_db := fold (\<lambda>p d. if p \<in> A then d else delProblemDependency i p d) ps d\<rparr>)" for A i ps d
    by (rule R_fold) (auto intro: R_refl R_delProblemDependency [of "s\<lparr>sv_db := d\<rparr>" for d, simplified])
  moreover have "R (s\<lparr>sv_db := d\<rparr>) (s\<lparr>sv_db := fold (\<lambda>p d. if p \<in> A then d
      else (case addProblemDependency i p d of None \<Rightarrow> d | Some d' \<Rightarrow> d')) ps d\<rparr>)" for A i ps d
    by (rule R_fold) (auto split: option.split intro: R_refl dest: R_addProblemDependency [of _ _ "s\<lparr>sv_db := d\<rparr>" for d, simplified])
  ultimately show ?thesis unfolding set_dependencies_def Let_def by (blast intro: R_trans)
qed

lemma R_and_then:
  assumes "\<And>d d'. f d = Some d' \<Longrightarrow> R (s\<lparr>sv_db := d\<rparr>) (s\<lparr>sv_db := d'\<rparr>)"
  shows "R (s\<lparr>sv_db := snd rd\<rparr>) (s\<lparr>sv_db := snd (and_then f rd)\<rparr>)"
  by (cases rd) (auto simp: and_then_def R_refl assms split: option.split)

lemma R_fold_pair:
  assumes "\<And>x rd. R (s\<lparr>sv_db := snd rd\<rparr>) (s\<lparr>sv_db := snd (f x rd)\<rparr>)"
  shows "R (s\<lparr>sv_db := snd rd\<rparr>) (s\<lparr>sv_db := snd (fold f xs rd)\<rparr>)"
proof (induction xs arbitrary: rd)
  case (Cons x xs)
  show ?case using R_trans [OF assms Cons.IH] by simp
qed (simp add: R_refl)

lemma R_set_attributes: "R (s\<lparr>sv_db := d\<rparr>) (s\<lparr>sv_db := snd (set_attributes m d)\<rparr>)"
proof -
  have one: "R (s\<lparr>sv_db := snd rd\<rparr>) (s\<lparr>sv_db := snd (and_then (setProblemAttribute p a v) rd)\<rparr>)" for p a v rd
    by (rule R_and_then) (rule R_setProblemAttribute [of _ _ _ "s\<lparr>sv_db := d\<rparr>" for d, simplified])
  have fl: "R (s\<lparr>sv_db := snd rd\<rparr>) (s\<lparr>sv_db := snd (and_then (setProblemAttribute_file p a name data) rd)\<rparr>)" for p a name data rd
    by (rule R_and_then) (rule R_setProblemAttribute_file [of _ _ _ _ "s\<lparr>sv_db := d\<rparr>" for d, simplified])
  have i: "R (s\<lparr>sv_db := snd rd\<rparr>) (s\<lparr>sv_db := snd (fold (\<lambda>(a, v). and_then (setProblemAttribute_int p a v)) xs rd)\<rparr>)" for p xs rd
    by (rule R_fold_pair) (auto simp: setProblemAttribute_int_def [abs_def] one split: prod.split)
  have t: "R (s\<lparr>sv_db := snd rd\<rparr>) (s\<lparr>sv_db := snd (fold (\<lambda>(a, v). and_then (setProblemAttribute p a v)) xs rd)\<rparr>)" for p xs rd
    by (rule R_fold_pair) (auto simp: one split: prod.split)
  have f: "R (s\<lparr>sv_db := snd rd\<rparr>) (s\<lparr>sv_db := snd (fold (\<lambda>(a, f) rd. if pf_name f \<noteq> []
      then and_then (setProblemAttribute_file p a (pf_name f) (pf_data f)) rd else rd) xs rd)\<rparr>)" for p xs rd
    by (rule R_fold_pair) (auto simp: fl R_refl split: prod.split)
  show ?thesis
    unfolding set_attributes_def Let_def
    using R_trans [OF R_trans [OF f i] t, of "(True, d)"] by simp
qed

text \<open>The message classes, except the one that creates a server.\<close>

lemma con_db: "con s = Some d \<Longrightarrow> d = sv_db s"
  by (simp add: con_def split: if_splits)

lemma R_process_prob_db:
  "R s (s\<lparr>sv_db := set_dependencies m (setProblemUpdateTime i ut (snd (set_attributes m
     (if b then setProblemType i pt (if c then drop_attributes m (sv_db s) else sv_db s)
      else (if c then drop_attributes m (sv_db s) else sv_db s)))))\<rparr>)"
proof -
  have d: "R s (s\<lparr>sv_db := if c then drop_attributes m (sv_db s) else sv_db s\<rparr>)" (is "R s (s\<lparr>sv_db := ?d\<rparr>)")
    using R_drop_attributes [where s = s and d = "sv_db s" and m = m] by (simp add: R_refl)
  have y: "R s (s\<lparr>sv_db := if b then setProblemType i pt ?d else ?d\<rparr>)" (is "R s (s\<lparr>sv_db := ?y\<rparr>)")
    using R_trans [OF d R_setProblemType [where s = "s\<lparr>sv_db := ?d\<rparr>" and i = i and pt = pt, simplified]] d by simp
  note u = R_trans [OF R_trans [OF y R_set_attributes] R_setProblemUpdateTime [where s = "s\<lparr>sv_db := dd\<rparr>" for dd, simplified]]
  show ?thesis by (rule R_trans [OF u R_set_dependencies])
qed

lemma keeps_process_prob: "keeps R s (process_prob m s)"
  unfolding process_prob_def
proof (intro keep_intro; (rule R_refl)?)
  fix d result d3
  assume c: "con s = Some d" and a: "set_attributes m
      (if getProblemType (pm_prob_id m) d \<noteq> pm_type m
       then setProblemType (pm_prob_id m) (pm_type m)
             (if getProblemType (pm_prob_id m) d \<noteq> [] then drop_attributes m d else d)
       else if getProblemType (pm_prob_id m) d \<noteq> [] then drop_attributes m d else d) = (result, d3)"
  from con_db [OF c] have d: "sv_db s = d" by simp
  from R_process_prob_db [of s m "pm_prob_id m" "uint (pm_update_time m)"
      "getProblemType (pm_prob_id m) d \<noteq> pm_type m" "pm_type m" "getProblemType (pm_prob_id m) d \<noteq> []"]
  show "R s (s\<lparr>sv_db := set_dependencies m (setProblemUpdateTime (pm_prob_id m) (uint (pm_update_time m)) d3)\<rparr>)"
    by (simp only: d a snd_conv)
qed

lemma db_try_R:
  assumes "db_try f s = (b, s1)" "\<And>d. f (sv_db s) = Some d \<Longrightarrow> R s (s\<lparr>sv_db := d\<rparr>)"
  shows "R s s1"
  using assms R_refl by (auto simp: db_try_def dest!: con_db split: option.splits)

lemma keeps_process_accounts:
  "keeps R s (process_passwd pm s)" "keeps R s (process_bonus bm s)"
  "keeps R s (process_creategroup gm s)" "keeps R s (process_createuser um s)"
  unfolding process_passwd_def process_bonus_def process_creategroup_def process_createuser_def
  by (intro keep_intro keep_notify R_after; auto simp: R_refl R_update_user dest!: con_db elim!: db_try_R intro: R_addGroup R_addUser)+

lemma keeps_process_submission: "keeps R s (process_submission m s)"
  unfolding process_submission_def
  by (intro keep_intro keep_notify R_after; auto simp: R_refl dest!: con_db intro: R_putSubmission)

lemma keeps_process_mark: "keeps R s (process_mark m s)"
  unfolding process_mark_def
  by (intro keep_intro keep_notify R_after; auto simp: R_refl dest!: con_db
      intro: R_trans [OF R_putMark R_put_files])

lemma keeps_process_clarification: "keeps R s (process_clarification m s)"
  unfolding process_clarification_def
  by (intro keep_intro keep_notify R_after; auto simp: R_refl dest!: con_db
      intro: R_putClarificationRequest R_putClarification)

lemma keeps_process_startstop: "keeps R s (process_startstop m s)"
  unfolding process_startstop_def StartStopAction_perform_def putTimedAction_def
  by (intro keep_intro keep_notify R_put_ends R_after; simp add: R_refl R_after)

lemma keeps_int_process: "\<nexists>m'. m = M_CreateServer m' \<Longrightarrow> keeps R s (int_process m s)"
  by (cases m) (simp_all add: keeps_process_accounts keeps_process_submission keeps_process_mark
      keeps_process_clarification keeps_process_startstop keeps_process_prob)

end

section \<open>Requests\<close>

text \<open>Numbers, replication and the statements on servers and peer messages.\<close>

locale full_frame = run_frame +
  assumes R_id: "R s (s\<lparr>sv_id := i\<rparr>)"
    and R_acks: "R s (s\<lparr>sv_acks := ids\<rparr>)"
    and R_network: "R s (s\<lparr>sv_network := nw\<rparr>)"
    and R_last_submission: "R s (s\<lparr>sv_last_submission := i\<rparr>)"
    and R_last_request: "R s (s\<lparr>sv_last_request := i\<rparr>)"
    and R_last_clarification: "R s (s\<lparr>sv_last_clarification := i\<rparr>)"
    and R_last_problem: "R s (s\<lparr>sv_last_problem := i\<rparr>)"
    and R_last_user: "R s (s\<lparr>sv_last_user := i\<rparr>)"
    and R_last_group: "R s (s\<lparr>sv_last_group := i\<rparr>)"
    and R_last_server: "R s (s\<lparr>sv_last_server := i\<rparr>)"
    and R_markProcessed: "R s (s\<lparr>sv_db := markProcessed i j (sv_db s)\<rparr>)"
    and R_ackMessage: "R s (s\<lparr>sv_db := ackMessage i j k (sv_db s)\<rparr>)"
    and R_setServerAttribute: "R s (s\<lparr>sv_db := setServerAttribute i attribute v (sv_db s)\<rparr>)"
    and R_addServer: "addServer me name i (sv_db s) = Some d \<Longrightarrow> R s (s\<lparr>sv_db := d\<rparr>)"
    and R_putLocalMessage: "putLocalMessage me row (sv_db s) = Some (i, d) \<Longrightarrow> R s (s\<lparr>sv_db := d\<rparr>)"
begin

lemma R_after_all:
  "R s0 s \<Longrightarrow> R s0 (s\<lparr>sv_id := i\<rparr>)" "R s0 s \<Longrightarrow> R s0 (s\<lparr>sv_acks := ids\<rparr>)" "R s0 s \<Longrightarrow> R s0 (s\<lparr>sv_network := nw\<rparr>)"
  "R s0 s \<Longrightarrow> R s0 (s\<lparr>sv_last_submission := i\<rparr>)" "R s0 s \<Longrightarrow> R s0 (s\<lparr>sv_last_request := i\<rparr>)"
  "R s0 s \<Longrightarrow> R s0 (s\<lparr>sv_last_clarification := i\<rparr>)" "R s0 s \<Longrightarrow> R s0 (s\<lparr>sv_last_problem := i\<rparr>)"
  "R s0 s \<Longrightarrow> R s0 (s\<lparr>sv_last_user := i\<rparr>)" "R s0 s \<Longrightarrow> R s0 (s\<lparr>sv_last_group := i\<rparr>)"
  "R s0 s \<Longrightarrow> R s0 (s\<lparr>sv_last_server := i\<rparr>)"
  by (erule R_trans, rule R_id R_acks R_network R_last_submission R_last_request R_last_clarification R_last_problem
      R_last_user R_last_group R_last_server)+

lemma R_remember: "R s0 s \<Longrightarrow> R s0 (remember_id s)"
  by (simp add: remember_id_def R_after_all)

lemma R_putAck: "R s0 s \<Longrightarrow> R s0 (putAck i j k s)"
  using R_after_all(2) [of s0 s "sv_acks s @ [k]"] R_trans [OF _ R_ackMessage, of s0 "s\<lparr>sv_acks := sv_acks s @ [k]\<rparr>" i j k]
  by (auto simp: putAck_def Let_def)

lemma addServer_insert: "insert_row i name (t_Server d) = Some t \<Longrightarrow> addServer me name i d \<noteq> None"
  by (auto simp: addServer_def Let_def split: option.splits)

lemma id_db: "s\<lparr>sv_id := i, sv_db := d\<rparr> = s\<lparr>sv_db := d, sv_id := i\<rparr>"
  by (cases s) simp

lemma keeps_process_createserver: "keeps R s (process_createserver m s)"
  unfolding process_createserver_def
proof (intro keep_intro; (rule R_refl)?)
  fix d t assume c: "con s = Some d" and t: "insert_row (cs_server_id m) (cs_name m) (t_Server d) = Some t"
  let ?s1 = "remember_id (s\<lparr>sv_db := d\<lparr>t_Server := t\<rparr>\<rparr>)"
  have d: "sv_db s = d" using con_db [OF c] by simp
  { assume "addServer (my_id ?s1) (cs_name m) (cs_server_id m) d = None"
    with addServer_insert [OF t] show "R s ?s1" by blast
  next
    fix d1 assume a: "addServer (my_id ?s1) (cs_name m) (cs_server_id m) d = Some d1"
    have "R s (s\<lparr>sv_db := d1\<rparr>)" using R_addServer a d by blast
    also have "R (s\<lparr>sv_db := d1\<rparr>) (s\<lparr>sv_db := fold (\<lambda>(k, v). setServerAttribute (cs_server_id m) k v) (cs_attribs m) d1\<rparr>)"
      by (rule R_fold) (auto intro: R_setServerAttribute [where s = "s\<lparr>sv_db := dd\<rparr>" for dd, simplified] split: prod.split)
    finally (R_trans) have r: "R s (s\<lparr>sv_db := fold (\<lambda>(k, v). setServerAttribute (cs_server_id m) k v) (cs_attribs m) d1\<rparr>)" .
    show "R s (putAck 0 0 (cs_server_id m) (?s1\<lparr>sv_db := fold (\<lambda>(k, v). setServerAttribute (cs_server_id m) k v) (cs_attribs m) d1\<rparr>))"
      using R_after_all(1) [OF r] by (intro R_putAck) (simp add: remember_id_def id_db) }
qed

lemma keeps_any_message: "keeps R s (int_process m s)"
  using keeps_int_process keeps_process_createserver by (cases "\<exists>m'. m = M_CreateServer m'") auto

lemma keeps_from: "R s0 s \<Longrightarrow> keeps R s r \<Longrightarrow> keeps R s0 r"
  by (auto simp: keeps_def intro: R_trans split: sum.split)

lemma keeps_Message_process: "R s0 s \<Longrightarrow> keeps R s0 (Message_process srv i m s)"
  unfolding Message_process_def
  by (intro keep_intro keeps_from [OF _ keeps_any_message]) (auto intro: R_trans [OF _ R_markProcessed])

lemma keeps_makeMessage: "R s0 s \<Longrightarrow> keeps R s0 (makeMessage m s)"
  unfolding makeMessage_def
  by (intro keep_intro; (rule R_after_all(3) [where s = "s\<lparr>sv_db := dd\<rparr>" for dd, simplified])?)
    (auto dest!: con_db intro: R_trans [OF _ R_putLocalMessage])

lemma keeps_triggerMessage: "R s0 s \<Longrightarrow> keeps R s0 (triggerMessage m reply s)"
  unfolding triggerMessage_def by (intro keep_intro keeps_makeMessage keeps_Message_process)

lemmas keep_trigger = keep_intro keep_notify keeps_triggerMessage

lemma keeps_account_actions:
  assumes "R s0 s"
  shows "keeps R s0 (ActPasswd hash cc mb s)" "keeps R s0 (ActIdPasswd hash cc mb s)" "keeps R s0 (ActAddUser hash cc mb s)"
    "keeps R s0 (ActAddGroup cc mb s)" "keeps R s0 (ActAddServer cc mb s)" "keeps R s0 (ActSetbonus cc mb s)"
    "keeps R s0 (ActStartStop cc mb s)" "keeps R s0 (ActAuth hash cc mb s)"
  unfolding ActPasswd_def ActIdPasswd_def ActAddUser_def ActAddGroup_def ActAddServer_def ActSetbonus_def ActStartStop_def
    ActAuth_def
  using assms by (intro keep_trigger; simp add: R_after_all)+

lemma keeps_legality:
  "keeps R s0 r \<Longrightarrow> (\<And>msg. keeps R s0 (f msg)) \<Longrightarrow> keeps R s0 r' \<Longrightarrow>
   keeps R s0 (case x of Legal \<Rightarrow> r | Illegal msg \<Rightarrow> f msg | No_database \<Rightarrow> r')"
  by (cases x) simp_all

lemma keeps_attr_result:
  "(\<And>m. keeps R s0 (f m)) \<Longrightarrow> (\<And>msg. keeps R s0 (g msg)) \<Longrightarrow> (\<And>e. keeps R s0 (k e)) \<Longrightarrow>
   keeps R s0 (case x of Attr_ok m \<Rightarrow> f m | Attr_error msg \<Rightarrow> g msg | Attr_fault e \<Rightarrow> k e)"
  by (cases x) simp_all

lemma keeps_contest_actions:
  assumes "R s0 s"
  shows "keeps R s0 (ActClarificationRequest cc mb s)" "keeps R s0 (ActClarification cc mb s)" "keeps R s0 (ActSubmit cc mb s)"
    "keeps R s0 (ActSubscribeMark cc mb s)" "keeps R s0 (ActPlaceMark cc mb s)" "keeps R s0 (ActSetProbAttrs cc mb s)"
  unfolding ActClarificationRequest_def ActClarification_def ActSubmit_def ActSubscribeMark_def ActPlaceMark_def
    ActSetProbAttrs_def
  using assms by (intro keep_trigger keeps_legality keeps_attr_result; simp add: R_after_all)+

lemma keeps_connection_queries:
  assumes "R s0 s"
  shows "keeps R s0 (ActWhatAmI cc mb s)" "keeps R s0 (ActContesttime cc mb s)" "keeps R s0 (ActRunning cc mb s)"
    "keeps R s0 (ActStandings cc mb s)" "keeps R s0 (ActGetProblems cc mb s)" "keeps R s0 (ActGetSubmissions cc mb s)"
    "keeps R s0 (ActGetSubmissionsForUser cc mb s)" "keeps R s0 (ActGetClarifications cc mb s)"
    "keeps R s0 (ActGetClarificationRequests cc mb s)" "keeps R s0 (ActSubmissionFileFetcher cc mb s)"
    "keeps R s0 (ActGetSubmissionSource cc mb s)"
  unfolding ActWhatAmI_def ActContesttime_def ActRunning_def ActStandings_def ActGetProblems_def ActGetSubmissions_def
    ActGetSubmissionsForUser_def ActGetClarifications_def ActGetClarificationRequests_def
    ActSubmissionFileFetcher_def ActGetSubmissionSource_def answer_submissions_def
  using assms by (intro keep_intro; simp)+

lemma keeps_other_queries:
  assumes "R s0 s"
  shows "keeps R s0 (ServerListAct cc mb s)" "keeps R s0 (ActGetGroups cc mb s)" "keeps R s0 (ActGetUsers cc mb s)"
    "keeps R s0 (ActGetbonus cc mb s)" "keeps R s0 (ActGetLanguages cc mb s)" "keeps R s0 (ActGetProbAttrs cc mb s)"
    "keeps R s0 (ActGetProblemFile cc mb s)" "keeps R s0 (ActGetProbTypes cc mb s)" "keeps R s0 (ActGetProbDescript cc mb s)"
    "keeps R s0 (ActEvents cc mb s)" "keeps R s0 (ActSubscribeTime cc mb s)"
  unfolding ServerListAct_def ActGetGroups_def ActGetUsers_def ActGetbonus_def ActGetLanguages_def
    ActGetProbAttrs_def ActGetProblemFile_def ActGetProbTypes_def ActGetProbDescript_def ActEvents_def ActSubscribeTime_def
  using assms by (intro keep_intro; simp add: R_after)+

lemma keeps_TCPTransmitAction: "R s0 s \<Longrightarrow> keeps R s0 (TCPTransmitAction cc mb s)"
  unfolding TCPTransmitAction_def by (intro keep_intro; simp add: keeps_def split: build_result.split)

lemmas keep_actions = keeps_account_actions keeps_contest_actions keeps_connection_queries keeps_other_queries
  keeps_TCPTransmitAction

lemma keeps_action:
  assumes "R s0 s" "map_of (actionmap hash) name = Some (pt, act)"
  shows "keeps R s0 (act cc mb s)"
proof -
  have "list_all (\<lambda>(name, pt, act). keeps R s0 (act cc mb s)) (actionmap hash)"
    by (simp add: actionmap_def keep_actions assms(1))
  then show ?thesis using map_of_SomeD [OF assms(2)] by (auto simp: list_all_iff)
qed

lemma keeps_ClientAction_process: "keeps R s (ClientAction_process hash cc mb s)"
  unfolding ClientAction_process_def answer_def
  by (intro keep_intro keep_notify keeps_action; assumption?; simp add: R_remember R_refl)

lemma keeps_client_close: "keeps R s (client_close cc s)"
  unfolding client_close_def by (intro keep_intro keep_notify R_after; simp add: R_refl)

end

end
