(* ===== verification/Tables.thy ===== *)
theory Tables
  imports Run_Frame
begin

text \<open>
  The database stays well formed whatever clients and peers send: every table is a map from its
  primary key, names of users and groups are unique, and every acknowledgement that is
  outstanding is about a message and a server that exist.
\<close>

section \<open>Well-formed tables\<close>

definition tables_ok :: "db \<Rightarrow> bool" where
  "tables_ok d \<longleftrightarrow> smap_ok (t_Server d) \<and> smap_ok (t_ServerAttributes d) \<and> smap_ok (t_User d) \<and> smap_ok (t_Group d) \<and>
     smap_ok (t_Submission d) \<and> smap_ok (t_SubmissionMark d) \<and> smap_ok (t_SubmissionMarkFile d) \<and>
     smap_ok (t_Problem d) \<and> smap_ok (t_ProblemAttributes d) \<and> smap_ok (t_ProblemFileData d) \<and>
     smap_ok (t_ProblemDependencies d) \<and> smap_ok (t_ClarificationRequest d) \<and> smap_ok (t_Clarification d) \<and>
     smap_ok (t_PeerMessage d) \<and> smap_ok (t_PeerMessageNoAck d)"

definition names_ok :: "db \<Rightarrow> bool" where
  "names_ok d \<longleftrightarrow>
     (\<forall>i j r r'. smap_find (t_User d) i = Some r \<longrightarrow> smap_find (t_User d) j = Some r' \<longrightarrow> u_username r = u_username r' \<longrightarrow> i = j) \<and>
     (\<forall>i j n. smap_find (t_Group d) i = Some n \<longrightarrow> smap_find (t_Group d) j = Some n \<longrightarrow> i = j)"

definition acks_ok :: "db \<Rightarrow> bool" where
  "acks_ok d \<longleftrightarrow> (\<forall>s i a. smap_find (t_PeerMessageNoAck d) (s, i, a) \<noteq> None \<longrightarrow>
     smap_find (t_PeerMessage d) (s, i) \<noteq> None \<and> smap_find (t_Server d) a \<noteq> None)"

definition db_wf :: "db \<Rightarrow> bool" where
  "db_wf d \<longleftrightarrow> tables_ok d \<and> names_ok d \<and> acks_ok d"

lemma insert_row_ok: "insert_row k v t = Some t' \<Longrightarrow> smap_ok t \<Longrightarrow> smap_ok t'"
  by (auto simp: insert_row_def smap_ok_put split: if_splits)

lemma insert_row_find: "insert_row k v t = Some t' \<Longrightarrow> smap_find t' x = (if x = k then Some v else smap_find t x)"
  by (auto simp: insert_row_def smap_find_put split: if_splits)

lemma update_row_ok: "smap_ok t \<Longrightarrow> smap_ok (update_row k f t)"
  by (auto simp: update_row_def smap_ok_put split: option.split)

lemma update_row_find: "smap_find (update_row k f t) x = (if x = k then map_option f (smap_find t k) else smap_find t x)"
  by (auto simp: update_row_def smap_find_put split: option.split)

lemma fold_put_ok: "smap_ok t \<Longrightarrow> smap_ok (fold (\<lambda>k. smap_put k v) ks t)"
  by (induction ks arbitrary: t) (auto simp: smap_ok_put)

lemma fold_put_find: "smap_find (fold (\<lambda>k. smap_put k v) ks t) x = (if x \<in> set ks then Some v else smap_find t x)"
  by (induction ks arbitrary: t) (auto simp: smap_find_put)

lemma insert_all_ok: "insert_all ks v t = Some t' \<Longrightarrow> smap_ok t \<Longrightarrow> smap_ok t'"
  by (auto simp: insert_all_def fold_put_ok split: if_splits)

lemma insert_all_find: "insert_all ks v t = Some t' \<Longrightarrow> smap_find t' x = (if x \<in> set ks then Some v else smap_find t x)"
  by (auto simp: insert_all_def fold_put_find split: if_splits)

lemmas row_ok = insert_row_ok update_row_ok smap_ok_put smap_ok_erase insert_all_ok

lemma names_ok_frame [simp]:
  "names_ok (d\<lparr>t_Server := xServer\<rparr>) = names_ok d"
  "names_ok (d\<lparr>t_ServerAttributes := xServerAttributes\<rparr>) = names_ok d"
  "names_ok (d\<lparr>t_Submission := xSubmission\<rparr>) = names_ok d"
  "names_ok (d\<lparr>t_SubmissionMark := xSubmissionMark\<rparr>) = names_ok d"
  "names_ok (d\<lparr>t_SubmissionMarkFile := xSubmissionMarkFile\<rparr>) = names_ok d"
  "names_ok (d\<lparr>t_Problem := xProblem\<rparr>) = names_ok d"
  "names_ok (d\<lparr>t_ProblemAttributes := xProblemAttributes\<rparr>) = names_ok d"
  "names_ok (d\<lparr>t_ProblemFileData := xProblemFileData\<rparr>) = names_ok d"
  "names_ok (d\<lparr>t_ProblemDependencies := xProblemDependencies\<rparr>) = names_ok d"
  "names_ok (d\<lparr>t_ClarificationRequest := xClarificationRequest\<rparr>) = names_ok d"
  "names_ok (d\<lparr>t_Clarification := xClarification\<rparr>) = names_ok d"
  "names_ok (d\<lparr>t_PeerMessage := xPeerMessage\<rparr>) = names_ok d"
  "names_ok (d\<lparr>t_PeerMessageNoAck := xPeerMessageNoAck\<rparr>) = names_ok d"
  by (simp_all add: names_ok_def)

lemma acks_ok_frame [simp]:
  "acks_ok (d\<lparr>t_ServerAttributes := xServerAttributes\<rparr>) = acks_ok d"
  "acks_ok (d\<lparr>t_User := xUser\<rparr>) = acks_ok d" "acks_ok (d\<lparr>t_Group := xGroup\<rparr>) = acks_ok d"
  "acks_ok (d\<lparr>t_Submission := xSubmission\<rparr>) = acks_ok d"
  "acks_ok (d\<lparr>t_SubmissionMark := xSubmissionMark\<rparr>) = acks_ok d"
  "acks_ok (d\<lparr>t_SubmissionMarkFile := xSubmissionMarkFile\<rparr>) = acks_ok d"
  "acks_ok (d\<lparr>t_Problem := xProblem\<rparr>) = acks_ok d"
  "acks_ok (d\<lparr>t_ProblemAttributes := xProblemAttributes\<rparr>) = acks_ok d"
  "acks_ok (d\<lparr>t_ProblemFileData := xProblemFileData\<rparr>) = acks_ok d"
  "acks_ok (d\<lparr>t_ProblemDependencies := xProblemDependencies\<rparr>) = acks_ok d"
  "acks_ok (d\<lparr>t_ClarificationRequest := xClarificationRequest\<rparr>) = acks_ok d"
  "acks_ok (d\<lparr>t_Clarification := xClarification\<rparr>) = acks_ok d"
  by (simp_all add: acks_ok_def)

section \<open>Statements\<close>

lemma contest_data_wf:
  assumes "db_wf d"
  shows "putSubmission i user prob tm srv content lang d = Some d' \<Longrightarrow> db_wf d'"
    "db_wf (putMark i user tm' res remark srv d)"
    "putMarkFile i user fname data d = Some d' \<Longrightarrow> db_wf d'"
    "putClarificationRequest i user prob tm' q d = Some d' \<Longrightarrow> db_wf d'"
    "putClarification req i user tm' pub a d = Some d' \<Longrightarrow> db_wf d'"
  using assms
  by (auto simp: putSubmission_def putMark_def putMarkFile_def putClarificationRequest_def putClarification_def
      db_wf_def tables_ok_def row_ok)

lemma problem_data_wf:
  assumes "db_wf d"
  shows "db_wf (delProblemAttribute i a d)"
    "setProblemAttribute i a v d = Some d' \<Longrightarrow> db_wf d'"
    "setProblemAttribute_file i a fname data d = Some d' \<Longrightarrow> db_wf d'"
    "db_wf (setProblemType i pt d)" "db_wf (setProblemUpdateTime i ut d)"
    "db_wf (delProblemDependency i p d)" "addProblemDependency i p d = Some d' \<Longrightarrow> db_wf d'"
  using assms
  by (auto simp: delProblemAttribute_def setProblemAttribute_def setProblemAttribute_file_def setProblemType_def
      setProblemUpdateTime_def delProblemDependency_def addProblemDependency_def Let_def
      db_wf_def tables_ok_def row_ok split: option.splits)

lemma names_ok_user:
  assumes "names_ok d" "\<And>j r. smap_find (t_User d) j = Some r \<Longrightarrow> u_username r \<noteq> u_username x"
  shows "insert_row i x (t_User d) = Some t \<Longrightarrow> names_ok (d\<lparr>t_User := t\<rparr>)"
  using assms unfolding names_ok_def by (auto simp: insert_row_find) metis

lemma names_ok_group:
  assumes "names_ok d" "\<And>j. smap_find (t_Group d) j \<noteq> Some x"
  shows "insert_row i x (t_Group d) = Some t \<Longrightarrow> names_ok (d\<lparr>t_Group := t\<rparr>)"
  using assms unfolding names_ok_def by (auto simp: insert_row_find)

lemma accounts_wf:
  assumes "db_wf d"
  shows "(\<And>r. u_username (f r) = u_username r) \<Longrightarrow> db_wf (d\<lparr>t_User := update_row i f (t_User d)\<rparr>)"
    "addUser i name friendly pw ty grp d = Some d' \<Longrightarrow> db_wf d'"
    "addGroup i name d = Some d' \<Longrightarrow> db_wf d'"
proof -
  have ok: "smap_ok (t_User d)" "smap_ok (t_Group d)" and n: "names_ok d" using assms by (auto simp: db_wf_def tables_ok_def)
  { assume f: "\<And>r. u_username (f r) = u_username r"
    have "names_ok (d\<lparr>t_User := update_row i f (t_User d)\<rparr>)"
      using n f unfolding names_ok_def by (auto simp: update_row_find split: if_splits)
    then show "db_wf (d\<lparr>t_User := update_row i f (t_User d)\<rparr>)"
      using assms by (auto simp: db_wf_def tables_ok_def row_ok) }
  { assume a: "addUser i name friendly pw ty grp d = Some d'"
    then have "u_username r \<noteq> name" if "smap_find (t_User d) j = Some r" for j r
      using smap_find_in [OF that] by (auto simp: addUser_def list_ex_iff split: if_splits)
    moreover obtain t where t: "insert_row i \<lparr>u_username = name, u_friendlyname = friendly, u_password = pw, u_type = ty,
        u_group = grp, u_bonus_points = 0, u_bonus_seconds = 0\<rparr> (t_User d) = Some t" "d' = d\<lparr>t_User := t\<rparr>"
      using a by (auto simp: addUser_def split: if_splits)
    ultimately have "names_ok d'" unfolding t(2) by (intro names_ok_user [OF n _ t(1)]) simp
    then show "db_wf d'" using assms t row_ok(1) [OF t(1) ok(1)] by (simp add: db_wf_def tables_ok_def) }
  { assume a: "addGroup i name d = Some d'"
    then have "smap_find (t_Group d) j \<noteq> Some name" for j
      using smap_find_in [of "t_Group d" j name] by (auto simp: addGroup_def list_ex_iff split: if_splits)
    with a show "db_wf d'"
      using assms names_ok_group [OF n] by (auto simp: addGroup_def db_wf_def tables_ok_def row_ok split: if_splits) }
qed

text \<open>Statements on messages: the keys of \<^verbatim>\<open>PeerMessage\<close> only grow.\<close>

lemma add_noack_fields [simp]:
  "t_PeerMessage (add_noack s i as d) = t_PeerMessage d" "t_Server (add_noack s i as d) = t_Server d"
  by (simp_all add: add_noack_def split: option.split)

lemma add_noack_wf:
  assumes "db_wf d" "smap_find (t_PeerMessage d) (s, i) \<noteq> None" "set as \<subseteq> fst ` set (t_Server d)"
  shows "db_wf (add_noack s i as d)"
proof (cases "insert_all (map (\<lambda>a. (s, i, a)) as) 0 (t_PeerMessageNoAck d)")
  case (Some t)
  have "smap_find (t_Server d) a \<noteq> None" if "a \<in> set as" for a
    using assms(3) that by (auto simp: smap_find_dom)
  with assms(1,2) insert_all_find [OF Some] have "acks_ok (d\<lparr>t_PeerMessageNoAck := t\<rparr>)"
    by (auto simp: db_wf_def acks_ok_def image_iff split: if_splits)
  with assms(1) insert_all_ok [OF Some] Some show ?thesis by (auto simp: add_noack_def db_wf_def tables_ok_def)
qed (use assms in \<open>simp add: add_noack_def\<close>)

lemma acks_ok_mono:
  assumes "acks_ok d"
    "\<And>k. smap_find (t_PeerMessageNoAck d') k \<noteq> None \<Longrightarrow> smap_find (t_PeerMessageNoAck d) k \<noteq> None"
    "\<And>k. smap_find (t_PeerMessage d) k \<noteq> None \<Longrightarrow> smap_find (t_PeerMessage d') k \<noteq> None"
    "\<And>a. smap_find (t_Server d) a \<noteq> None \<Longrightarrow> smap_find (t_Server d') a \<noteq> None"
  shows "acks_ok d'"
  using assms unfolding acks_ok_def by blast

lemma insert_message_wf:
  assumes "db_wf d" "insert_row k r (t_PeerMessage d) = Some t"
  shows "db_wf (d\<lparr>t_PeerMessage := t\<rparr>)"
proof -
  have "acks_ok (d\<lparr>t_PeerMessage := t\<rparr>)"
    by (rule acks_ok_mono [of d]) (use assms in \<open>auto simp: db_wf_def insert_row_find [OF assms(2)]\<close>)
  with assms show ?thesis by (auto simp: db_wf_def tables_ok_def row_ok)
qed

lemma peer_messages_wf:
  assumes "db_wf d"
  shows "putLocalMessage me row d = Some (i, d') \<Longrightarrow> db_wf d'"
    "putRemoteMessage me s j r d = Some d' \<Longrightarrow> db_wf d'"
    "db_wf (markProcessed s j d)" "db_wf (ackMessage s j a d)"
proof -
  { assume p: "putLocalMessage me row d = Some (i, d')"
    then obtain t where t: "insert_row (me, i) (row i) (t_PeerMessage d) = Some t"
      "d' = add_noack me i (filter (\<lambda>s. s \<noteq> me) (map fst (t_Server d))) (d\<lparr>t_PeerMessage := t\<rparr>)"
      by (auto simp: putLocalMessage_def Let_def split: option.splits)
    show "db_wf d'"
      unfolding t(2) using insert_row_find [OF t(1)] insert_message_wf [OF assms t(1)] by (intro add_noack_wf) auto }
  { assume p: "putRemoteMessage me s j r d = Some d'"
    then obtain t where t: "insert_row (s, j) r (t_PeerMessage d) = Some t"
      "d' = add_noack s j (filter (\<lambda>a. a \<noteq> me \<and> a \<noteq> s) (map fst (t_Server d))) (d\<lparr>t_PeerMessage := t\<rparr>)"
      by (auto simp: putRemoteMessage_def split: option.splits)
    show "db_wf d'"
      unfolding t(2) using insert_row_find [OF t(1)] insert_message_wf [OF assms t(1)] by (intro add_noack_wf) auto }
  have "acks_ok (markProcessed s j d)"
    by (rule acks_ok_mono [of d]) (use assms in \<open>auto simp: db_wf_def markProcessed_def update_row_find\<close>)
  then show "db_wf (markProcessed s j d)"
    using assms by (auto simp: markProcessed_def db_wf_def tables_ok_def row_ok)
  have "acks_ok (ackMessage s j a d)"
    by (rule acks_ok_mono [of d])
      (use assms in \<open>auto simp: db_wf_def tables_ok_def ackMessage_def smap_find_erase split: if_splits\<close>)
  then show "db_wf (ackMessage s j a d)"
    using assms by (auto simp: ackMessage_def db_wf_def tables_ok_def row_ok)
qed

lemma servers_wf:
  assumes "db_wf d"
  shows "db_wf (setServerAttribute i a v d)" "addServer me name i d = Some d' \<Longrightarrow> db_wf d'"
proof -
  show "db_wf (setServerAttribute i a v d)"
    using assms by (auto simp: setServerAttribute_def db_wf_def tables_ok_def row_ok split: option.split)
  assume a: "addServer me name i d = Some d'"
  then obtain t where t: "insert_row i name (t_Server d) = Some t" by (auto simp: addServer_def split: option.splits)
  let ?d = "d\<lparr>t_Server := t\<rparr>"
  have "acks_ok ?d"
    by (rule acks_ok_mono [of d]) (use assms in \<open>auto simp: db_wf_def insert_row_find [OF t]\<close>)
  then have wf: "db_wf ?d" using assms insert_row_ok [OF t] by (auto simp: db_wf_def tables_ok_def)
  show "db_wf d'"
  proof (cases "d' = ?d")
    case False
    then obtain n where n: "insert_all (map (\<lambda>((s, m), r). (s, m, i)) (t_PeerMessage d)) 0 (t_PeerMessageNoAck d) = Some n"
      "d' = ?d\<lparr>t_PeerMessageNoAck := n\<rparr>"
      using a t by (auto simp: addServer_def Let_def split: option.splits if_splits)
    have "smap_find (t_PeerMessage d) (s, j) \<noteq> None"
      if "(s, j, x) \<in> set (map (\<lambda>((s, m), r). (s, m, i)) (t_PeerMessage d))" for s j x
    proof -
      from that obtain r where "((s, j), r) \<in> set (t_PeerMessage d)" by auto
      then have "(s, j) \<in> fst ` set (t_PeerMessage d)" by (rule image_eqI [rotated]) simp
      then show ?thesis by (simp add: smap_find_dom)
    qed
    moreover have "x = i" if "(s, j, x) \<in> set (map (\<lambda>((s, m), r). (s, m, i)) (t_PeerMessage d))" for s j x
      using that by auto
    ultimately have "acks_ok d'"
      using wf insert_row_find [OF t] unfolding n(2)
      by (auto simp: db_wf_def acks_ok_def insert_all_find [OF n(1)] split: if_splits)
    then show ?thesis using wf insert_all_ok [OF n(1)] n(2) by (auto simp: db_wf_def tables_ok_def)
  qed (simp add: wf)
qed

section \<open>All runs\<close>

interpretation wf: full_frame "\<lambda>s s'. db_wf (sv_db s) \<longrightarrow> db_wf (sv_db s')"
  by unfold_locales
    (auto intro: contest_data_wf problem_data_wf accounts_wf peer_messages_wf servers_wf)

text \<open>
  Claim C8. Whatever a client asks, whatever message is processed and whatever a peer sends, the
  database stays well formed: each table has one row for a key and is scanned in the order of
  its key, no two users and no two groups have the same name, and every outstanding
  acknowledgement is about a stored message and a known server.
\<close>

theorem database_stays_well_formed:
  assumes "db_wf (sv_db s)"
    "ClientAction_process hash cc mb s = Inr ((), s') \<or> client_close cc s = Inr ((), s') \<or>
     Message_process server i m s = Inr (status, s') \<or>
     (\<exists>d. putRemoteMessage me server i r (sv_db s) = Some d \<and> s' = s\<lparr>sv_db := d\<rparr>)"
  shows "db_wf (sv_db s')"
  using assms(2)
proof (elim disjE exE conjE)
  assume "ClientAction_process hash cc mb s = Inr ((), s')"
  then show ?thesis using wf.keeps_ClientAction_process [of s hash cc mb] assms(1) by (simp add: keeps_def)
next
  assume "client_close cc s = Inr ((), s')"
  then show ?thesis using wf.keeps_client_close [of s cc] assms(1) by (simp add: keeps_def)
next
  assume "Message_process server i m s = Inr (status, s')"
  then show ?thesis using wf.keeps_Message_process [of s s server i m] assms(1) by (simp add: keeps_def)
next
  fix d assume "putRemoteMessage me server i r (sv_db s) = Some d" "s' = s\<lparr>sv_db := d\<rparr>"
  then show ?thesis using peer_messages_wf(2) [OF assms(1)] by simp
qed

definition example_user :: "string \<Rightarrow> user_row" where
  "example_user pw = \<lparr>u_username = ''team'', u_friendlyname = ''Team'', u_password = pw, u_type = 3, u_group = 1,
     u_bonus_points = 0, u_bonus_seconds = 0\<rparr>"

theorem database_stays_well_formed_witness:
  "\<exists>s'. Message_process 1 2 (M_Passwd \<lparr>pw_user_id = 5, pw_newpass = ''secret''\<rparr>)
       (example_server (db_empty\<lparr>t_User := [(5, example_user [])]\<rparr>)) = Inr (True, s') \<and>
     t_User (sv_db s') = [(5, example_user ''secret'')] \<and> db_wf (sv_db s')"
proof -
  let ?s = "example_server (db_empty\<lparr>t_User := [(5, example_user [])]\<rparr>)"
  let ?m = "M_Passwd \<lparr>pw_user_id = 5, pw_newpass = ''secret''\<rparr>"
  obtain s' where s': "Message_process 1 2 ?m ?s = Inr (True, s')" "t_User (sv_db s') = [(5, example_user ''secret'')]"
    by (simp add: Message_process_def process_passwd_def con_def example_server_def update_row_def db_empty_def
        markProcessed_def example_user_def)
  have "db_wf (sv_db ?s)"
    by (simp add: example_server_def db_empty_def db_wf_def tables_ok_def names_ok_def acks_ok_def smap_ok_def)
  then have "db_wf (sv_db s')"
    by (rule database_stays_well_formed [of ?s _ _ _ s' 1 2 ?m True]) (simp add: s'(1))
  with s' show ?thesis by blast
qed

end
