(* ===== verification/Replication.thy ===== *)
theory Replication
  imports Tables
begin

text \<open>
  Replication between the servers of a contest: the threads of \<^verbatim>\<open>src/abacusd.C\<close> that take
  messages from peers, process them and resend what has not been acknowledged, and the
  acknowledgements of \<^verbatim>\<open>src/udpmessenger.C\<close>. The network may lose, delay, reorder and repeat
  whatever was handed to it.
\<close>

section \<open>Threads\<close>

text \<open>The blob of a message in its row of \<^verbatim>\<open>PeerMessage\<close>.\<close>

definition blob_of :: "u32 \<times> u32 \<Rightarrow> peer_row \<Rightarrow> bytes" where
  "blob_of k r = makeBlob \<lparr>mh_server_id = fst k, mh_message_id = snd k, mh_time = r_time r,
     mh_signature = r_signature r\<rparr> (r_type_id r) (r_data r)"

text \<open>An acknowledgement: to whom, from whom, and the message.\<close>

type_synonym ack = "u32 \<times> u32 \<times> u32 \<times> u32"

definition sendAck :: "u32 \<Rightarrow> u32 \<Rightarrow> server \<Rightarrow> ack list" where
  "sendAck srv i s = (case con s of
       None \<Rightarrow> []
     | Some d \<Rightarrow> map (\<lambda>to. (to, my_id s, srv, i)) (getRemoteServers (my_id s) d))"

text \<open>
  The end of \<^verbatim>\<open>getMessage\<close> and one turn of \<^verbatim>\<open>peer_listener\<close>, on a blob that has arrived whole:
  what goes into the queue of messages, and the acknowledgements. The frames carry the
  numbers of the message in the blob.
\<close>

definition peer_listener :: "bytes \<Rightarrow> server \<Rightarrow> ((message_head \<times> message) list \<times> ack list) run" where
  "peer_listener blob s = (case splitBlob blob of
       None \<Rightarrow> Inr (([], []), s)
     | Some (h, t, data) \<Rightarrow>
         if db_default False (hasMessage (mh_server_id h) (mh_message_id h)) s
         then Inr (([], sendAck (mh_server_id h) (mh_message_id h) s), s)
         else (case buildMessage blob of
                 Built h' m \<Rightarrow> (case con s of
                     None \<Rightarrow> Inr (([], []), s)
                   | Some d \<Rightarrow> (case putRemoteMessage (my_id s) (mh_server_id h) (mh_message_id h)
                           \<lparr>r_type_id = t, r_time = mh_time h, r_signature = mh_signature h, r_data = data,
                            r_processed = False\<rparr> d of
                         None \<Rightarrow> Inr (([], []), s)
                       | Some d' \<Rightarrow> (let s' = s\<lparr>sv_db := d'\<rparr>
                                     in Inr (([(h', m)], sendAck (mh_server_id h) (mh_message_id h) s'), s'))))
               | Build_overread \<Rightarrow> Inl Overread
               | _ \<Rightarrow> Inr (([], []), s)))"

text \<open>
  \<^verbatim>\<open>getMessages\<close>: the rows that can be rebuilt, with their messages. None is a read outside
  a buffer.
\<close>

fun rebuilt :: "((u32 \<times> u32) \<times> peer_row) list \<Rightarrow> (((u32 \<times> u32) \<times> peer_row) \<times> message_head \<times> message) list option" where
  "rebuilt [] = Some []"
| "rebuilt ((k, r) # rows) = (case rebuild k r of
       Built h m \<Rightarrow> map_option (Cons ((k, r), h, m)) (rebuilt rows)
     | Build_overread \<Rightarrow> None
     | _ \<Rightarrow> rebuilt rows)"

definition resend_message :: "u32 \<Rightarrow> server \<Rightarrow> unit run" where
  "resend_message to s = (case con s of
       None \<Rightarrow> Inr ((), s)
     | Some d \<Rightarrow> (case rebuilt (getUnacked to TYPE_ID_CREATESERVER 0 d) of
           None \<Rightarrow> Inl Overread
         | Some l \<Rightarrow> (case (if l = [] then rebuilt (getUnacked to 0 1 d) else Some l) of
               None \<Rightarrow> Inl Overread
             | Some msg \<Rightarrow> Inr ((), s\<lparr>sv_network := sv_network s @ map (\<lambda>((k, r), hm). (to, blob_of k r)) msg\<rparr>))))"

fun resend_all :: "u32 list \<Rightarrow> server \<Rightarrow> unit run" where
  "resend_all [] s = Inr ((), s)"
| "resend_all (r # rs) s = bind_run (resend_message r s) (\<lambda>_. resend_all rs)"

text \<open>One turn of \<^verbatim>\<open>message_resender\<close>: the server that has acknowledged, or all after five seconds.\<close>

definition message_resender :: "server \<Rightarrow> unit run" where
  "message_resender s =
     (let (s_ack, s1) = (case sv_acks s of [] \<Rightarrow> (0, s) | r # rs \<Rightarrow> (r, s\<lparr>sv_acks := rs\<rparr>))
      in if s_ack \<noteq> 0 then resend_message s_ack s1
         else resend_all (db_default [] (getRemoteServers (my_id s1)) s1) s1)"

section \<open>Several servers\<close>

text \<open>
  Every number has a server; those that are not used stay as they are. \<open>cl_queue\<close> is the queue of
  messages to process. What was ever sent is in the field \<open>sv_network\<close> of the senders and in
  \<open>cl_acks\<close>.
\<close>

record cluster =
  cl_node :: "u32 \<Rightarrow> server"
  cl_queue :: "u32 \<Rightarrow> (message_head \<times> message) list"
  cl_acks :: "ack set"

text \<open>What replication depends on.\<close>

definition peers :: "server \<Rightarrow> string \<times> bool \<times> u32 \<times> bool \<times> (u32 \<times> bytes) list \<times> (u32, string) smap \<times>
    (u32 \<times> u32, peer_row) smap \<times> (u32 \<times> u32 \<times> u32, u32) smap" where
  "peers s = (sv_name s, sv_master s, sv_id s, sv_connected s, sv_network s, t_Server (sv_db s),
     t_PeerMessage (sv_db s), t_PeerMessageNoAck (sv_db s))"

text \<open>The messages that create servers give every number its name.\<close>

definition named :: "(u32 \<Rightarrow> string) \<Rightarrow> message \<Rightarrow> bool" where
  "named names m \<longleftrightarrow> (case m of M_CreateServer cs \<Rightarrow> cs_server_id cs \<noteq> 0 \<and> cs_name cs = names (cs_server_id cs) | _ \<Rightarrow> True)"

definition set_node :: "u32 \<Rightarrow> server \<Rightarrow> (message_head \<times> message) list \<Rightarrow> ack list \<Rightarrow> cluster \<Rightarrow> cluster" where
  "set_node n s q as c = c\<lparr>cl_node := (cl_node c)(n := s), cl_queue := (cl_queue c)(n := q), cl_acks := cl_acks c \<union> set as\<rparr>"

inductive cluster_step :: "(u32 \<Rightarrow> string) \<Rightarrow> cluster \<Rightarrow> cluster \<Rightarrow> bool" for names where
  create: "message_wf m \<Longrightarrow> named names m \<Longrightarrow> my_id (cl_node c n) \<noteq> 0 \<Longrightarrow>
    makeMessage m (cl_node c n) = Inr (Some h, s) \<Longrightarrow>
    cluster_step names c (set_node n s (cl_queue c n @ [(h, m)]) [] c)"
| deliver: "(n, blob) \<in> set (sv_network (cl_node c k)) \<Longrightarrow> peer_listener blob (cl_node c n) = Inr ((q, as), s) \<Longrightarrow>
    cluster_step names c (set_node n s (cl_queue c n @ q) as c)"
| acknowledge: "(n, a, srv, i) \<in> cl_acks c \<Longrightarrow>
    cluster_step names c (set_node n (putAck srv i a (cl_node c n)) (cl_queue c n) [] c)"
| resend: "message_resender (cl_node c n) = Inr ((), s) \<Longrightarrow>
    cluster_step names c (set_node n s (cl_queue c n) [] c)"
| handle: "cl_queue c n = (h, m) # q \<Longrightarrow>
    Message_process (mh_server_id h) (mh_message_id h) m (cl_node c n) = Inr (status, s) \<Longrightarrow>
    cluster_step names c (set_node n s q [] c)"
| restart: "rebuilt (getUnprocessedMessages (sv_db (cl_node c n))) = Some rows \<Longrightarrow>
    cluster_step names c (set_node n ((cl_node c n)\<lparr>sv_id := 0\<rparr>) (map snd rows) [] c)"
| other: "peers s = peers (cl_node c n) \<Longrightarrow> cluster_step names c (set_node n s (cl_queue c n) [] c)"

text \<open>At the start nobody has any message and the servers have the names of the configuration.\<close>

definition fresh :: "(u32 \<Rightarrow> string) \<Rightarrow> u32 \<Rightarrow> server \<Rightarrow> bool" where
  "fresh names n s \<longleftrightarrow> sv_name s = names n \<and> (sv_master s \<longrightarrow> n = 1) \<and> sv_id s = 0 \<and> sv_connected s \<and> sv_network s = [] \<and>
     t_Server (sv_db s) = [] \<and> t_PeerMessage (sv_db s) = [] \<and> t_PeerMessageNoAck (sv_db s) = []"

inductive cluster_reach :: "(u32 \<Rightarrow> string) \<Rightarrow> cluster \<Rightarrow> bool" for names where
  start: "(\<And>n. fresh names n (cl_node c n)) \<Longrightarrow> (\<And>n. cl_queue c n = []) \<Longrightarrow> cl_acks c = {} \<Longrightarrow> cluster_reach names c"
| step: "cluster_reach names c \<Longrightarrow> cluster_step names c c' \<Longrightarrow> cluster_reach names c'"

section \<open>One server\<close>

abbreviation messages :: "server \<Rightarrow> (u32 \<times> u32, peer_row) smap" where
  "messages s \<equiv> t_PeerMessage (sv_db s)"

abbreviation owes :: "server \<Rightarrow> (u32 \<times> u32 \<times> u32, u32) smap" where
  "owes s \<equiv> t_PeerMessageNoAck (sv_db s)"

text \<open>The names are right, and the number that the server takes for its own is its number or none.\<close>

definition node_ok :: "(u32 \<Rightarrow> string) \<Rightarrow> u32 \<Rightarrow> server \<Rightarrow> bool" where
  "node_ok names n s \<longleftrightarrow> sv_name s = names n \<and> (sv_master s \<longrightarrow> n = 1) \<and> sv_id s \<in> {0, n} \<and> sv_connected s \<and>
     smap_ok (t_Server (sv_db s)) \<and> smap_ok (messages s) \<and> smap_ok (owes s) \<and> acks_ok (sv_db s) \<and>
     (\<forall>i name. smap_find (t_Server (sv_db s)) i = Some name \<longrightarrow> i \<noteq> 0 \<and> name = names i)"

lemma node_ok_peers: "peers s' = peers s \<Longrightarrow> node_ok names n s' = node_ok names n s"
  by (simp add: peers_def node_ok_def acks_ok_def)

lemma node_okD:
  assumes "node_ok names n s"
  shows "sv_name s = names n" "sv_master s \<Longrightarrow> n = 1" "sv_id s = 0 \<or> sv_id s = n" "sv_connected s"
    "smap_ok (t_Server (sv_db s))" "smap_ok (messages s)" "smap_ok (owes s)" "acks_ok (sv_db s)"
    "smap_find (t_Server (sv_db s)) i = Some name \<Longrightarrow> i \<noteq> 0 \<and> name = names i"
  using assms unfolding node_ok_def by blast+

text \<open>Other tables, the same server.\<close>

lemma node_ok_db:
  assumes "node_ok names n s" "smap_ok (t_Server d)" "smap_ok (t_PeerMessage d)" "smap_ok (t_PeerMessageNoAck d)" "acks_ok d"
    "\<And>i name. smap_find (t_Server d) i = Some name \<Longrightarrow> i \<noteq> 0 \<and> name = names i"
  shows "node_ok names n (s\<lparr>sv_db := d\<rparr>)"
  using assms(2-6) node_okD(1-4) [OF assms(1)] by (simp add: node_ok_def)

lemma con_ok: "node_ok names n s \<Longrightarrow> con s = Some (sv_db s)"
  by (simp add: node_ok_def con_def)

lemma my_id_ok:
  assumes "inj names" "node_ok names n s"
  shows "my_id s \<in> {0, n}" and "smap_find (t_Server (sv_db s)) n \<noteq> None \<Longrightarrow> my_id s = n"
proof -
  let ?d = "sv_db s"
  have r: "i = n" if "(i, names n) \<in> set (t_Server ?d)" for i
  proof -
    have "smap_find (t_Server ?d) i = Some (names n)"
      using that assms(2) by (intro smap_find_member) (auto simp: node_ok_def)
    then have "names n = names i" using assms(2) by (auto simp: node_ok_def)
    with assms(1) show ?thesis by (simp add: inj_def)
  qed
  have i: "server_id (names n) ?d \<in> {0, n}"
  proof (cases "filter (\<lambda>(i, m). m = names n) (t_Server ?d)")
    case (Cons x xs)
    obtain j m where x: "x = (j, m)" by (cases x)
    have "x \<in> set (filter (\<lambda>(i, m). m = names n) (t_Server ?d))" by (simp add: Cons)
    with x have "(j, names n) \<in> set (t_Server ?d)" by auto
    from r [OF this] show ?thesis by (simp add: server_id_def Cons x)
  qed (simp add: server_id_def)
  have f: "sv_name s = names n" "sv_id s = 0 \<or> sv_id s = n" "sv_master s \<Longrightarrow> n = 1"
    using assms(2) by (simp_all add: node_ok_def)
  note id = my_id_def getId_def con_ok [OF assms(2)] Let_def f(1)
  from i f(2,3) show "my_id s \<in> {0, n}" by (cases "sv_id s = 0"; cases "sv_master s") (simp_all add: id, auto)
  assume a: "smap_find (t_Server ?d) n \<noteq> None"
  then have n: "(n, names n) \<in> set (t_Server ?d)" "n \<noteq> 0"
    using assms(2) smap_find_in [of "t_Server ?d" n] by (auto simp: node_ok_def)
  have "server_id (names n) ?d = n"
  proof (cases "filter (\<lambda>(i, m). m = names n) (t_Server ?d)")
    case Nil
    with n(1) show ?thesis by (auto simp: filter_empty_conv)
  next
    case (Cons x xs)
    obtain j m where x: "x = (j, m)" by (cases x)
    have "x \<in> set (filter (\<lambda>(i, m). m = names n) (t_Server ?d))" by (simp add: Cons)
    with x have "(j, names n) \<in> set (t_Server ?d)" by auto
    from r [OF this] show ?thesis by (simp add: server_id_def Cons x)
  qed
  with f(2) n(2) show "my_id s = n" by (cases "sv_id s = 0") (simp_all add: id)
qed

section \<open>Invariant\<close>

text \<open>What a message is, whether it has been processed or not.\<close>

definition content :: "peer_row \<Rightarrow> u32 \<times> u32 \<times> bytes \<times> bytes" where
  "content r = (r_type_id r, r_time r, r_signature r, r_data r)"

definition row_good :: "(u32 \<Rightarrow> string) \<Rightarrow> u32 \<times> u32 \<Rightarrow> peer_row \<Rightarrow> bool" where
  "row_good names k r \<longleftrightarrow> r_data r \<noteq> [] \<and> length (r_signature r) = MESSAGE_SIGNATURE_SIZE \<and>
     (\<forall>h m. buildMessage (blob_of k r) = Built h m \<longrightarrow> named names m)"

lemma content_same:
  assumes "content r' = content r"
  shows "blob_of k r' = blob_of k r" "row_good names k r' = row_good names k r"
  using assms by (simp_all add: content_def blob_of_def row_good_def)

text \<open>
  Of one server, relative to who else has which messages (\<open>F\<close>) and what their origin has
  (\<open>G\<close>): every message is at every other server or owed to it.
\<close>

definition owed :: "u32 \<Rightarrow> (u32 \<Rightarrow> u32 \<times> u32 \<Rightarrow> bool) \<Rightarrow> server \<Rightarrow> bool" where
  "owed n F s \<longleftrightarrow> (\<forall>srv i a. smap_find (messages s) (srv, i) \<noteq> None \<longrightarrow> smap_find (t_Server (sv_db s)) a \<noteq> None \<longrightarrow> a \<noteq> n \<longrightarrow>
     smap_find (owes s) (srv, i, a) \<noteq> None \<or> F a (srv, i))"

definition rows_inv :: "(u32 \<Rightarrow> string) \<Rightarrow> u32 \<Rightarrow> (u32 \<times> u32 \<Rightarrow> u32 \<times> u32 \<times> bytes \<times> bytes \<Rightarrow> bool) \<Rightarrow> server \<Rightarrow> bool" where
  "rows_inv names n G s \<longleftrightarrow> (\<forall>k r. smap_find (messages s) k = Some r \<longrightarrow> row_good names k r \<and> (fst k = n \<or> G k (content r)))"

definition net_inv :: "server \<Rightarrow> bool" where
  "net_inv s \<longleftrightarrow> (\<forall>a blob. (a, blob) \<in> set (sv_network s) \<longrightarrow>
     (\<exists>k r. smap_find (messages s) k = Some r \<and> blob = blob_of k r))"

definition node_inv :: "(u32 \<Rightarrow> string) \<Rightarrow> u32 \<Rightarrow> (u32 \<Rightarrow> u32 \<times> u32 \<Rightarrow> bool) \<Rightarrow>
    (u32 \<times> u32 \<Rightarrow> u32 \<times> u32 \<times> bytes \<times> bytes \<Rightarrow> bool) \<Rightarrow> server \<Rightarrow> bool" where
  "node_inv names n F G s \<longleftrightarrow> node_ok names n s \<and> owed n F s \<and> rows_inv names n G s \<and> net_inv s"

definition has :: "cluster \<Rightarrow> u32 \<Rightarrow> u32 \<times> u32 \<Rightarrow> bool" where
  "has c a k \<longleftrightarrow> smap_find (messages (cl_node c a)) k \<noteq> None"

definition original :: "cluster \<Rightarrow> u32 \<times> u32 \<Rightarrow> u32 \<times> u32 \<times> bytes \<times> bytes \<Rightarrow> bool" where
  "original c k x \<longleftrightarrow> (\<exists>r. smap_find (messages (cl_node c (fst k))) k = Some r \<and> content r = x)"

definition cluster_inv :: "(u32 \<Rightarrow> string) \<Rightarrow> cluster \<Rightarrow> bool" where
  "cluster_inv names c \<longleftrightarrow> (\<forall>n. node_inv names n (has c) (original c) (cl_node c n)) \<and>
     (\<forall>to a srv i. (to, a, srv, i) \<in> cl_acks c \<longrightarrow> a \<noteq> 0 \<longrightarrow> has c a (srv, i)) \<and>
     (\<forall>n h m. (h, m) \<in> set (cl_queue c n) \<longrightarrow> named names m)"

definition grows :: "server \<Rightarrow> server \<Rightarrow> bool" where
  "grows s s' \<longleftrightarrow> (\<forall>k r. smap_find (messages s) k = Some r \<longrightarrow>
     (\<exists>r'. smap_find (messages s') k = Some r' \<and> content r' = content r))"

lemma grows_same: "messages s' = messages s \<Longrightarrow> grows s s'"
  by (simp add: grows_def)

lemma grows_some: "grows s s' \<Longrightarrow> smap_find (messages s) k \<noteq> None \<Longrightarrow> smap_find (messages s') k \<noteq> None"
  unfolding grows_def by (cases "smap_find (messages s) k") (blast, metis option.distinct(1))

lemma node_inv_mono:
  assumes "node_inv names n F G s" "\<And>a k. F a k \<Longrightarrow> F' a k" "\<And>k x. G k x \<Longrightarrow> G' k x"
  shows "node_inv names n F' G' s"
proof -
  have "owed n F' s" using assms(1,2) unfolding node_inv_def owed_def by blast
  moreover have "rows_inv names n G' s" using assms(1,3) unfolding node_inv_def rows_inv_def by blast
  ultimately show ?thesis using assms(1) by (simp add: node_inv_def)
qed

lemma set_node_inv:
  assumes c: "cluster_inv names c" and s: "node_inv names n (has c) (original c) s" and g: "grows (cl_node c n) s"
    and a: "\<And>to a srv i. (to, a, srv, i) \<in> set as \<Longrightarrow> a = 0 \<or> a = n \<and> smap_find (messages s) (srv, i) \<noteq> None"
    and q: "\<And>h m. (h, m) \<in> set q \<Longrightarrow> named names m"
  shows "cluster_inv names (set_node n s q as c)"
proof -
  let ?c = "set_node n s q as c"
  have h: "has ?c a k" if "has c a k" for a k
    using that grows_some [OF g, of k] by (cases "a = n") (simp_all add: has_def set_node_def)
  have o: "original ?c k x" if "original c k x" for k x
  proof -
    from that obtain r where r: "smap_find (messages (cl_node c (fst k))) k = Some r" "content r = x"
      by (auto simp: original_def)
    show ?thesis
    proof (cases "fst k = n")
      case True
      with r g obtain r' where "smap_find (messages s) k = Some r'" "content r' = content r" unfolding grows_def by blast
      with True r(2) show ?thesis by (simp add: original_def set_node_def)
    qed (use r in \<open>simp add: original_def set_node_def\<close>)
  qed
  have "node_inv names k (has ?c) (original ?c) (cl_node ?c k)" for k
    using node_inv_mono [OF s h o] c node_inv_mono [of names k "has c" "original c" "cl_node c k" "has ?c" "original ?c"] h o
    by (cases "k = n") (auto simp: cluster_inv_def set_node_def)
  moreover have "has ?c a (srv, i)" if "(to, a, srv, i) \<in> cl_acks ?c" "a \<noteq> 0" for to a srv i
  proof (cases "(to, a, srv, i) \<in> cl_acks c")
    case True
    then have "has c a (srv, i)" using c that(2) unfolding cluster_inv_def by blast
    then show ?thesis by (rule h)
  next
    case False
    with that(1) have "(to, a, srv, i) \<in> set as" by (simp add: set_node_def)
    from a [OF this] that(2) show ?thesis by (simp add: has_def set_node_def)
  qed
  moreover have "named names m" if "(h, m) \<in> set (cl_queue ?c k)" for k h m
    using that q c unfolding cluster_inv_def by (cases "k = n") (auto simp: set_node_def)
  ultimately show ?thesis unfolding cluster_inv_def by blast
qed

lemma peersD:
  assumes "peers s' = peers s"
  shows "messages s' = messages s" "owes s' = owes s" "t_Server (sv_db s') = t_Server (sv_db s)" "sv_network s' = sv_network s"
  using assms by (simp_all add: peers_def)

lemma node_inv_peers:
  assumes "peers s' = peers s"
  shows "node_inv names n F G s' = node_inv names n F G s"
  unfolding node_inv_def owed_def rows_inv_def net_inv_def by (simp only: peersD [OF assms] node_ok_peers [OF assms])

lemma grows_peers: "peers s' = peers s \<Longrightarrow> grows s s'"
  by (rule grows_same) (rule peersD(1))

section \<open>The steps of one server\<close>

interpretation pv: run_frame "\<lambda>s s'. peers s' = peers s"
  by unfold_locales
    (auto simp: peers_def addUser_def addGroup_def putSubmission_def putMark_def putMarkFile_def putClarificationRequest_def
      putClarification_def delProblemAttribute_def setProblemAttribute_def setProblemAttribute_file_def setProblemType_def
      setProblemUpdateTime_def delProblemDependency_def addProblemDependency_def Let_def split: if_splits option.splits)

lemma node_inv_ok: "node_inv names n F G s \<Longrightarrow> node_ok names n s"
  by (simp add: node_inv_def)

text \<open>
  A change of the database that keeps all messages: new messages are good, and what is no longer
  owed has arrived.
\<close>

lemma node_inv_db:
  assumes inv: "node_inv names n F G s" and ok: "node_ok names n (s\<lparr>sv_db := d\<rparr>)"
    and keep: "\<And>k r. smap_find (messages s) k = Some r \<Longrightarrow> \<exists>r'. smap_find (t_PeerMessage d) k = Some r' \<and> content r' = content r"
    and rows: "\<And>k r. smap_find (t_PeerMessage d) k = Some r \<Longrightarrow>
      (\<exists>r0. smap_find (messages s) k = Some r0 \<and> content r = content r0) \<or> row_good names k r \<and> (fst k = n \<or> G k (content r))"
    and owe: "\<And>srv i a. smap_find (t_PeerMessage d) (srv, i) \<noteq> None \<Longrightarrow> smap_find (t_Server d) a \<noteq> None \<Longrightarrow> a \<noteq> n \<Longrightarrow>
      smap_find (t_PeerMessageNoAck d) (srv, i, a) \<noteq> None \<or> F a (srv, i) \<or>
      smap_find (messages s) (srv, i) \<noteq> None \<and> smap_find (t_Server (sv_db s)) a \<noteq> None \<and> smap_find (owes s) (srv, i, a) = None"
  shows "node_inv names n F G (s\<lparr>sv_db := d\<rparr>) \<and> grows s (s\<lparr>sv_db := d\<rparr>)"
proof -
  have ow: "owed n F s" and rw: "rows_inv names n G s" and nt: "net_inv s" using inv by (simp_all add: node_inv_def)
  have "owed n F (s\<lparr>sv_db := d\<rparr>)"
    unfolding owed_def
  proof (intro allI impI)
    fix srv i a
    assume k: "smap_find (messages (s\<lparr>sv_db := d\<rparr>)) (srv, i) \<noteq> None"
      "smap_find (t_Server (sv_db (s\<lparr>sv_db := d\<rparr>))) a \<noteq> None" "a \<noteq> n"
    then have "smap_find (t_PeerMessageNoAck d) (srv, i, a) \<noteq> None \<or> F a (srv, i) \<or>
      smap_find (messages s) (srv, i) \<noteq> None \<and> smap_find (t_Server (sv_db s)) a \<noteq> None \<and> smap_find (owes s) (srv, i, a) = None"
      by (intro owe) simp_all
    with ow k(3) have "smap_find (t_PeerMessageNoAck d) (srv, i, a) \<noteq> None \<or> F a (srv, i)" unfolding owed_def by blast
    then show "smap_find (owes (s\<lparr>sv_db := d\<rparr>)) (srv, i, a) \<noteq> None \<or> F a (srv, i)" by simp
  qed
  moreover have "rows_inv names n G (s\<lparr>sv_db := d\<rparr>)"
    unfolding rows_inv_def
  proof (intro allI impI)
    fix k r assume "smap_find (messages (s\<lparr>sv_db := d\<rparr>)) k = Some r"
    then have "smap_find (t_PeerMessage d) k = Some r" by simp
    from rows [OF this] show "row_good names k r \<and> (fst k = n \<or> G k (content r))"
    proof
      assume "\<exists>r0. smap_find (messages s) k = Some r0 \<and> content r = content r0"
      then obtain r0 where r0: "smap_find (messages s) k = Some r0" "content r = content r0" by blast
      with rw have "row_good names k r0 \<and> (fst k = n \<or> G k (content r0))" unfolding rows_inv_def by blast
      then show ?thesis unfolding r0(2) by (simp only: content_same(2) [OF r0(2)])
    qed
  qed
  moreover have g: "grows s (s\<lparr>sv_db := d\<rparr>)" unfolding grows_def using keep by simp
  moreover have "net_inv (s\<lparr>sv_db := d\<rparr>)" unfolding net_inv_def
  proof (intro allI impI)
    fix a blob assume "(a, blob) \<in> set (sv_network (s\<lparr>sv_db := d\<rparr>))"
    then have "(a, blob) \<in> set (sv_network s)" by simp
    with nt obtain k r where k: "smap_find (messages s) k = Some r" "blob = blob_of k r" unfolding net_inv_def by blast
    from keep [OF k(1)] obtain r' where r': "smap_find (t_PeerMessage d) k = Some r'" "content r' = content r" by blast
    have "blob = blob_of k r'" by (simp only: k(2) content_same(1) [OF r'(2)])
    with r'(1) show "\<exists>k r. smap_find (messages (s\<lparr>sv_db := d\<rparr>)) k = Some r \<and> blob = blob_of k r"
      by (intro exI [of _ k] exI [of _ r']) simp
  qed
  ultimately show ?thesis using ok by (simp add: node_inv_def)
qed

lemma markProcessed_inv:
  assumes "node_inv names n F G s"
  shows "node_inv names n F G (s\<lparr>sv_db := markProcessed srv i (sv_db s)\<rparr>) \<and> grows s (s\<lparr>sv_db := markProcessed srv i (sv_db s)\<rparr>)"
proof (rule node_inv_db [OF assms])
  let ?d = "markProcessed srv i (sv_db s)"
  have f: "smap_find (t_PeerMessage ?d) k = map_option (\<lambda>r. if k = (srv, i) then r\<lparr>r_processed := True\<rparr> else r)
      (smap_find (messages s) k)" for k
    by (cases "smap_find (messages s) k") (auto simp: markProcessed_def update_row_find)
  have e: "t_Server ?d = t_Server (sv_db s)" "t_PeerMessageNoAck ?d = owes s" by (simp_all add: markProcessed_def)
  have ok: "node_ok names n s" using assms by (simp add: node_inv_def)
  have ao: "acks_ok ?d"
    by (rule acks_ok_mono [OF node_okD(8) [OF ok]]) (simp_all only: e f option.map_disc_iff not_False_eq_True)
  have "smap_ok (t_PeerMessage ?d)" by (simp add: markProcessed_def update_row_ok node_okD(6) [OF ok])
  then show "node_ok names n (s\<lparr>sv_db := ?d\<rparr>)"
    by (intro node_ok_db [OF ok]) (simp_all only: e node_okD [OF ok] ao not_False_eq_True simp_thms)
  show "\<exists>r'. smap_find (t_PeerMessage ?d) k = Some r' \<and> content r' = content r" if "smap_find (messages s) k = Some r" for k r
    using that by (simp add: f content_def)
  show "(\<exists>r0. smap_find (messages s) k = Some r0 \<and> content r = content r0) \<or> row_good names k r \<and> (fst k = n \<or> G k (content r))"
    if "smap_find (t_PeerMessage ?d) k = Some r" for k r
    using that by (auto simp: f content_def)
  show "smap_find (t_PeerMessageNoAck ?d) (srv', j, a) \<noteq> None \<or> F a (srv', j) \<or>
      smap_find (messages s) (srv', j) \<noteq> None \<and> smap_find (t_Server (sv_db s)) a \<noteq> None \<and> smap_find (owes s) (srv', j, a) = None"
    if "smap_find (t_PeerMessage ?d) (srv', j) \<noteq> None" "smap_find (t_Server ?d) a \<noteq> None" for srv' j a
    using that by (auto simp: e f)
qed

text \<open>A message with a new number, and what is owed for it.\<close>

lemma add_noack_find:
  assumes "\<And>a. smap_find (t_PeerMessageNoAck d) (srv, i, a) = None"
  shows "smap_find (t_PeerMessageNoAck (add_noack srv i as d)) x =
    (if \<exists>a\<in>set as. x = (srv, i, a) then Some 0 else smap_find (t_PeerMessageNoAck d) x)"
proof -
  have "insert_all (map (\<lambda>a. (srv, i, a)) as) 0 (t_PeerMessageNoAck d) \<noteq> None"
    using assms by (auto simp: insert_all_def)
  then show ?thesis by (auto simp: add_noack_def insert_all_find split: option.split)
qed

lemma add_noack_ok:
  assumes "smap_ok (t_PeerMessageNoAck d)"
  shows "smap_ok (t_PeerMessageNoAck (add_noack srv i as d))"
  using assms by (auto simp: add_noack_def insert_all_ok split: option.split)

lemma new_message_inv:
  assumes inv: "node_inv names n F G s"
    and t: "insert_row (srv, i) r (messages s) = Some t"
    and as: "set as \<subseteq> fst ` set (t_Server (sv_db s))"
    and all: "\<And>a. smap_find (t_Server (sv_db s)) a \<noteq> None \<Longrightarrow> a \<noteq> n \<Longrightarrow> a \<in> set as \<or> F a (srv, i)"
    and good: "row_good names (srv, i) r" "srv = n \<or> G (srv, i) (content r)"
  shows "node_inv names n F G (s\<lparr>sv_db := add_noack srv i as ((sv_db s)\<lparr>t_PeerMessage := t\<rparr>)\<rparr>) \<and>
    grows s (s\<lparr>sv_db := add_noack srv i as ((sv_db s)\<lparr>t_PeerMessage := t\<rparr>)\<rparr>)"
proof (rule node_inv_db [OF inv])
  let ?d = "add_noack srv i as ((sv_db s)\<lparr>t_PeerMessage := t\<rparr>)"
  have ok: "node_ok names n s" using inv by (simp add: node_inv_def)
  have fresh: "smap_find (messages s) (srv, i) = None" using t by (auto simp: insert_row_def split: if_splits)
  have no: "smap_find (owes s) (srv, i, a) = None" for a
    using node_okD(8) [OF ok] fresh unfolding acks_ok_def by blast
  have m: "smap_find t k = (if k = (srv, i) then Some r else smap_find (messages s) k)" for k
    by (simp add: insert_row_find [OF t])
  have o: "smap_find (t_PeerMessageNoAck ?d) x = (if \<exists>a\<in>set as. x = (srv, i, a) then Some 0 else smap_find (owes s) x)" for x
    using add_noack_find [of "(sv_db s)\<lparr>t_PeerMessage := t\<rparr>" srv i as x] no by simp
  have "acks_ok ?d"
    unfolding acks_ok_def
  proof (intro allI impI)
    fix srv' j a assume a: "smap_find (t_PeerMessageNoAck ?d) (srv', j, a) \<noteq> None"
    show "smap_find (t_PeerMessage ?d) (srv', j) \<noteq> None \<and> smap_find (t_Server ?d) a \<noteq> None"
    proof (cases "(srv', j) = (srv, i) \<and> a \<in> set as")
      case True
      with as have "a \<in> fst ` set (t_Server (sv_db s))" by blast
      then have "smap_find (t_Server (sv_db s)) a \<noteq> None" by (simp add: smap_find_dom)
      with True show ?thesis by (simp add: m del: smap_find_dom)
    next
      case False
      with a have "smap_find (owes s) (srv', j, a) \<noteq> None" by (auto simp: o split: if_splits)
      with node_okD(8) [OF ok] have "smap_find (messages s) (srv', j) \<noteq> None \<and> smap_find (t_Server (sv_db s)) a \<noteq> None"
        unfolding acks_ok_def by blast
      then show ?thesis by (simp add: m)
    qed
  qed
  moreover have "smap_ok (t_PeerMessage ?d)" using insert_row_ok [OF t node_okD(6) [OF ok]] by simp
  moreover have "smap_ok (t_PeerMessageNoAck ?d)" using node_okD(7) [OF ok] by (simp add: add_noack_ok)
  ultimately show "node_ok names n (s\<lparr>sv_db := ?d\<rparr>)"
    by (intro node_ok_db [OF ok]) (simp_all add: node_okD [OF ok])
  show "\<exists>r'. smap_find (t_PeerMessage ?d) k = Some r' \<and> content r' = content r1" if "smap_find (messages s) k = Some r1" for k r1
    using that fresh by (auto simp: m)
  show "(\<exists>r0. smap_find (messages s) k = Some r0 \<and> content r1 = content r0) \<or> row_good names k r1 \<and> (fst k = n \<or> G k (content r1))"
    if "smap_find (t_PeerMessage ?d) k = Some r1" for k r1
    using that good by (cases "k = (srv, i)") (simp_all add: m)
  show "smap_find (t_PeerMessageNoAck ?d) (srv', j, a) \<noteq> None \<or> F a (srv', j) \<or>
      smap_find (messages s) (srv', j) \<noteq> None \<and> smap_find (t_Server (sv_db s)) a \<noteq> None \<and> smap_find (owes s) (srv', j, a) = None"
    if "smap_find (t_PeerMessage ?d) (srv', j) \<noteq> None" "smap_find (t_Server ?d) a \<noteq> None" "a \<noteq> n" for srv' j a
    using that all [of a] by (cases "(srv', j) = (srv, i)") (auto simp: m o)
qed

text \<open>Changes of what replication does not depend on, and of the remembered number.\<close>

lemma node_inv_id:
  assumes inv: "node_inv names n F G s" and i: "i = 0 \<or> i = n" and p: "peers s' = peers (s\<lparr>sv_id := i\<rparr>)"
  shows "node_inv names n F G s'"
proof -
  have "node_ok names n (s\<lparr>sv_id := i\<rparr>)" using inv i by (auto simp: node_inv_def node_ok_def)
  moreover have "owed n F (s\<lparr>sv_id := i\<rparr>) = owed n F s" "rows_inv names n G (s\<lparr>sv_id := i\<rparr>) = rows_inv names n G s"
    "net_inv (s\<lparr>sv_id := i\<rparr>) = net_inv s" by (simp_all add: owed_def rows_inv_def net_inv_def)
  ultimately have "node_inv names n F G (s\<lparr>sv_id := i\<rparr>)" using inv by (simp add: node_inv_def)
  then show ?thesis by (simp only: node_inv_peers [OF p])
qed

lemma ackMessage_inv:
  assumes inv: "node_inv names n F G s" and f: "a \<noteq> n \<Longrightarrow> F a (srv, i)"
  shows "node_inv names n F G (s\<lparr>sv_db := ackMessage srv i a (sv_db s)\<rparr>) \<and> grows s (s\<lparr>sv_db := ackMessage srv i a (sv_db s)\<rparr>)"
proof (rule node_inv_db [OF inv])
  let ?d = "ackMessage srv i a (sv_db s)"
  have ok: "node_ok names n s" using inv by (simp add: node_inv_def)
  have e: "t_Server ?d = t_Server (sv_db s)" "t_PeerMessage ?d = messages s" by (simp_all add: ackMessage_def)
  have o: "smap_find (t_PeerMessageNoAck ?d) x = (if x = (srv, i, a) then None else smap_find (owes s) x)" for x
    by (simp add: ackMessage_def smap_find_erase node_okD(7) [OF ok])
  have "acks_ok ?d"
  proof (rule acks_ok_mono [OF node_okD(8) [OF ok]])
    show "smap_find (owes s) k \<noteq> None" if "smap_find (t_PeerMessageNoAck ?d) k \<noteq> None" for k
      using that by (simp add: o split: if_splits)
  qed (simp_all add: e)
  moreover have "smap_ok (t_PeerMessageNoAck ?d)" by (simp add: ackMessage_def smap_ok_erase node_okD(7) [OF ok])
  ultimately show "node_ok names n (s\<lparr>sv_db := ?d\<rparr>)"
    by (intro node_ok_db [OF ok]) (simp_all only: e node_okD [OF ok] not_False_eq_True simp_thms)
  show "smap_find (t_PeerMessageNoAck ?d) (srv', j, b) \<noteq> None \<or> F b (srv', j) \<or>
      smap_find (messages s) (srv', j) \<noteq> None \<and> smap_find (t_Server (sv_db s)) b \<noteq> None \<and> smap_find (owes s) (srv', j, b) = None"
    if "smap_find (t_PeerMessage ?d) (srv', j) \<noteq> None" "smap_find (t_Server ?d) b \<noteq> None" "b \<noteq> n" for srv' j b
    using that f by (cases "(srv', j, b) = (srv, i, a)") (auto simp: e o)
  show "\<exists>r'. smap_find (t_PeerMessage ?d) k = Some r' \<and> content r' = content r" if "smap_find (messages s) k = Some r" for k r
    using that by (simp add: e)
  show "(\<exists>r0. smap_find (messages s) k = Some r0 \<and> content r = content r0) \<or> row_good names k r \<and> (fst k = n \<or> G k (content r))"
    if "smap_find (t_PeerMessage ?d) k = Some r" for k r
    using that by (simp add: e)
qed

lemma putAck_inv:
  assumes inv: "node_inv names n F G s" and f: "a \<noteq> 0 \<Longrightarrow> F a (srv, i)"
  shows "node_inv names n F G (putAck srv i a s) \<and> grows s (putAck srv i a s)"
proof (cases "a = 0 \<or> srv = 0 \<or> i = 0")
  case True
  then have p: "peers (putAck srv i a s) = peers s" by (auto simp: putAck_def peers_def Let_def)
  with inv show ?thesis by (simp add: node_inv_peers [OF p] grows_peers [OF p])
next
  case False
  have "con s = Some (sv_db s)" by (rule con_ok [OF node_inv_ok [OF inv]])
  with False have p: "peers (putAck srv i a s) = peers (s\<lparr>sv_db := ackMessage srv i a (sv_db s)\<rparr>)"
    by (simp add: putAck_def peers_def Let_def con_def split: if_splits)
  from ackMessage_inv [OF inv f] False
  have "node_inv names n F G (s\<lparr>sv_db := ackMessage srv i a (sv_db s)\<rparr>)" by blast
  moreover have "grows s (putAck srv i a s)" by (rule grows_same) (simp add: peersD(1) [OF p] ackMessage_def)
  ultimately show ?thesis by (simp add: node_inv_peers [OF p])
qed

text \<open>Handing stored messages to the network.\<close>

lemma network_inv:
  assumes "node_inv names n F G s" "\<And>a blob. (a, blob) \<in> set l \<Longrightarrow> \<exists>k r. smap_find (messages s) k = Some r \<and> blob = blob_of k r"
  shows "node_inv names n F G (s\<lparr>sv_network := sv_network s @ l\<rparr>)"
proof -
  have "net_inv (s\<lparr>sv_network := sv_network s @ l\<rparr>)" unfolding net_inv_def
  proof (intro allI impI)
    fix a blob assume "(a, blob) \<in> set (sv_network (s\<lparr>sv_network := sv_network s @ l\<rparr>))"
    then consider "(a, blob) \<in> set l" | "(a, blob) \<in> set (sv_network s)" by auto
    then show "\<exists>k r. smap_find (messages (s\<lparr>sv_network := sv_network s @ l\<rparr>)) k = Some r \<and> blob = blob_of k r"
    proof cases
      case 1
      from assms(2) [OF this] show ?thesis by simp
    next
      case 2
      with assms(1) have "\<exists>k r. smap_find (messages s) k = Some r \<and> blob = blob_of k r"
        unfolding node_inv_def net_inv_def by blast
      then show ?thesis by simp
    qed
  qed
  moreover have "owed n F (s\<lparr>sv_network := sv_network s @ l\<rparr>) = owed n F s"
    "rows_inv names n G (s\<lparr>sv_network := sv_network s @ l\<rparr>) = rows_inv names n G s"
    "node_ok names n (s\<lparr>sv_network := sv_network s @ l\<rparr>) = node_ok names n s"
    by (simp_all add: owed_def rows_inv_def node_ok_def)
  ultimately show ?thesis using assms(1) by (simp add: node_inv_def)
qed

text \<open>Making a message.\<close>

lemma buildMessage_blob_of:
  assumes "r_data r \<noteq> []" "length (r_signature r) = MESSAGE_SIGNATURE_SIZE"
  shows "splitBlob (blob_of k r) = Some (\<lparr>mh_server_id = fst k, mh_message_id = snd k, mh_time = r_time r,
      mh_signature = r_signature r\<rparr>, r_type_id r, r_data r)"
    and "buildMessage (blob_of k r) = rebuild k r"
  using assms by (simp_all add: blob_of_def splitBlob_makeBlob buildMessage_def rebuild_def)

lemma message_row_good:
  assumes "message_wf m" "named names m" "pack (storageRequired m) (store m) (replicate (unat (storageRequired m)) 0) = Some data"
  shows "row_good names k (message_row s m data i)"
proof -
  from any_pack_load [OF assms(1), of "replicate (unat (storageRequired m)) 0"] assms(3)
  have d: "data \<noteq> []" "class_load m data (u32_of (length data)) = Loaded m (length data)" by auto
  have "named names m'" if "rebuild k (message_row s m data i) = Built h m'" for h m'
  proof (cases "message_type_id m = TYPE_ID_CREATEGROUP")
    case True
    with that show ?thesis by (simp add: rebuild_def message_row_def functors_creategroup)
  next
    case False
    with that d assms(2) show ?thesis by (simp add: rebuild_def message_row_def functors_class)
  qed
  then show ?thesis using d(1) by (simp add: row_good_def buildMessage_blob_of message_row_def)
qed

lemma makeMessage_inv:
  assumes names: "inj names" and inv: "node_inv names n F G s" and m: "message_wf m" "named names m" and id: "my_id s \<noteq> 0"
    and r: "makeMessage m s = Inr (Some h, s')"
  shows "node_inv names n F G s' \<and> grows s s'"
proof -
  note ok = node_inv_ok [OF inv]
  have me: "my_id s = n" using my_id_ok(1) [OF names ok] id by simp
  obtain data i d where p: "pack (storageRequired m) (store m) (replicate (unat (storageRequired m)) 0) = Some data"
    "putLocalMessage n (message_row s m data) (sv_db s) = Some (i, d)"
    using r by (auto simp: makeMessage_def con_ok [OF ok] me split: option.splits)
  let ?l = "map (\<lambda>a. (a, blob_of (n, i) (message_row s m data i))) (getRemoteServers n d)"
  have s': "s' = s\<lparr>sv_db := d, sv_network := sv_network s @ ?l\<rparr>"
    using r by (auto simp: makeMessage_def con_ok [OF ok] me p Let_def blob_of_def message_row_def)
  obtain t where t: "insert_row (n, i) (message_row s m data i) (messages s) = Some t"
    "d = add_noack n i (filter (\<lambda>a. a \<noteq> n) (map fst (t_Server (sv_db s)))) ((sv_db s)\<lparr>t_PeerMessage := t\<rparr>)"
    using p(2) by (auto simp: putLocalMessage_def Let_def split: option.splits)
  have i: "node_inv names n F G (s\<lparr>sv_db := d\<rparr>) \<and> grows s (s\<lparr>sv_db := d\<rparr>)"
    unfolding t(2) by (rule new_message_inv [OF inv t(1)]) (auto simp: message_row_good [OF m p(1)] smap_find_dom)
  have f: "smap_find (messages (s\<lparr>sv_db := d\<rparr>)) (n, i) = Some (message_row s m data i)"
    by (simp add: t(2) insert_row_find [OF t(1)])
  have "node_inv names n F G (s\<lparr>sv_db := d, sv_network := sv_network (s\<lparr>sv_db := d\<rparr>) @ ?l\<rparr>)"
  proof (rule network_inv [OF conjunct1 [OF i]])
    fix a blob assume "(a, blob) \<in> set ?l"
    then have "blob = blob_of (n, i) (message_row s m data i)" by auto
    with f show "\<exists>k r. smap_find (messages (s\<lparr>sv_db := d\<rparr>)) k = Some r \<and> blob = blob_of k r" by blast
  qed
  with i show ?thesis by (simp add: s' grows_def)
qed

text \<open>Taking a message from a peer.\<close>

lemma sendAck_from:
  assumes "inj names" "node_ok names n s" "(to, a, srv', j) \<in> set (sendAck srv i s)"
  shows "(srv', j) = (srv, i)" "a = 0 \<or> a = n"
  using my_id_ok(1) [OF assms(1,2)] assms(3) by (auto simp: sendAck_def con_ok [OF assms(2)])

lemma peer_listener_inv:
  assumes names: "inj names" and inv: "node_inv names n F G s" and good: "row_good names k r"
    and o: "G k (content r)" "F (fst k) k" and l: "peer_listener (blob_of k r) s = Inr ((q, as), s')"
  shows "node_inv names n F G s' \<and> grows s s' \<and> (\<forall>(h, m)\<in>set q. named names m) \<and>
    (\<forall>(to, a, srv, i)\<in>set as. a = 0 \<or> a = n \<and> smap_find (messages s') (srv, i) \<noteq> None)"
proof -
  note ok = node_inv_ok [OF inv]
  obtain srv i where k: "k = (srv, i)" by (cases k)
  have d: "r_data r \<noteq> []" "length (r_signature r) = MESSAGE_SIGNATURE_SIZE" using good by (simp_all add: row_good_def)
  note pl = l [unfolded peer_listener_def buildMessage_blob_of(1) [OF d] k db_default_def con_ok [OF ok], simplified]
  note ack = sendAck_from [OF names]
  show ?thesis
  proof (cases "hasMessage srv i (sv_db s)")
    case True
    with pl have "q = []" "as = sendAck srv i s" "s' = s" by auto
    with True inv ack [OF ok] show ?thesis by (fastforce simp: grows_def hasMessage_def)
  next
    case False
    show ?thesis
    proof (cases "as = [] \<and> q = [] \<and> s' = s")
      case True
      with inv show ?thesis by (simp add: grows_def)
    next
      case new: False
      obtain h m d' where b: "buildMessage (blob_of (srv, i) r) = Built h m"
        "putRemoteMessage (my_id s) srv i (r\<lparr>r_processed := False\<rparr>) (sv_db s) = Some d'" "q = [(h, m)]"
        "as = sendAck srv i (s\<lparr>sv_db := d'\<rparr>)" "s' = s\<lparr>sv_db := d'\<rparr>"
        using pl False new by (cases r) (auto simp: Let_def split: build_result.splits option.splits)
      obtain t where t: "insert_row (srv, i) (r\<lparr>r_processed := False\<rparr>) (messages s) = Some t"
        "d' = add_noack srv i (filter (\<lambda>a. a \<noteq> my_id s \<and> a \<noteq> srv) (map fst (t_Server (sv_db s)))) ((sv_db s)\<lparr>t_PeerMessage := t\<rparr>)"
        using b(2) by (auto simp: putRemoteMessage_def split: option.splits)
      have c: "content (r\<lparr>r_processed := False\<rparr>) = content r" by (simp add: content_def)
      have "a \<in> set (filter (\<lambda>a. a \<noteq> my_id s \<and> a \<noteq> srv) (map fst (t_Server (sv_db s)))) \<or> F a (srv, i)"
        if a: "smap_find (t_Server (sv_db s)) a \<noteq> None" "a \<noteq> n" for a
      proof -
        have "a \<noteq> 0" using node_okD(9) [OF ok] a(1) by blast
        then have "a \<noteq> my_id s" using my_id_ok(1) [OF names ok] a(2) by auto
        moreover have "a \<in> fst ` set (t_Server (sv_db s))" using a(1) by (simp only: smap_find_dom not_not)
        moreover have "F srv (srv, i)" using o(2) by (simp add: k)
        ultimately show ?thesis by (cases "a = srv") (simp_all only: set_filter set_map mem_Collect_eq simp_thms)
      qed
      then have s': "node_inv names n F G s' \<and> grows s s'"
        unfolding b(5) t(2) using o(1) good
        by (intro new_message_inv [OF inv t(1)]) (auto simp: c k content_same(2) [OF c])
      then have ok': "node_ok names n s'" by (simp add: node_inv_def)
      have f: "smap_find (messages s') (srv, i) \<noteq> None" by (simp add: b(5) t(2) insert_row_find [OF t(1)])
      have "a = 0 \<or> a = n \<and> smap_find (messages s') (srv', j) \<noteq> None" if "(to, a, srv', j) \<in> set as" for to a srv' j
        using ack [OF ok'] that f unfolding b(4) b(5) [symmetric] by blast
      then have "\<forall>(to, a, srv', j)\<in>set as. a = 0 \<or> a = n \<and> smap_find (messages s') (srv', j) \<noteq> None" by blast
      moreover have "named names m" using good b(1) by (auto simp: row_good_def k)
      ultimately show ?thesis using s' by (simp add: b(3))
    qed
  qed
qed

text \<open>Resending.\<close>

lemma rebuilt_rows:
  assumes "rebuilt rows = Some l" "((k, r), h, m) \<in> set l"
  shows "(k, r) \<in> set rows \<and> rebuild k r = Built h m"
  using assms
proof (induction rows arbitrary: l)
  case (Cons x rows)
  obtain k' r' where x: "x = (k', r')" by (cases x)
  show ?case
  proof (cases "((k, r), h, m) = ((k', r'), h, m) \<and> rebuild k r = Built h m")
    case False
    with Cons.prems x obtain l' where "rebuilt rows = Some l'" "((k, r), h, m) \<in> set l'"
      by (auto split: build_result.splits)
    from Cons.IH [OF this] show ?thesis by simp
  qed (auto simp: x)
qed simp

lemma getUnacked_rows:
  "(k, r) \<in> set (getUnacked to ty limit d) \<Longrightarrow> (k, r) \<in> set (t_PeerMessage d)"
  by (auto simp: getUnacked_def Let_def split: if_splits dest: in_set_takeD)

lemma resend_message_inv:
  assumes inv: "node_inv names n F G s" and r: "resend_message to s = Inr (u, s')"
  shows "node_inv names n F G s' \<and> messages s' = messages s"
proof -
  note ok = node_inv_ok [OF inv]
  obtain l ty limit where l: "rebuilt (getUnacked to ty limit (sv_db s)) = Some l"
    "s' = s\<lparr>sv_network := sv_network s @ map (\<lambda>((k, r), hm). (to, blob_of k r)) l\<rparr>"
    using r by (auto simp: resend_message_def con_ok [OF ok] split: option.splits if_splits)
  have "\<exists>k r. smap_find (messages s) k = Some r \<and> blob = blob_of k r"
    if "(a, blob) \<in> set (map (\<lambda>((k, r), hm). (to, blob_of k r)) l)" for a blob
  proof -
    from that obtain k r h m where k: "((k, r), h, m) \<in> set l" "blob = blob_of k r" by auto
    from getUnacked_rows [OF conjunct1 [OF rebuilt_rows [OF l(1) k(1)]]]
    have "smap_find (messages s) k = Some r" by (rule smap_find_member) (rule node_okD(6) [OF ok])
    with k(2) show ?thesis by blast
  qed
  from network_inv [where l = "map (\<lambda>((k, r), hm). (to, blob_of k r)) l", OF inv this] show ?thesis by (simp add: l(2))
qed

lemma resend_all_inv:
  "node_inv names n F G s \<Longrightarrow> resend_all rs s = Inr (u, s') \<Longrightarrow> node_inv names n F G s' \<and> messages s' = messages s"
proof (induction rs arbitrary: s)
  case (Cons a rs)
  from Cons.prems(2) obtain s1 where s1: "resend_message a s = Inr ((), s1)" "resend_all rs s1 = Inr (u, s')"
    by (auto simp: bind_run_def split: sum.splits)
  from resend_message_inv [OF Cons.prems(1) s1(1)] Cons.IH [OF _ s1(2)] show ?case by simp
qed simp

lemma message_resender_inv:
  assumes inv: "node_inv names n F G s" and r: "message_resender s = Inr (u, s')"
  shows "node_inv names n F G s' \<and> grows s s'"
proof -
  have p: "peers (s\<lparr>sv_acks := l\<rparr>) = peers s" for l by (simp add: peers_def)
  from inv have inv': "node_inv names n F G (s\<lparr>sv_acks := l\<rparr>)" for l by (simp only: node_inv_peers [OF p])
  have "node_inv names n F G s' \<and> messages s' = messages s"
  proof (cases "sv_acks s")
    case Nil
    with r resend_all_inv [OF inv] show ?thesis by (auto simp: message_resender_def)
  next
    case (Cons a as)
    with r resend_message_inv [OF inv' [of as]] resend_all_inv [OF inv' [of as]] show ?thesis
      by (fastforce simp: message_resender_def split: if_splits)
  qed
  then show ?thesis by (simp add: grows_same)
qed

text \<open>A new server.\<close>

lemma addServer_inv:
  assumes names: "inj names" and inv: "node_inv names n F G s" and a: "a \<noteq> 0"
    and t: "insert_row a (names a) (t_Server (sv_db s)) = Some t"
    and d: "addServer (my_id (s\<lparr>sv_db := (sv_db s)\<lparr>t_Server := t\<rparr>\<rparr>)) (names a) a (sv_db s) = Some d"
  shows "node_ok names n (s\<lparr>sv_db := (sv_db s)\<lparr>t_Server := t\<rparr>\<rparr>)" (is ?ok)
    and "node_inv names n F G (s\<lparr>sv_db := d\<rparr>) \<and> t_PeerMessage d = messages s" (is ?inv)
proof -
  note ok = node_inv_ok [OF inv]
  let ?s = "s\<lparr>sv_db := (sv_db s)\<lparr>t_Server := t\<rparr>\<rparr>"
  have f: "smap_find t x = (if x = a then Some (names a) else smap_find (t_Server (sv_db s)) x)" for x
    by (rule insert_row_find [OF t])
  have new: "smap_find (t_Server (sv_db s)) a = None" using t by (auto simp: insert_row_def split: if_splits)
  have no: "smap_find (owes s) (srv, i, a) = None" for srv i
    using node_okD(8) [OF ok] new unfolding acks_ok_def by blast
  have to: "smap_ok t" by (rule insert_row_ok [OF t node_okD(5) [OF ok]])
  have tn: "x \<noteq> 0 \<and> name = names x" if "smap_find t x = Some name" for x name
    using that a node_okD(9) [OF ok] by (auto simp: f split: if_splits)
  have "acks_ok ((sv_db s)\<lparr>t_Server := t\<rparr>)"
    by (rule acks_ok_mono [OF node_okD(8) [OF ok]]) (simp_all add: f)
  then show s1: ?ok
    by (intro node_ok_db [OF ok]) (simp_all add: to tn node_okD(6,7) [OF ok])
  let ?new = "map (\<lambda>((s, m), r). (s, m, a)) (messages s)"
  have "insert_all ?new 0 (owes s) = Some (fold (\<lambda>k. smap_put k 0) ?new (owes s))"
    using no by (auto simp: insert_all_def)
  then have d': "d = (sv_db s)\<lparr>t_Server := t, t_PeerMessageNoAck :=
      if a = my_id ?s then owes s else fold (\<lambda>k. smap_put k 0) ?new (owes s)\<rparr>"
    using d t by (auto simp: addServer_def Let_def)
  have me: "a = my_id ?s \<Longrightarrow> a = n" using my_id_ok(1) [OF names s1] a by auto
  have k: "(srv, i, x) \<in> set ?new \<longleftrightarrow> x = a \<and> smap_find (messages s) (srv, i) \<noteq> None" for srv i x
    unfolding smap_find_dom by force
  have o: "smap_find (t_PeerMessageNoAck d) (srv, i, x) =
      (if a \<noteq> my_id ?s \<and> x = a \<and> smap_find (messages s) (srv, i) \<noteq> None then Some 0 else smap_find (owes s) (srv, i, x))" for srv i x
  proof (cases "a = my_id ?s")
    case False
    then have "t_PeerMessageNoAck d = fold (\<lambda>k. smap_put k 0) ?new (owes s)" by (simp add: d')
    then show ?thesis using fold_put_find [of 0 ?new "owes s" "(srv, i, x)"] False by (simp only: k simp_thms)
  qed (simp add: d')
  have "acks_ok d"
    unfolding acks_ok_def
  proof (intro allI impI)
    fix srv i x assume x: "smap_find (t_PeerMessageNoAck d) (srv, i, x) \<noteq> None"
    have "x = a \<and> smap_find (messages s) (srv, i) \<noteq> None \<or> smap_find (owes s) (srv, i, x) \<noteq> None"
      using x unfolding o by presburger
    with node_okD(8) [OF ok] have "smap_find (messages s) (srv, i) \<noteq> None \<and> (x = a \<or> smap_find (t_Server (sv_db s)) x \<noteq> None)"
      unfolding acks_ok_def by blast
    then show "smap_find (t_PeerMessage d) (srv, i) \<noteq> None \<and> smap_find (t_Server d) x \<noteq> None"
      by (auto simp: d' f)
  qed
  moreover have "smap_ok (t_PeerMessageNoAck d)" by (simp add: d' fold_put_ok node_okD(7) [OF ok])
  ultimately have ok': "node_ok names n (s\<lparr>sv_db := d\<rparr>)"
    by (intro node_ok_db [OF ok]) (simp_all add: d' to tn node_okD(6) [OF ok])
  have "node_inv names n F G (s\<lparr>sv_db := d\<rparr>) \<and> grows s (s\<lparr>sv_db := d\<rparr>)"
  proof (rule node_inv_db [OF inv ok'])
    show "smap_find (t_PeerMessageNoAck d) (srv, i, x) \<noteq> None \<or> F x (srv, i) \<or>
        smap_find (messages s) (srv, i) \<noteq> None \<and> smap_find (t_Server (sv_db s)) x \<noteq> None \<and> smap_find (owes s) (srv, i, x) = None"
      if p: "smap_find (t_PeerMessage d) (srv, i) \<noteq> None" "smap_find (t_Server d) x \<noteq> None" "x \<noteq> n" for srv i x
    proof -
      have "smap_find (messages s) (srv, i) \<noteq> None" using p(1) by (simp add: d')
      moreover have "x = a \<or> smap_find (t_Server (sv_db s)) x \<noteq> None" using p(2) by (simp add: d' f split: if_splits)
      moreover have "a \<noteq> my_id ?s" if "x = a" using me p(3) that by blast
      ultimately show ?thesis unfolding o by (cases "x = a") (simp_all only: simp_thms if_True if_False option.distinct, blast)
    qed
  qed (simp_all add: d')
  then show ?inv by (simp add: d')
qed

lemma server_attributes_frame:
  "t_Server (fold (\<lambda>(k, v). setServerAttribute i k v) as d) = t_Server d"
  "t_PeerMessage (fold (\<lambda>(k, v). setServerAttribute i k v) as d) = t_PeerMessage d"
  "t_PeerMessageNoAck (fold (\<lambda>(k, v). setServerAttribute i k v) as d) = t_PeerMessageNoAck d"
  by (induction as arbitrary: d) (auto simp: setServerAttribute_def split: option.split)

lemma addServer_tables:
  assumes "addServer me name i d = Some d'"
  shows "t_PeerMessage d' = t_PeerMessage d" "smap_find (t_Server d') i = Some name"
  using assms by (auto simp: addServer_def Let_def insert_row_find split: option.splits if_splits)

lemma process_createserver_adds:
  assumes "con s = Some d" "smap_find (t_Server d) (cs_server_id m) = None"
  shows "\<exists>s'. process_createserver m s = Inr (True, s') \<and> con s' = Some (sv_db s') \<and> messages s' = t_PeerMessage d \<and>
    smap_find (t_Server (sv_db s')) (cs_server_id m) \<noteq> None"
proof -
  from assms(2) obtain t where t: "insert_row (cs_server_id m) (cs_name m) (t_Server d) = Some t" by (simp add: insert_row_def)
  from wf.addServer_insert [OF this] obtain d1 where
    "addServer (my_id (remember_id (s\<lparr>sv_db := d\<lparr>t_Server := t\<rparr>\<rparr>))) (cs_name m) (cs_server_id m) d = Some d1" by blast
  with t addServer_tables [OF this] assms(1) show ?thesis
    by (auto simp: process_createserver_def Let_def putAck_def con_def server_attributes_frame remember_id_def split: if_splits)
qed

lemma process_createserver_inv:
  assumes names: "inj names" and inv: "node_inv names n F G s" and m: "named names (M_CreateServer m)"
    and r: "process_createserver m s = Inr (b, s')"
  shows "node_inv names n F G s' \<and> grows s s'"
proof (cases "insert_row (cs_server_id m) (cs_name m) (t_Server (sv_db s))")
  case None
  with r inv con_ok [OF node_inv_ok [OF inv]] show ?thesis by (simp add: process_createserver_def grows_def)
next
  case (Some t)
  let ?a = "cs_server_id m" and ?s = "s\<lparr>sv_db := (sv_db s)\<lparr>t_Server := t\<rparr>\<rparr>"
  have a: "?a \<noteq> 0" and name: "cs_name m = names ?a" using m by (simp_all add: named_def)
  note t = Some [unfolded name]
  note c = con_ok [OF node_inv_ok [OF inv]]
  have me: "my_id (remember_id ?s) = my_id ?s" by (simp add: my_id_def remember_id_def getId_def con_def Let_def split: option.split)
  from wf.addServer_insert [OF t] obtain d where d: "addServer (my_id ?s) (names ?a) ?a (sv_db s) = Some d" by blast
  note add = addServer_inv [OF names inv a t d]
  have id: "sv_id (remember_id ?s) = 0 \<or> sv_id (remember_id ?s) = n"
  proof (cases "sv_id ?s = 0")
    case True
    with con_ok [OF add(1)] have "sv_id (remember_id ?s) = my_id ?s"
      by (simp add: my_id_def remember_id_def getId_def Let_def)
    then show ?thesis using my_id_ok(1) [OF names add(1)] by auto
  qed (use node_okD(3) [OF node_inv_ok [OF inv]] in \<open>simp add: remember_id_def getId_def\<close>)
  have "s' = putAck 0 0 ?a ((remember_id ?s)\<lparr>sv_db := fold (\<lambda>(k, v). setServerAttribute ?a k v) (cs_attribs m) d\<rparr>)"
    using r by (simp add: process_createserver_def c Some me d [folded name] Let_def)
  then have "peers s' = peers (s\<lparr>sv_db := d, sv_id := sv_id (remember_id ?s)\<rparr>)"
    using a by (simp add: server_attributes_frame peers_def putAck_def Let_def remember_id_def)
  from node_inv_id [OF conjunct1 [OF add(2)] id this] show ?thesis
    using add(2) peersD(1) [OF \<open>peers s' = _\<close>] by (simp add: grows_same)
qed

text \<open>Processing a message.\<close>

lemma int_process_inv:
  assumes "inj names" "node_inv names n F G s" "named names m" "int_process m s = Inr (b, s')"
  shows "node_inv names n F G s' \<and> grows s s'"
proof (cases "\<exists>cs. m = M_CreateServer cs")
  case True
  with assms process_createserver_inv show ?thesis by auto
next
  case False
  then have "\<nexists>cs. m = M_CreateServer cs" by blast
  from pv.keeps_int_process [OF this, of s] assms(4) have "peers s' = peers s" by (simp add: keeps_def)
  with assms(2) show ?thesis using node_inv_peers grows_peers by blast
qed

lemma Message_process_inv:
  assumes "inj names" "node_inv names n F G s" "named names m" "Message_process srv i m s = Inr (b, s')"
  shows "node_inv names n F G s' \<and> grows s s'"
proof -
  obtain s1 where s1: "int_process m s = Inr (b, s1)"
    "s' = (if b \<and> sv_connected s1 then s1\<lparr>sv_db := markProcessed srv i (sv_db s1)\<rparr> else s1)"
    using assms(4) by (auto simp: Message_process_def bind_run_def split: sum.splits)
  from int_process_inv [OF assms(1-3) s1(1)] markProcessed_inv [of names n F G s1 srv i]
  show ?thesis unfolding s1(2) grows_def by (auto; metis)
qed

end
