(* ===== verification/Replicas.thy ===== *)
theory Replicas
  imports Replication
begin

text \<open>
  The servers of a contest together: what the steps of \<^verbatim>\<open>Replication\<close> keep, whatever the network
  loses, delays or repeats and whichever servers restart.
\<close>

section \<open>Invariant\<close>

lemma cluster_invD:
  assumes "cluster_inv names c"
  shows "node_inv names n (has c) (original c) (cl_node c n)"
    and "(to, a, srv, i) \<in> cl_acks c \<Longrightarrow> a \<noteq> 0 \<Longrightarrow> has c a (srv, i)"
    and "(h, m) \<in> set (cl_queue c n) \<Longrightarrow> named names m"
  using assms unfolding cluster_inv_def by blast+

text \<open>Whatever is on its way is a good message that its origin has.\<close>

lemma on_the_way:
  assumes inv: "cluster_inv names c" and b: "(n, blob) \<in> set (sv_network (cl_node c k))"
  shows "\<exists>key r. blob = blob_of key r \<and> row_good names key r \<and> original c key (content r) \<and> has c (fst key) key"
proof -
  note k = cluster_invD(1) [OF inv, of k]
  from k b obtain key r where r: "smap_find (messages (cl_node c k)) key = Some r" "blob = blob_of key r"
    unfolding node_inv_def net_inv_def by blast
  with k have g: "row_good names key r" "fst key = k \<or> original c key (content r)"
    unfolding node_inv_def rows_inv_def by blast+
  have o: "original c key (content r)" using g(2) r(1) by (auto simp: original_def)
  then have "has c (fst key) key" by (auto simp: original_def has_def)
  with r(2) g(1) o show ?thesis by blast
qed

text \<open>After a restart, the messages that were not processed.\<close>

lemma unprocessed_named:
  assumes inv: "node_inv names n F G s" and r: "rebuilt (getUnprocessedMessages (sv_db s)) = Some rows"
    and m: "(h, m) \<in> set (map snd rows)"
  shows "named names m"
proof -
  from m obtain k r where k: "((k, r), h, m) \<in> set rows" by auto
  from rebuilt_rows [OF assms(2) this] have b: "(k, r) \<in> set (messages s)" "rebuild k r = Built h m"
    by (auto simp: getUnprocessedMessages_def)
  have "smap_find (messages s) k = Some r"
    by (rule smap_find_member [OF b(1) node_okD(6) [OF node_inv_ok [OF inv]]])
  with inv have "row_good names k r" unfolding node_inv_def rows_inv_def by blast
  with b(2) show ?thesis by (simp add: row_good_def buildMessage_blob_of)
qed

lemma cluster_step_inv:
  assumes names: "inj names" and inv: "cluster_inv names c" and step: "cluster_step names c c'"
  shows "cluster_inv names c'"
  using step
proof cases
  case (create m n h s)
  from makeMessage_inv [OF names cluster_invD(1) [OF inv] create(2-5)]
  show ?thesis unfolding create(1)
    by (intro set_node_inv [OF inv]) (auto simp: create(3) dest: cluster_invD(3) [OF inv])
next
  case (deliver n blob k q as s)
  from on_the_way [OF inv deliver(2)] obtain key r where r: "blob = blob_of key r" "row_good names key r"
    "original c key (content r)" "has c (fst key) key" by blast
  from peer_listener_inv [OF names cluster_invD(1) [OF inv] r(2-4) deliver(3) [unfolded r(1)]]
  show ?thesis unfolding deliver(1)
    by (intro set_node_inv [OF inv]) (auto dest: cluster_invD(3) [OF inv])
next
  case (acknowledge n a srv i)
  from putAck_inv [OF cluster_invD(1) [OF inv] cluster_invD(2) [OF inv acknowledge(2)], of n]
  show ?thesis unfolding acknowledge(1)
    by (intro set_node_inv [OF inv]) (auto dest: cluster_invD(3) [OF inv])
next
  case (resend n s)
  from message_resender_inv [OF cluster_invD(1) [OF inv] resend(2)]
  show ?thesis unfolding resend(1)
    by (intro set_node_inv [OF inv]) (auto dest: cluster_invD(3) [OF inv])
next
  case (handle n h m q status s)
  have q: "named names m'" if "(h', m') \<in> set q" for h' m'
    by (rule cluster_invD(3) [OF inv, of h' m' n]) (simp add: handle(2) that)
  have "(h, m) \<in> set (cl_queue c n)" by (simp add: handle(2))
  from Message_process_inv [OF names cluster_invD(1) [OF inv] cluster_invD(3) [OF inv this] handle(3)]
  show ?thesis unfolding handle(1)
    by (intro set_node_inv [OF inv]) (auto dest: q)
next
  case (restart n rows)
  note q = unprocessed_named [OF cluster_invD(1) [OF inv] restart(2)]
  from node_inv_id [OF cluster_invD(1) [OF inv, of n] _ refl, of 0]
  show ?thesis unfolding restart(1)
    by (intro set_node_inv [OF inv]) (simp_all add: grows_def q del: set_map)
next
  case (other s n)
  from cluster_invD(1) [OF inv, of n] show ?thesis unfolding other(1)
    by (intro set_node_inv [OF inv])
      (auto simp: node_inv_peers [OF other(2)] grows_peers [OF other(2)] dest: cluster_invD(3) [OF inv])
qed

lemma fresh_inv:
  assumes "fresh names n s"
  shows "node_inv names n F G s"
  using assms by (simp add: node_inv_def node_ok_def owed_def rows_inv_def net_inv_def fresh_def acks_ok_def smap_ok_def)

lemma cluster_reach_inv:
  assumes "inj names" "cluster_reach names c"
  shows "cluster_inv names c"
  using assms(2)
proof induction
  case (start c)
  then show ?case by (simp add: cluster_inv_def fresh_inv)
next
  case (step c c')
  from cluster_step_inv [OF assms(1) step.IH step.hyps(2)] show ?case .
qed

section \<open>Properties\<close>

text \<open>
  Claim C4. A message is delivered or owed. Whatever the network loses, delays, reorders and repeats and
  however often servers restart: when a server has stored a message and knows another server,
  then either it still has an entry by which it resends the message to that server, or that
  server has stored the message, with the same contents.
\<close>

theorem message_delivered_or_owed:
  assumes "inj names" "cluster_reach names c" and r: "smap_find (messages (cl_node c n)) (srv, i) = Some r"
    and a: "smap_find (t_Server (sv_db (cl_node c n))) a \<noteq> None" "a \<noteq> n"
  shows "smap_find (owes (cl_node c n)) (srv, i, a) \<noteq> None \<or>
    (\<exists>r'. smap_find (messages (cl_node c a)) (srv, i) = Some r' \<and> content r' = content r)"
proof -
  have inv: "cluster_inv names c" by (rule cluster_reach_inv [OF assms(1,2)])
  note N = cluster_invD(1) [OF inv]
  have origin: "original c (srv, i) (content x)" if "smap_find (messages (cl_node c k)) (srv, i) = Some x" for k x
  proof -
    from N [of k] that have "srv = k \<or> original c (srv, i) (content x)" unfolding node_inv_def rows_inv_def by fastforce
    with that show ?thesis by (auto simp: original_def)
  qed
  from N [of n] r a have "smap_find (owes (cl_node c n)) (srv, i, a) \<noteq> None \<or> has c a (srv, i)"
    unfolding node_inv_def owed_def by blast
  then show ?thesis
  proof
    assume "has c a (srv, i)"
    then obtain r' where r': "smap_find (messages (cl_node c a)) (srv, i) = Some r'" by (auto simp: has_def)
    from origin [OF r] origin [OF r'] have "content r' = content r" by (auto simp: original_def)
    with r' show ?thesis by blast
  qed blast
qed

text \<open>A master and other servers, before anything has happened.\<close>

definition replica_name :: "u32 \<Rightarrow> string" where
  "replica_name n = replicate (unat n) CHR ''s''"

definition example_replica :: "u32 \<Rightarrow> server" where
  "example_replica n = (example_server db_empty)\<lparr>sv_name := replica_name n, sv_master := n = 1, sv_id := 0\<rparr>"

definition example_cluster :: cluster where
  "example_cluster = \<lparr>cl_node = example_replica, cl_queue = (\<lambda>n. []), cl_acks = {}\<rparr>"

definition example_peer :: CreateServer where
  "example_peer = \<lparr>cs_server_id = 2, cs_name = ''ss'', cs_attribs = []\<rparr>"

lemma example_cluster_reach: "inj replica_name" "cluster_reach replica_name example_cluster"
proof -
  have "x = y" if "replica_name x = replica_name y" for x y
  proof -
    from that have "length (replica_name x) = length (replica_name y)" by simp
    then show ?thesis by (simp add: replica_name_def word_unat_eq_iff)
  qed
  then show "inj replica_name" by (rule injI)
  show "cluster_reach replica_name example_cluster"
    by (rule cluster_reach.start)
      (simp_all add: example_cluster_def fresh_def example_replica_def example_server_def db_empty_def)
qed

theorem message_delivered_or_owed_witness:
  "\<exists>c r. cluster_reach replica_name c \<and> smap_find (messages (cl_node c 1)) (1, 1) = Some r \<and>
     (smap_find (owes (cl_node c 1)) (1, 1, 2) \<noteq> None \<or>
      (\<exists>r'. smap_find (messages (cl_node c 2)) (1, 1) = Some r' \<and> content r' = content r))"
proof -
  let ?m = "M_CreateServer example_peer" and ?n = "example_replica 1"
  have wf: "message_wf ?m" by (simp add: example_peer_def CreateServer_wf_def no_nul_def smap_ok_def)
  obtain data where p: "pack (storageRequired ?m) (store ?m) (replicate (unat (storageRequired ?m)) 0) = Some data"
    using any_pack_load [OF wf, of "replicate (unat (storageRequired ?m)) 0"] by auto
  have n: "con ?n = Some db_empty" "my_id ?n = 1"
    by (simp_all add: con_def my_id_def getId_def example_replica_def example_server_def server_id_def db_empty_def)
  have "putLocalMessage 1 row db_empty = Some (1, db_empty\<lparr>t_PeerMessage := [((1, 1), row 1)]\<rparr>)" for row
    by (simp add: putLocalMessage_def next_message_id_def select_max_def insert_row_def db_empty_def add_noack_def insert_all_def Let_def)
  then obtain h s1 where s1: "makeMessage ?m ?n = Inr (Some h, s1)" "mh_server_id h = 1" "mh_message_id h = 1"
    "sv_db s1 = db_empty\<lparr>t_PeerMessage := [((1, 1), message_row ?n ?m data 1)]\<rparr>" "con s1 = Some (sv_db s1)"
    using p n by (simp add: makeMessage_def Let_def con_def split: if_splits)
  from process_createserver_adds [OF s1(5), of example_peer] obtain s2 where
    "process_createserver example_peer s1 = Inr (True, s2)" "con s2 = Some (sv_db s2)" "messages s2 = messages s1"
    "smap_find (t_Server (sv_db s2)) 2 \<noteq> None"
    using s1(4) by (auto simp: db_empty_def example_peer_def)
  then obtain s3 where s: "Message_process 1 1 ?m s1 = Inr (True, s3)" "smap_find (messages s3) (1, 1) \<noteq> None"
    "smap_find (t_Server (sv_db s3)) 2 \<noteq> None"
    using s1(4) by (auto simp: Message_process_def con_def markProcessed_def update_row_find split: if_splits)
  then obtain r where r: "smap_find (messages s3) (1, 1) = Some r" by blast
  let ?c1 = "set_node 1 s1 [(h, ?m)] [] example_cluster"
  have "cluster_step replica_name example_cluster (set_node 1 s1 (cl_queue example_cluster 1 @ [(h, ?m)]) [] example_cluster)"
  proof (rule cluster_step.create)
    show "message_wf ?m" by (rule wf)
    show "named replica_name ?m" by code_simp
    show "my_id (cl_node example_cluster 1) \<noteq> 0" by code_simp
    show "makeMessage ?m (cl_node example_cluster 1) = Inr (Some h, s1)" using s1(1) by (simp add: example_cluster_def)
  qed
  then have c1: "cluster_step replica_name example_cluster ?c1" by (simp add: example_cluster_def)
  have "cluster_step replica_name ?c1 (set_node 1 s3 [] [] ?c1)"
    by (rule cluster_step.handle [of _ _ h ?m _ True]) (use s(1) s1(2,3) in \<open>simp_all add: set_node_def\<close>)
  with c1 have "cluster_reach replica_name (set_node 1 s3 [] [] ?c1)" (is "cluster_reach _ ?c")
    by (rule cluster_reach.step [OF cluster_reach.step [OF example_cluster_reach(2)]])
  moreover have "cl_node ?c 1 = s3" by (simp add: set_node_def)
  ultimately show ?thesis
    using message_delivered_or_owed [OF example_cluster_reach(1), of ?c 1 1 1 r 2] r s(3) by (intro exI [of _ ?c] exI [of _ r]) simp
qed

end
