(* ===== verification/Resending.thy ===== *)
theory Resending
  imports Replicas
begin

text \<open>
  What resending achieves between two servers that stay up while nothing is lost, and what stops
  it for good.
\<close>

section \<open>A round\<close>

text \<open>
  The blobs that have arrived go through \<^const>\<open>peer_listener\<close> one after the other; the
  acknowledgements are collected.
\<close>

fun listen_all :: "bytes list \<Rightarrow> server \<Rightarrow> ack list run" where
  "listen_all [] t = Inr ([], t)"
| "listen_all (b # bs) t =
     bind_run (peer_listener b t) (\<lambda>(q, as) t1. bind_run (listen_all bs t1) (\<lambda>as' t2. Inr (as @ as', t2)))"

text \<open>
  A round: server \<open>n\<close>, in state \<open>s\<close>, resends to \<open>a\<close>, in state \<open>t\<close>, and takes the acknowledgements.
\<close>

definition exchange :: "u32 \<Rightarrow> u32 \<Rightarrow> server \<times> server \<Rightarrow> (server \<times> server) option" where
  "exchange n a st = (case st of (s, t) \<Rightarrow> (case resend_message a s of
       Inl e \<Rightarrow> None
     | Inr (u, s1) \<Rightarrow> (case listen_all (map snd (drop (length (sv_network s)) (sv_network s1))) t of
           Inl e \<Rightarrow> None
         | Inr (as, t1) \<Rightarrow> Some (fold (\<lambda>(to, b, srv, i). putAck srv i b) (filter (\<lambda>(to, x). to = n) as) s1, t1))))"

fun exchanges :: "nat \<Rightarrow> u32 \<Rightarrow> u32 \<Rightarrow> server \<times> server \<Rightarrow> (server \<times> server) option" where
  "exchanges 0 n a st = Some st"
| "exchanges (Suc k) n a st = (case exchange n a st of None \<Rightarrow> None | Some st1 \<Rightarrow> exchanges k n a st1)"

text \<open>What a server owes to another, and rows that can be rebuilt.\<close>

definition owed_to :: "u32 \<Rightarrow> server \<Rightarrow> ((u32 \<times> u32) \<times> peer_row) list" where
  "owed_to a s = filter (\<lambda>((srv, i), r). smap_find (owes s) (srv, i, a) \<noteq> None) (messages s)"

definition can_send :: "(u32 \<times> u32) \<times> peer_row \<Rightarrow> bool" where
  "can_send row \<longleftrightarrow> (case row of (k, r) \<Rightarrow> fst k \<noteq> 0 \<and> snd k \<noteq> 0 \<and> r_data r \<noteq> [] \<and>
     length (r_signature r) = MESSAGE_SIGNATURE_SIZE \<and> (\<exists>h m. rebuild k r = Built h m))"

definition sender_ready :: "u32 \<Rightarrow> server \<Rightarrow> bool" where
  "sender_ready a s \<longleftrightarrow> sv_connected s \<and> smap_ok (messages s) \<and> smap_ok (owes s) \<and> list_all can_send (owed_to a s)"

definition receiver_ready :: "u32 \<Rightarrow> u32 \<Rightarrow> server \<Rightarrow> bool" where
  "receiver_ready n a t \<longleftrightarrow> sv_connected t \<and> my_id t = a \<and> a \<noteq> 0 \<and> n \<noteq> a \<and> smap_find (t_Server (sv_db t)) n \<noteq> None"

section \<open>The receiver\<close>

lemma receiver_db:
  assumes "receiver_ready n a t" "t_Server d = t_Server (sv_db t)"
  shows "receiver_ready n a (t\<lparr>sv_db := d\<rparr>)"
proof -
  have "server_id (sv_name t) d = server_id (sv_name t) (sv_db t)" by (simp add: server_id_def assms(2))
  with assms show ?thesis by (auto simp: receiver_ready_def my_id_def getId_def con_def split: if_splits)
qed

lemma sendAck_reaches:
  assumes "receiver_ready n a t"
  shows "(n, a, srv, i) \<in> set (sendAck srv i t)" "x \<in> set (sendAck srv i t) \<Longrightarrow> snd x = (a, srv, i)"
  using assms by (auto simp: sendAck_def receiver_ready_def con_def getRemoteServers_def smap_find_dom)

lemma peer_listener_takes:
  assumes t: "receiver_ready n a t" and r: "can_send (k, r)"
  shows "\<exists>q as t'. peer_listener (blob_of k r) t = Inr ((q, as), t') \<and> receiver_ready n a t' \<and>
    smap_find (messages t') k \<noteq> None \<and> (\<forall>k'. smap_find (messages t) k' \<noteq> None \<longrightarrow> smap_find (messages t') k' \<noteq> None) \<and>
    (n, a, k) \<in> set as \<and> (\<forall>x\<in>set as. snd x = (a, k))"
proof -
  obtain srv i where k: "k = (srv, i)" by (cases k)
  from r obtain h m where b: "r_data r \<noteq> []" "length (r_signature r) = MESSAGE_SIGNATURE_SIZE" "rebuild k r = Built h m"
    by (auto simp: can_send_def)
  have c: "con t = Some (sv_db t)" using t by (simp add: receiver_ready_def con_def)
  note pl = peer_listener_def buildMessage_blob_of [OF b(1,2)] b(3) db_default_def c k
  show ?thesis
  proof (cases "hasMessage srv i (sv_db t)")
    case True
    then have "peer_listener (blob_of k r) t = Inr (([], sendAck srv i t), t)" by (simp add: pl)
    with sendAck_reaches [OF t, where srv = srv and i = i] t True show ?thesis by (simp add: k hasMessage_def)
  next
    case False
    let ?r = "\<lparr>r_type_id = r_type_id r, r_time = r_time r, r_signature = r_signature r, r_data = r_data r, r_processed = False\<rparr>"
    obtain tab where tab: "insert_row (srv, i) ?r (messages t) = Some tab" using False by (simp add: insert_row_def hasMessage_def)
    obtain d where d: "putRemoteMessage (my_id t) srv i ?r (sv_db t) = Some d" "t_PeerMessage d = tab" "t_Server d = t_Server (sv_db t)"
      using tab by (simp add: putRemoteMessage_def)
    have "peer_listener (blob_of k r) t = Inr (([(h, m)], sendAck srv i (t\<lparr>sv_db := d\<rparr>)), t\<lparr>sv_db := d\<rparr>)"
      using False d(1) b(3) by (simp add: pl Let_def)
    moreover note sendAck_reaches [OF receiver_db [OF t d(3)], where srv = srv and i = i]
    ultimately show ?thesis using receiver_db [OF t d(3)] insert_row_find [OF tab] by (simp add: d(2) k)
  qed
qed

lemma listen_all_takes:
  assumes "receiver_ready n a t" "list_all can_send rows"
  shows "\<exists>as t'. listen_all (map (\<lambda>(k, r). blob_of k r) rows) t = Inr (as, t') \<and> receiver_ready n a t' \<and>
    (\<forall>k. smap_find (messages t) k \<noteq> None \<or> k \<in> fst ` set rows \<longrightarrow> smap_find (messages t') k \<noteq> None) \<and>
    (\<forall>k\<in>fst ` set rows. (n, a, k) \<in> set as) \<and> (\<forall>x\<in>set as. \<exists>k\<in>fst ` set rows. snd x = (a, k))"
  using assms
proof (induction rows arbitrary: t)
  case (Cons row rows)
  obtain k r where row: "row = (k, r)" by (cases row)
  from Cons.prems(2) have c: "can_send (k, r)" "list_all can_send rows" by (simp_all add: row)
  from peer_listener_takes [OF Cons.prems(1) c(1)] obtain q as t1 where
    t1: "peer_listener (blob_of k r) t = Inr ((q, as), t1)" "receiver_ready n a t1" "smap_find (messages t1) k \<noteq> None"
      "\<And>k'. smap_find (messages t) k' \<noteq> None \<Longrightarrow> smap_find (messages t1) k' \<noteq> None" "(n, a, k) \<in> set as" "\<forall>x\<in>set as. snd x = (a, k)"
    by blast
  from Cons.IH [OF t1(2) c(2)] obtain as' t2 where
    t2: "listen_all (map (\<lambda>(k, r). blob_of k r) rows) t1 = Inr (as', t2)" "receiver_ready n a t2"
      "\<And>k. smap_find (messages t1) k \<noteq> None \<or> k \<in> fst ` set rows \<Longrightarrow> smap_find (messages t2) k \<noteq> None"
      "\<forall>k\<in>fst ` set rows. (n, a, k) \<in> set as'" "\<forall>x\<in>set as'. \<exists>k\<in>fst ` set rows. snd x = (a, k)"
    by blast
  have "listen_all (map (\<lambda>(k, r). blob_of k r) (row # rows)) t = Inr (as @ as', t2)"
    using t1(1) t2(1) by (simp add: row bind_run_def)
  moreover have "smap_find (messages t2) k' \<noteq> None" if "smap_find (messages t) k' \<noteq> None \<or> k' \<in> fst ` set (row # rows)" for k'
  proof (cases "k' \<in> fst ` set rows")
    case False
    with that have "smap_find (messages t) k' \<noteq> None \<or> k' = k" by (auto simp: row)
    then show ?thesis using t1(3) t1(4) [of k'] t2(3) [of k'] by blast
  qed (use t2(3) in blast)
  ultimately show ?case using t2(2,4,5) t1(5,6) by (intro exI [of _ "as @ as'"] exI [of _ t2]) (auto simp: row)
qed simp

section \<open>The sender\<close>

lemma rebuilt_all:
  "list_all can_send rows \<Longrightarrow> \<exists>l. rebuilt rows = Some l \<and> map fst l = rows"
proof (induction rows)
  case (Cons row rows)
  obtain k r where row: "row = (k, r)" by (cases row)
  from Cons.prems obtain h m where "rebuild k r = Built h m" by (auto simp: row can_send_def)
  moreover from Cons obtain l where "rebuilt rows = Some l" "map fst l = rows" by auto
  ultimately show ?case by (simp add: row)
qed simp

lemma getUnacked_owed:
  "getUnacked a 0 1 (sv_db s) = take 1 (sort_key (r_time \<circ> snd) (owed_to a s))"
  "set (getUnacked a ty 0 (sv_db s)) \<subseteq> set (owed_to a s)"
  by (auto simp: getUnacked_def owed_to_def Let_def case_prod_unfold)

lemma resend_rows:
  assumes s: "sender_ready a s"
  shows "\<exists>rows. (rows = [] \<longleftrightarrow> owed_to a s = []) \<and> set rows \<subseteq> set (owed_to a s) \<and>
    resend_message a s = Inr ((), s\<lparr>sv_network := sv_network s @ map (\<lambda>(k, r). (a, blob_of k r)) rows\<rparr>)"
proof -
  have c: "con s = Some (sv_db s)" and all: "\<forall>x\<in>set (owed_to a s). can_send x"
    using s by (simp_all add: sender_ready_def con_def list_all_iff)
  have net: "map (\<lambda>((k, r), hm). (a, blob_of k r)) l = map (\<lambda>(k, r). (a, blob_of k r)) (map fst l)" for l :: "(((u32 \<times> u32) \<times> peer_row) \<times> message_head \<times> message) list"
    by (simp add: case_prod_unfold)
  let ?cs = "getUnacked a TYPE_ID_CREATESERVER 0 (sv_db s)" and ?one = "getUnacked a 0 1 (sv_db s)"
  have one: "set ?one \<subseteq> set (owed_to a s)" "?one = [] \<longleftrightarrow> owed_to a s = []"
    by (auto simp: getUnacked_owed(1) dest: in_set_takeD) (metis length_sort length_0_conv)
  from all getUnacked_owed(2) [of a TYPE_ID_CREATESERVER s] have "list_all can_send ?cs" by (auto simp: list_all_iff)
  from rebuilt_all [OF this] obtain l where l: "rebuilt ?cs = Some l" "map fst l = ?cs" by blast
  from all one(1) have "list_all can_send ?one" by (auto simp: list_all_iff)
  from rebuilt_all [OF this] obtain l' where l': "rebuilt ?one = Some l'" "map fst l' = ?one" by blast
  show ?thesis
  proof (cases "l = []")
    case True
    with l l' one show ?thesis by (intro exI [of _ ?one]) (simp add: resend_message_def c net)
  next
    case False
    with l(2) have "?cs \<noteq> []" by auto
    moreover have "set ?cs \<subseteq> set (owed_to a s)" by (rule getUnacked_owed(2))
    moreover from this \<open>?cs \<noteq> []\<close> have "owed_to a s \<noteq> []" by auto
    ultimately show ?thesis using False l by (intro exI [of _ ?cs]) (simp add: resend_message_def c net)
  qed
qed

lemma putAcks_remove:
  assumes "sv_connected s" "smap_ok (owes s)" "\<forall>x\<in>set as. \<exists>to srv i. x = (to, a, srv, i) \<and> srv \<noteq> 0 \<and> i \<noteq> 0" "a \<noteq> 0"
  shows "let s' = fold (\<lambda>(to, b, srv, i). putAck srv i b) as s
    in sv_connected s' \<and> smap_ok (owes s') \<and> messages s' = messages s \<and>
       (\<forall>srv i. smap_find (owes s') (srv, i, a) \<noteq> None \<longleftrightarrow> smap_find (owes s) (srv, i, a) \<noteq> None \<and> (a, srv, i) \<notin> snd ` set as)"
  using assms(1-3)
proof (induction as arbitrary: s)
  case (Cons x as)
  from Cons.prems(3) obtain to srv i where x: "x = (to, a, srv, i)" "srv \<noteq> 0" "i \<noteq> 0" by auto
  let ?s = "putAck srv i a s"
  have p: "sv_connected ?s" "smap_ok (owes ?s)" "messages ?s = messages s"
    "smap_find (owes ?s) y = (if y = (srv, i, a) then None else smap_find (owes s) y)" for y
    using x(2,3) assms(4) Cons.prems(1,2) by (simp_all add: putAck_def Let_def ackMessage_def smap_ok_erase smap_find_erase)
  show ?case
    using Cons.IH [of ?s] Cons.prems(3) p unfolding Let_def by (auto simp: x(1))
qed (simp add: Let_def)

lemma exchange_progress:
  assumes s: "sender_ready a s" and t: "receiver_ready n a t"
  shows "\<exists>s' t'. exchange n a (s, t) = Some (s', t') \<and> sender_ready a s' \<and> receiver_ready n a t' \<and>
    set (owed_to a s') \<subseteq> set (owed_to a s) \<and> length (owed_to a s') \<le> length (owed_to a s) - 1 \<and>
    (\<forall>row\<in>set (owed_to a s). row \<in> set (owed_to a s') \<or> smap_find (messages t') (fst row) \<noteq> None) \<and>
    (\<forall>k. smap_find (messages t) k \<noteq> None \<longrightarrow> smap_find (messages t') k \<noteq> None)"
proof -
  from resend_rows [OF s] obtain rows where rows: "rows = [] \<longleftrightarrow> owed_to a s = []" "set rows \<subseteq> set (owed_to a s)"
    and r: "resend_message a s = Inr ((), s\<lparr>sv_network := sv_network s @ map (\<lambda>(k, r). (a, blob_of k r)) rows\<rparr>)" (is "_ = Inr ((), ?s)") by blast
  have c: "list_all can_send rows" using s rows(2) by (auto simp: sender_ready_def list_all_iff)
  from listen_all_takes [OF t c] obtain as t' where
    l: "listen_all (map (\<lambda>(k, r). blob_of k r) rows) t = Inr (as, t')" "receiver_ready n a t'"
      "\<And>k. smap_find (messages t) k \<noteq> None \<or> k \<in> fst ` set rows \<Longrightarrow> smap_find (messages t') k \<noteq> None"
      "\<forall>k\<in>fst ` set rows. (n, a, k) \<in> set as" "\<forall>x\<in>set as. \<exists>k\<in>fst ` set rows. snd x = (a, k)" by blast
  let ?as = "filter (\<lambda>(to, x). to = n) as" let ?s' = "fold (\<lambda>(to, b, srv, i). putAck srv i b) ?as ?s"
  have e: "exchange n a (s, t) = Some (?s', t')"
    using l(1) by (simp add: exchange_def r comp_def case_prod_unfold)
  have acked: "(a, k) \<in> snd ` set ?as \<longleftrightarrow> k \<in> fst ` set rows" for k using l(4,5) by force
  have "\<forall>x\<in>set ?as. \<exists>to srv i. x = (to, a, srv, i) \<and> srv \<noteq> 0 \<and> i \<noteq> 0"
  proof
    fix x assume "x \<in> set ?as"
    then have "x \<in> set as" by simp
    with l(5) obtain k where k: "k \<in> fst ` set rows" "snd x = (a, k)" by blast
    with c have "fst k \<noteq> 0" "snd k \<noteq> 0" by (auto simp: list_all_iff can_send_def)
    with k(2) show "\<exists>to srv i. x = (to, a, srv, i) \<and> srv \<noteq> 0 \<and> i \<noteq> 0" by (cases x; cases k) simp
  qed
  from putAcks_remove [of ?s, OF _ _ this] s t have p: "sv_connected ?s'" "smap_ok (owes ?s')" "messages ?s' = messages s"
    "smap_find (owes ?s') (srv, i, a) \<noteq> None \<longleftrightarrow> smap_find (owes s) (srv, i, a) \<noteq> None \<and> (srv, i) \<notin> fst ` set rows" for srv i
    unfolding Let_def acked by (simp_all add: sender_ready_def receiver_ready_def)
  have o: "owed_to a ?s' = filter (\<lambda>row. fst row \<notin> fst ` set rows) (owed_to a s)"
    unfolding owed_to_def p(3) filter_filter
  proof (rule filter_cong [OF refl])
    fix x :: "(u32 \<times> u32) \<times> peer_row"
    obtain srv i r where "x = ((srv, i), r)" by (metis prod.exhaust)
    then show "(\<lambda>((srv, i), r). smap_find (owes ?s') (srv, i, a) \<noteq> None) x =
        ((\<lambda>((srv, i), r). smap_find (owes s) (srv, i, a) \<noteq> None) x \<and> fst x \<notin> fst ` set rows)"
      by (simp only: prod.case fst_conv p(4))
  qed
  have "sender_ready a ?s'" using s p(1-3) unfolding sender_ready_def o by (auto simp: list_all_iff)
  moreover have "length (owed_to a ?s') \<le> length (owed_to a s) - 1"
  proof (cases "rows = []")
    case False
    then obtain row where "row \<in> set rows" by (cases rows) auto
    with rows(2) have "length (filter (\<lambda>row. fst row \<notin> fst ` set rows) (owed_to a s)) < length (owed_to a s)"
      by (intro length_filter_less [of row]) auto
    then show ?thesis unfolding o by simp
  next
    case True
    with rows(1) show ?thesis unfolding o by simp
  qed
  ultimately show ?thesis using e l(2,3) by (intro exI [of _ ?s'] exI [of _ t']) (auto simp: o)
qed

lemma exchanges_finish:
  assumes "sender_ready a s" "receiver_ready n a t" "length (owed_to a s) \<le> k"
  shows "\<exists>s' t'. exchanges k n a (s, t) = Some (s', t') \<and> owed_to a s' = [] \<and>
    (\<forall>row\<in>set (owed_to a s). smap_find (messages t') (fst row) \<noteq> None) \<and>
    (\<forall>x. smap_find (messages t) x \<noteq> None \<longrightarrow> smap_find (messages t') x \<noteq> None)"
  using assms
proof (induction k arbitrary: s t)
  case (Suc k)
  from exchange_progress [OF Suc.prems(1,2)] obtain s1 t1 where
    e: "exchange n a (s, t) = Some (s1, t1)" "sender_ready a s1" "receiver_ready n a t1" "length (owed_to a s1) \<le> length (owed_to a s) - 1"
      "\<forall>row\<in>set (owed_to a s). row \<in> set (owed_to a s1) \<or> smap_find (messages t1) (fst row) \<noteq> None"
      "\<And>k. smap_find (messages t) k \<noteq> None \<Longrightarrow> smap_find (messages t1) k \<noteq> None" by blast
  from e(4) Suc.prems(3) have "length (owed_to a s1) \<le> k" by linarith
  from Suc.IH [OF e(2,3) this] obtain s' t' where
    "exchanges k n a (s1, t1) = Some (s', t')" "owed_to a s' = []"
      "\<forall>row\<in>set (owed_to a s1). smap_find (messages t') (fst row) \<noteq> None"
      "\<And>x. smap_find (messages t1) x \<noteq> None \<Longrightarrow> smap_find (messages t') x \<noteq> None" by blast
  with e(1,5,6) show ?case by (intro exI [of _ s'] exI [of _ t']) (simp, blast)
qed simp

section \<open>Properties\<close>


text \<open>
  A server that owes two changes of bonus points to server 2, and server 2 without any message.
\<close>

definition bonus_row :: "u32 \<Rightarrow> peer_row" where
  "bonus_row tm = \<lparr>r_type_id = TYPE_ID_SETBONUS, r_time = tm, r_signature = replicate MESSAGE_SIGNATURE_SIZE 0,
     r_data = [5, 0, 0, 0, 3, 0, 0, 0, 0, 0, 0, 0], r_processed = True\<rparr>"

definition example_sender :: "peer_row \<Rightarrow> server" where
  "example_sender r = example_server (db_empty\<lparr>t_Server := [(1, ''main''), (2, ''other'')],
     t_PeerMessage := [((1, 1), r), ((1, 2), bonus_row 20)], t_PeerMessageNoAck := [((1, 1, 2), 0), ((1, 2, 2), 0)]\<rparr>)"

definition example_receiver :: server where
  "example_receiver = (example_server (db_empty\<lparr>t_Server := [(1, ''main''), (2, ''other'')]\<rparr>))\<lparr>sv_name := ''other'',
     sv_master := False, sv_id := 2\<rparr>"

lemma example_owed:
  "owed_to 2 (example_sender r) = [((1, 1), r), ((1, 2), bonus_row 20)]"
  by (simp add: owed_to_def example_sender_def example_server_def db_empty_def)


text \<open>
  Claim C27. A message that creates a group stops resending for good. Such a message cannot be rebuilt from its row; once it
  is the oldest that is owed to a server and no server messages are owed, \<^verbatim>\<open>resend_message\<close> sends
  nothing, so however many rounds follow, none of the messages that are owed arrives.
\<close>

theorem creategroup_blocks_resending:
  assumes "sv_connected s" "list_all (\<lambda>(k, r). r_type_id r \<noteq> TYPE_ID_CREATESERVER) (owed_to a s)"
    "sort_key (r_time \<circ> snd) (owed_to a s) = (k, r) # rows" "r_type_id r = TYPE_ID_CREATEGROUP"
  shows "exchanges rounds n a (s, t) = Some (s, t)"
proof -
  have "filter (\<lambda>((srv, i), r). smap_find (owes s) (srv, i, a) \<noteq> None \<and> r_type_id r = TYPE_ID_CREATESERVER) (messages s) = []"
    using assms(2) by (auto simp: owed_to_def list_all_iff filter_empty_conv)
  then have "getUnacked a TYPE_ID_CREATESERVER 0 (sv_db s) = []" by (simp add: getUnacked_def Let_def type_id_defs)
  moreover have "rebuilt (getUnacked a 0 1 (sv_db s)) = Some []"
    using assms(3,4) by (simp add: getUnacked_owed(1) rebuild_def functors_creategroup)
  ultimately have "resend_message a s = Inr ((), s)" using assms(1) by (simp add: resend_message_def con_def)
  then have "exchange n a (s, t) = Some (s, t)" by (simp add: exchange_def)
  then show ?thesis by (induction rounds) simp_all
qed

theorem creategroup_blocks_resending_witness:
  "exchanges 1000 1 2 (example_sender ((bonus_row 10)\<lparr>r_type_id := TYPE_ID_CREATEGROUP\<rparr>), example_receiver) =
     Some (example_sender ((bonus_row 10)\<lparr>r_type_id := TYPE_ID_CREATEGROUP\<rparr>), example_receiver)"
  by (rule creategroup_blocks_resending [of _ _ "(1, 1)" "(bonus_row 10)\<lparr>r_type_id := TYPE_ID_CREATEGROUP\<rparr>" "[((1, 2), bonus_row 20)]"])
    (simp_all only: example_owed, simp_all add: example_sender_def example_server_def bonus_row_def type_id_defs)

end
