(* ===== verification/Daemon.thy ===== *)
theory Daemon
  imports Processing "HOL-Library.Multiset"
begin

text \<open>
  Two threads of \<^verbatim>\<open>src/abacusd.C\<close>: the pool of workers that serves the clients, and the thread that
  performs timed actions.
\<close>

section \<open>Workers\<close>

definition DEFAULT_MIN_IDLE_WORKERS :: int where "DEFAULT_MIN_IDLE_WORKERS = 1"
definition DEFAULT_MAX_IDLE_WORKERS :: int where "DEFAULT_MAX_IDLE_WORKERS = 2"
definition MIN_MAX_TOTAL_WORKERS :: int where "MIN_MAX_TOTAL_WORKERS = 2"

text \<open>
  \<^verbatim>\<open>ThreadedWaitableSet\<close>. Workers have numbers in the order of the calls of \<^verbatim>\<open>pthread_create\<close>,
  counted by \<open>calls\<close>; \<open>working\<close> holds what each worker has been given. The numbers of the
  configuration are ints far from the limits of the type.
\<close>

record 'w ThreadedWaitableSet =
  initial_workers :: int
  min_idle_workers :: int
  max_idle_workers :: int
  max_total_workers :: int
  idle_workers :: "nat list"
  total_workers :: int
  calls :: nat
  working :: "(nat \<times> 'w) list"

definition configure :: "int \<Rightarrow> int \<Rightarrow> int \<Rightarrow> int \<Rightarrow> 'w ThreadedWaitableSet \<Rightarrow> 'w ThreadedWaitableSet" where
  "configure c_init c_max c_max_idle c_min_idle p =
     (let max1 = (if c_max < MIN_MAX_TOTAL_WORKERS then MIN_MAX_TOTAL_WORKERS else c_max);
          min_idle = (if c_min_idle = 0 then DEFAULT_MIN_IDLE_WORKERS else c_min_idle);
          max_idle = (if c_max_idle \<le> min_idle
                      then min_idle + (DEFAULT_MAX_IDLE_WORKERS - DEFAULT_MIN_IDLE_WORKERS) else c_max_idle);
          init = (if c_init \<le> min_idle \<or> c_init > max_idle then (min_idle + max_idle + 1) div 2 else c_init);
          max2 = (if max1 < 2 * max_idle then 2 * max_idle else max1)
      in p\<lparr>initial_workers := init, min_idle_workers := min_idle, max_idle_workers := max_idle, max_total_workers := max2\<rparr>)"

text \<open>\<open>created i\<close> tells whether the call of \<^verbatim>\<open>pthread_create\<close> with number \<open>i\<close> succeeds.\<close>

definition create_worker :: "(nat \<Rightarrow> bool) \<Rightarrow> 'w ThreadedWaitableSet \<Rightarrow> 'w ThreadedWaitableSet" where
  "create_worker created p =
     (if created (calls p)
      then p\<lparr>total_workers := total_workers p + 1, idle_workers := idle_workers p @ [calls p], calls := calls p + 1\<rparr>
      else p\<lparr>calls := calls p + 1\<rparr>)"

text \<open>None: the assertion fails, or nobody is idle and the thread waits.\<close>

definition destroy_worker :: "'w ThreadedWaitableSet \<Rightarrow> 'w ThreadedWaitableSet option" where
  "destroy_worker p =
     (if total_workers p > 0 then
        (case idle_workers p of
           [] \<Rightarrow> None
         | worker # rest \<Rightarrow> Some (p\<lparr>idle_workers := rest, total_workers := total_workers p - 1\<rparr>))
      else None)"

fun create_workers :: "nat \<Rightarrow> (nat \<Rightarrow> bool) \<Rightarrow> 'w ThreadedWaitableSet \<Rightarrow> 'w ThreadedWaitableSet" where
  "create_workers 0 created p = p"
| "create_workers (Suc k) created p = create_workers k created (create_worker created p)"

text \<open>\<^verbatim>\<open>run\<close> up to the loop that waits for clients.\<close>

definition start_workers :: "(nat \<Rightarrow> bool) \<Rightarrow> int \<Rightarrow> int \<Rightarrow> int \<Rightarrow> int \<Rightarrow> 'w ThreadedWaitableSet \<Rightarrow> 'w ThreadedWaitableSet" where
  "start_workers created c_init c_max c_max_idle c_min_idle p =
     (let p1 = (configure c_init c_max c_max_idle c_min_idle p)\<lparr>total_workers := 0\<rparr>
      in create_workers (nat (initial_workers p1)) created p1)"

text \<open>The two loops of \<^verbatim>\<open>process\<close>; \<open>n\<close> is the local \<^verbatim>\<open>idle_workers\<close>.\<close>

function grow :: "(nat \<Rightarrow> bool) \<Rightarrow> int \<Rightarrow> 'w ThreadedWaitableSet \<Rightarrow> int \<times> 'w ThreadedWaitableSet" where
  "grow created n p =
     (if n - 1 < min_idle_workers p \<and> total_workers p < max_total_workers p
      then grow created (n + 1) (create_worker created p) else (n, p))"
  by pat_completeness auto
termination
  by (relation "measure (\<lambda>(created, n, p). nat (min_idle_workers p + 1 - n))") (auto simp: create_worker_def)

function shrink :: "int \<Rightarrow> 'w ThreadedWaitableSet \<Rightarrow> 'w ThreadedWaitableSet option" where
  "shrink n p =
     (if n > max_idle_workers p
      then (case destroy_worker p of None \<Rightarrow> None | Some p1 \<Rightarrow> shrink (n - 1) p1) else Some p)"
  by pat_completeness auto
termination
  by (relation "measure (\<lambda>(n, p). nat (n - max_idle_workers p))")
    (auto simp: destroy_worker_def split: if_splits list.splits)

declare grow.simps [simp del] shrink.simps [simp del]

text \<open>The worker that is given \<open>w\<close>. Workers that become idle meanwhile are seen by the next call.\<close>

definition pool_process :: "(nat \<Rightarrow> bool) \<Rightarrow> 'w \<Rightarrow> 'w ThreadedWaitableSet \<Rightarrow> (nat \<times> 'w ThreadedWaitableSet) option" where
  "pool_process created w p =
     (let (n, p1) = grow created (int (length (idle_workers p))) p
      in case shrink n p1 of
           None \<Rightarrow> None
         | Some p2 \<Rightarrow> (case idle_workers p2 of
               [] \<Rightarrow> None
             | worker # rest \<Rightarrow> Some (worker, p2\<lparr>idle_workers := rest, working := working p2 @ [(worker, w)]\<rparr>)))"

text \<open>A worker has done its work.\<close>

definition worker_idle :: "nat \<Rightarrow> 'w ThreadedWaitableSet \<Rightarrow> 'w ThreadedWaitableSet" where
  "worker_idle worker p = p\<lparr>idle_workers := idle_workers p @ [worker],
     working := filter (\<lambda>(x, w). x \<noteq> worker) (working p)\<rparr>"

section \<open>Timed actions\<close>

text \<open>
  The heap of \<^verbatim>\<open>timed_actions\<close> in the order in which its elements are popped; the only class of timed
  actions is \<^verbatim>\<open>StartStopAction\<close>, given by its time. The inner loop performs what is due.
\<close>

fun perform_due :: "time_t \<Rightarrow> time_t option \<Rightarrow> time_t list \<Rightarrow> server \<Rightarrow> (time_t option \<times> time_t list) run" where
  "perform_due now None heap s = Inr ((None, heap), s)"
| "perform_due now (Some t) [] s =
     (if t \<le> now then bind_run (StartStopAction_perform t s) (\<lambda>_ s1. Inr ((None, []), s1)) else Inr ((Some t, []), s))"
| "perform_due now (Some t) (h # heap) s =
     (if t \<le> now then bind_run (StartStopAction_perform t s) (\<lambda>_ s1. perform_due now (Some h) heap s1)
      else Inr ((Some t, h # heap), s))"

text \<open>
  The rest of a turn: an action that has arrived in the queue, if any, is taken. With nothing to do
  the thread waits for one.
\<close>

definition take_timed :: "time_t option \<times> time_t list \<Rightarrow> server \<Rightarrow> (time_t option \<times> time_t list) \<times> server" where
  "take_timed th s = (case sv_timed s of
       [] \<Rightarrow> (th, s)
     | tmp # rest \<Rightarrow> (case th of
           (None, heap) \<Rightarrow> ((Some tmp, heap), s\<lparr>sv_timed := rest\<rparr>)
         | (Some t, heap) \<Rightarrow> (if tmp < t then ((Some tmp, insort t heap), s\<lparr>sv_timed := rest\<rparr>)
                             else ((Some t, insort tmp heap), s\<lparr>sv_timed := rest\<rparr>))))"

definition timed_actions :: "time_t option \<times> time_t list \<Rightarrow> server \<Rightarrow> (time_t option \<times> time_t list) run" where
  "timed_actions th s =
     bind_run (perform_due (sv_now s) (fst th) (snd th) s) (\<lambda>th1 s1. Inr (take_timed th1 s1))"

section \<open>The pool keeps its limits\<close>

lemma configure_bounds:
  assumes "0 \<le> c_min_idle"
  shows "let p = configure c_init c_max c_max_idle c_min_idle q
    in 1 \<le> min_idle_workers p \<and> min_idle_workers p < max_idle_workers p \<and> min_idle_workers p < initial_workers p \<and>
       initial_workers p \<le> max_idle_workers p \<and> 2 * max_idle_workers p \<le> max_total_workers p"
  using assms by (auto simp: configure_def Let_def DEFAULT_MIN_IDLE_WORKERS_def DEFAULT_MAX_IDLE_WORKERS_def MIN_MAX_TOTAL_WORKERS_def)

definition configured :: "'w ThreadedWaitableSet \<Rightarrow> bool" where
  "configured p \<longleftrightarrow> 1 \<le> min_idle_workers p \<and> min_idle_workers p < max_idle_workers p \<and>
     2 * max_idle_workers p \<le> max_total_workers p"

text \<open>Every worker is idle or has one thing to do, and they are as many as \<^verbatim>\<open>_total_workers\<close> says.\<close>

definition pool_inv :: "'w ThreadedWaitableSet \<Rightarrow> bool" where
  "pool_inv p \<longleftrightarrow> configured p \<and> distinct (idle_workers p @ map fst (working p)) \<and>
     (\<forall>x\<in>set (idle_workers p @ map fst (working p)). x < calls p) \<and>
     total_workers p = int (length (idle_workers p)) + int (length (working p)) \<and> total_workers p \<le> max_total_workers p"

inductive pool_reach :: "(nat \<Rightarrow> bool) \<Rightarrow> 'w ThreadedWaitableSet \<Rightarrow> bool" for created where
  start: "0 \<le> c_min_idle \<Longrightarrow> idle_workers q = [] \<Longrightarrow> working q = [] \<Longrightarrow>
    pool_reach created (start_workers created c_init c_max c_max_idle c_min_idle q)"
| give: "pool_reach created p \<Longrightarrow> pool_process created w p = Some (worker, p') \<Longrightarrow> pool_reach created p'"
| finish: "pool_reach created p \<Longrightarrow> worker \<in> fst ` set (working p) \<Longrightarrow> pool_reach created (worker_idle worker p)"

lemma create_worker_inv:
  assumes "pool_inv p" "total_workers p < max_total_workers p"
  shows "pool_inv (create_worker created p)"
  using assms by (auto simp: pool_inv_def configured_def create_worker_def less_Suc_eq)

lemma create_worker_fields [simp]:
  "min_idle_workers (create_worker created p) = min_idle_workers p" "max_idle_workers (create_worker created p) = max_idle_workers p"
  "max_total_workers (create_worker created p) = max_total_workers p" "working (create_worker created p) = working p"
  "initial_workers (create_worker created p) = initial_workers p"
  by (simp_all add: create_worker_def)

lemma create_workers_inv:
  "pool_inv p \<Longrightarrow> total_workers p + int k \<le> max_total_workers p \<Longrightarrow> pool_inv (create_workers k created p)"
proof (induction k arbitrary: p)
  case (Suc k)
  have "total_workers (create_worker created p) + int k \<le> max_total_workers p"
    using Suc.prems(2) by (simp add: create_worker_def)
  moreover have "pool_inv (create_worker created p)" using Suc.prems by (intro create_worker_inv) simp_all
  ultimately show ?case using Suc.IH by simp
qed simp

lemma grow_inv:
  assumes "pool_inv p" "n \<le> int (length (idle_workers p))" "grow (\<lambda>i. True) n p = (n', p')"
  shows "pool_inv p' \<and> n' \<le> int (length (idle_workers p')) \<and> working p' = working p \<and>
    (n' - 1 \<ge> min_idle_workers p' \<or> total_workers p' = max_total_workers p')"
  using assms
proof (induction "\<lambda>i::nat. True" n p rule: grow.induct)
  case (1 n p)
  show ?case
  proof (cases "n - 1 < min_idle_workers p \<and> total_workers p < max_total_workers p")
    case True
    with "1.prems"(3) have g: "grow (\<lambda>i. True) (n + 1) (create_worker (\<lambda>i. True) p) = (n', p')"
      by (simp add: grow.simps [of _ n p])
    have "pool_inv (create_worker (\<lambda>i. True) p)" using True "1.prems"(1) by (intro create_worker_inv) simp_all
    moreover have "n + 1 \<le> int (length (idle_workers (create_worker (\<lambda>i. True) p)))"
      using "1.prems"(2) by (simp add: create_worker_def)
    ultimately show ?thesis using "1.hyps" [OF True _ _ g] by simp
  next
    case False
    with "1.prems"(3) have "n' = n" "p' = p" by (simp_all add: grow.simps [of _ n p] del: not_less)
    moreover have "total_workers p \<le> max_total_workers p" using "1.prems"(1) by (simp add: pool_inv_def)
    ultimately show ?thesis using False "1.prems"(1,2) by auto
  qed
qed

lemma shrink_inv:
  assumes "pool_inv p" "n \<le> int (length (idle_workers p))"
  shows "\<exists>p'. shrink n p = Some p' \<and> pool_inv p' \<and> working p' = working p \<and> max_idle_workers p' = max_idle_workers p \<and>
    min_idle_workers p' = min_idle_workers p \<and> max_total_workers p' = max_total_workers p \<and>
    int (length (idle_workers p')) = int (length (idle_workers p)) - (if n > max_idle_workers p then n - max_idle_workers p else 0)"
  using assms
proof (induction n p rule: shrink.induct)
  case (1 n p)
  show ?case
  proof (cases "n > max_idle_workers p")
    case True
    have "0 < n" using True "1.prems"(1) by (simp add: pool_inv_def configured_def)
    then obtain x xs where i: "idle_workers p = x # xs" using "1.prems"(2) by (cases "idle_workers p") auto
    let ?p = "p\<lparr>idle_workers := xs, total_workers := total_workers p - 1\<rparr>"
    have d: "destroy_worker p = Some ?p" using "1.prems"(1) i by (simp add: destroy_worker_def pool_inv_def)
    have "pool_inv ?p" using "1.prems"(1) i by (simp add: pool_inv_def configured_def)
    moreover have "n - 1 \<le> int (length (idle_workers ?p))" using "1.prems"(2) i by simp
    ultimately obtain p' where p': "shrink (n - 1) ?p = Some p'" "pool_inv p'" "working p' = working ?p" "max_idle_workers p' = max_idle_workers p"
      "min_idle_workers p' = min_idle_workers p" "max_total_workers p' = max_total_workers p"
      "int (length (idle_workers p')) = int (length xs) - (if n - 1 > max_idle_workers p then n - 1 - max_idle_workers p else 0)"
      using "1.IH" [OF True d] by auto
    moreover have "shrink n p = shrink (n - 1) ?p" using True d by (simp add: shrink.simps [of n p])
    ultimately show ?thesis using True i by (intro exI [of _ p']) auto
  next
    case False
    with "1.prems"(1) show ?thesis by (simp add: shrink.simps [of n p])
  qed
qed

lemma grow_fields:
  "grow created n p = (n', p') \<Longrightarrow> min_idle_workers p' = min_idle_workers p \<and> max_idle_workers p' = max_idle_workers p \<and>
    max_total_workers p' = max_total_workers p"
proof (induction created n p rule: grow.induct)
  case (1 created n p)
  then show ?case
    by (cases "n - 1 < min_idle_workers p \<and> total_workers p < max_total_workers p") (simp_all add: grow.simps [of _ n p])
qed

text \<open>Everything a call of \<^verbatim>\<open>process\<close> does, up to the worker it takes.\<close>

lemma pool_process_steps:
  assumes inv: "pool_inv p"
  obtains p2 where "pool_inv p2" "working p2 = working p" "max_total_workers p2 = max_total_workers p"
    "pool_process (\<lambda>i. True) w p = (case idle_workers p2 of [] \<Rightarrow> None
       | worker # rest \<Rightarrow> Some (worker, p2\<lparr>idle_workers := rest, working := working p2 @ [(worker, w)]\<rparr>))"
    "min_idle_workers p < int (length (idle_workers p2)) \<or> total_workers p2 = max_total_workers p"
proof -
  obtain n p1 where g: "grow (\<lambda>i. True) (int (length (idle_workers p))) p = (n, p1)" by (cases "grow (\<lambda>i. True) (int (length (idle_workers p))) p")
  note g1 = grow_inv [OF inv order_refl g] and gf = grow_fields [OF g]
  from shrink_inv [of p1 n] g1 obtain p2 where s: "shrink n p1 = Some p2" "pool_inv p2" "working p2 = working p1"
    "max_idle_workers p2 = max_idle_workers p1" "min_idle_workers p2 = min_idle_workers p1" "max_total_workers p2 = max_total_workers p1"
    "int (length (idle_workers p2)) = int (length (idle_workers p1)) - (if n > max_idle_workers p1 then n - max_idle_workers p1 else 0)"
    by blast
  have c: "min_idle_workers p1 < max_idle_workers p1" using inv gf by (simp add: pool_inv_def configured_def)
  have "min_idle_workers p < int (length (idle_workers p2)) \<or> total_workers p2 = max_total_workers p"
  proof (cases "n - 1 \<ge> min_idle_workers p1")
    case True
    with s(7) g1 gf c show ?thesis by (simp split: if_splits)
  next
    case False
    with g1 c have t: "total_workers p1 = max_total_workers p1" "int (length (idle_workers p2)) = int (length (idle_workers p1))"
      using s(7) by auto
    with s(2,3) g1 gf show ?thesis by (simp add: pool_inv_def)
  qed
  then show ?thesis using s g1 gf by (intro that [of p2]) (simp_all add: pool_process_def g)
qed

lemma pool_inv_give:
  "pool_inv p \<Longrightarrow> idle_workers p = x # xs \<Longrightarrow> pool_inv (p\<lparr>idle_workers := xs, working := working p @ [(x, w)]\<rparr>)"
  by (auto simp: pool_inv_def configured_def)

lemma worker_idle_inv:
  assumes inv: "pool_inv p" and x: "x \<in> fst ` set (working p)"
  shows "pool_inv (worker_idle x p)"
proof -
  have d: "distinct (map fst (working p))" using inv by (simp add: pool_inv_def)
  obtain w us vs where w: "working p = us @ (x, w) # vs" using x by (auto dest: split_list)
  with d have n: "x \<notin> fst ` set us" "x \<notin> fst ` set vs" by auto
  have "filter (\<lambda>(y, w). y \<noteq> x) l = l" if "x \<notin> fst ` set l" for l :: "(nat \<times> 'a) list"
    using that by (induction l) auto
  with n w have "filter (\<lambda>(y, w). y \<noteq> x) (working p) = us @ vs" by simp
  with inv w show ?thesis by (auto simp: pool_inv_def configured_def worker_idle_def)
qed

lemma start_workers_inv:
  assumes "0 \<le> c_min_idle" "idle_workers q = []" "working q = []"
  shows "pool_inv (start_workers created c_init c_max c_max_idle c_min_idle q)"
proof -
  let ?p = "(configure c_init c_max c_max_idle c_min_idle q)\<lparr>total_workers := 0\<rparr>"
  have c: "1 \<le> min_idle_workers ?p" "min_idle_workers ?p < max_idle_workers ?p" "initial_workers ?p \<le> max_idle_workers ?p"
    "2 * max_idle_workers ?p \<le> max_total_workers ?p" using configure_bounds [OF assms(1), of c_init c_max c_max_idle q] by (simp_all add: Let_def)
  have "idle_workers ?p = []" "working ?p = []" using assms(2,3) by (simp_all add: configure_def Let_def)
  with c have "pool_inv ?p" by (simp add: pool_inv_def configured_def)
  then show ?thesis unfolding start_workers_def Let_def by (rule create_workers_inv) (use c in simp)
qed

lemma pool_reach_inv: "pool_reach (\<lambda>i. True) p \<Longrightarrow> pool_inv p"
proof (induction rule: pool_reach.induct)
  case (give p w worker p')
  from pool_process_steps [OF give.IH, of w] obtain p2 where p2: "pool_inv p2"
    "pool_process (\<lambda>i. True) w p = (case idle_workers p2 of [] \<Rightarrow> None
       | worker # rest \<Rightarrow> Some (worker, p2\<lparr>idle_workers := rest, working := working p2 @ [(worker, w)]\<rparr>))" by blast
  with give.hyps(2) obtain xs where "idle_workers p2 = worker # xs" "p' = p2\<lparr>idle_workers := xs, working := working p2 @ [(worker, w)]\<rparr>"
    by (auto split: list.splits)
  with pool_inv_give [OF p2(1)] show ?case by simp
qed (simp_all add: start_workers_inv worker_idle_inv)

text \<open>
  Claim C20. The loops of \<^verbatim>\<open>process\<close> end and the pool serves. With any configuration whose
  number of idle workers is not negative, and as long as threads can be created: when fewer than
  the maximal number of workers are at work, a waiting client is given at once to a worker that
  has nothing else to do; there are never more workers than the maximum, every worker
  is idle or at work for one client, and enough idle workers remain unless the
  maximum is reached.
\<close>

theorem pool_serves:
  assumes r: "pool_reach (\<lambda>i. True) p" and room: "int (length (working p)) < max_total_workers p"
  shows "\<exists>x p'. pool_process (\<lambda>i. True) w p = Some (x, p') \<and> x \<notin> fst ` set (working p) \<and> working p' = working p @ [(x, w)] \<and>
    total_workers p' = int (length (idle_workers p')) + int (length (working p')) \<and> total_workers p' \<le> max_total_workers p \<and>
    (min_idle_workers p \<le> int (length (idle_workers p')) \<or> total_workers p' = max_total_workers p)"
proof -
  note inv = pool_reach_inv [OF r]
  from pool_process_steps [OF inv, of w] obtain p2 where p2: "pool_inv p2" "working p2 = working p" "max_total_workers p2 = max_total_workers p"
    "pool_process (\<lambda>i. True) w p = (case idle_workers p2 of [] \<Rightarrow> None
       | worker # rest \<Rightarrow> Some (worker, p2\<lparr>idle_workers := rest, working := working p2 @ [(worker, w)]\<rparr>))"
    "min_idle_workers p < int (length (idle_workers p2)) \<or> total_workers p2 = max_total_workers p" by blast
  have "1 \<le> min_idle_workers p" using inv by (simp add: pool_inv_def configured_def)
  with p2 room obtain x xs where i: "idle_workers p2 = x # xs" by (cases "idle_workers p2") (auto simp: pool_inv_def)
  from pool_inv_give [OF p2(1) i, of w] have "pool_inv (p2\<lparr>idle_workers := xs, working := working p2 @ [(x, w)]\<rparr>)" .
  then show ?thesis using p2 i
    by (intro exI [of _ x] exI [of _ "p2\<lparr>idle_workers := xs, working := working p2 @ [(x, w)]\<rparr>"]) (auto simp: pool_inv_def)
qed

definition idle_pool :: "'w ThreadedWaitableSet" where
  "idle_pool = \<lparr>initial_workers = 0, min_idle_workers = 0, max_idle_workers = 0, max_total_workers = 0, idle_workers = [],
     total_workers = 0, calls = 0, working = []\<rparr>"

theorem pool_serves_witness:
  "\<exists>x p'. pool_process (\<lambda>i. True) ''client'' (start_workers (\<lambda>i. True) 0 0 0 0 idle_pool) = Some (x, p') \<and> working p' = [(x, ''client'')]"
proof -
  let ?p = "start_workers (\<lambda>i. True) 0 0 0 0 idle_pool :: string ThreadedWaitableSet"
  have "pool_reach (\<lambda>i. True) ?p" by (rule pool_reach.start) (simp_all add: idle_pool_def)
  moreover have w: "working ?p = []" by code_simp
  moreover have "int (length (working ?p)) < max_total_workers ?p" by code_simp
  ultimately show ?thesis using pool_serves [of ?p "''client''"] by auto
qed

section \<open>Timed actions are on time\<close>

definition pending :: "time_t option \<times> time_t list \<Rightarrow> time_t list" where
  "pending th = (case fst th of None \<Rightarrow> [] | Some t \<Rightarrow> [t]) @ snd th"

definition timed_ok :: "time_t option \<times> time_t list \<Rightarrow> bool" where
  "timed_ok th \<longleftrightarrow> sorted (pending th) \<and> (fst th = None \<longrightarrow> snd th = [])"

fun perform_all :: "time_t list \<Rightarrow> server \<Rightarrow> unit run" where
  "perform_all [] s = Inr ((), s)"
| "perform_all (t # ts) s = bind_run (StartStopAction_perform t s) (\<lambda>_. perform_all ts)"

lemma with_hub_timed: "with_hub f s = Inr (u, s') \<Longrightarrow> sv_timed s' = sv_timed s"
  by (auto simp: with_hub_def split: option.splits)

lemma perform_groups_timed: "perform_groups tm gs s = Inr (u, s') \<Longrightarrow> sv_timed s' = sv_timed s"
proof (induction gs arbitrary: s)
  case (Cons g gs)
  obtain old new t where t: "updateGroupState (sv_timer s) (sv_now s) g tm = (old, new, t)" by (metis prod.exhaust)
  from Cons.prems obtain s1 where s1: "perform_groups tm gs s1 = Inr (u, s')" "sv_timed s1 = sv_timed s"
    by (auto simp: t bind_run_def split: sum.splits if_splits dest: with_hub_timed)
  with Cons.IH show ?case by simp
qed simp

lemma perform_all_timed: "perform_all ts s = Inr (u, s') \<Longrightarrow> sv_timed s' = sv_timed s"
  by (induction ts arbitrary: s)
    (auto simp: bind_run_def StartStopAction_perform_def split: sum.splits dest: perform_groups_timed)

lemma perform_due_steps:
  assumes "sorted (t # heap)" "perform_due now (Some t) heap s = Inr (th, s')"
  shows "perform_all (filter (\<lambda>x. x \<le> now) (t # heap)) s = Inr ((), s') \<and> pending th = filter (\<lambda>x. now < x) (t # heap) \<and>
    (fst th = None \<longrightarrow> snd th = [])"
  using assms
proof (induction heap arbitrary: t s)
  case Nil
  then show ?case by (auto simp: pending_def bind_run_def split: sum.splits if_splits)
next
  case (Cons h heap)
  show ?case
  proof (cases "t \<le> now")
    case True
    with Cons.prems(2) obtain s1 where s1: "StartStopAction_perform t s = Inr ((), s1)" "perform_due now (Some h) heap s1 = Inr (th, s')"
      by (auto simp: bind_run_def split: sum.splits)
    with Cons.IH [OF _ s1(2)] Cons.prems(1) True show ?thesis by (simp add: bind_run_def)
  next
    case False
    with Cons.prems(1) have later: "now < x" if "x \<in> set (h # heap)" for x using that by fastforce
    then have "filter (\<lambda>x. x \<le> now) (h # heap) = []" "filter (\<lambda>x. now < x) (h # heap) = h # heap"
      by (auto simp: filter_empty_conv filter_id_conv not_le simp del: filter.simps)
    moreover from Cons.prems(2) False have "th = (Some t, h # heap)" "s' = s" by simp_all
    ultimately show ?thesis using False by (simp add: pending_def)
  qed
qed

lemma take_timed_keeps:
  assumes "timed_ok th" "take_timed th s = (th', s')"
  shows "timed_ok th' \<and> mset (pending th') + mset (sv_timed s') = mset (pending th) + mset (sv_timed s) \<and>
    s' = s\<lparr>sv_timed := sv_timed s'\<rparr>"
proof (cases "sv_timed s")
  case (Cons tmp rest)
  show ?thesis
  proof (cases "fst th")
    case None
    with assms Cons show ?thesis by (cases th) (auto simp: take_timed_def timed_ok_def pending_def)
  next
    case (Some t)
    then obtain heap where th: "th = (Some t, heap)" by (cases th) simp
    with assms(1) have "sorted heap" "\<forall>x\<in>set heap. t \<le> x" by (simp_all add: timed_ok_def pending_def)
    moreover from this have "tmp < t \<longrightarrow> (\<forall>x\<in>set heap. tmp \<le> x)" by fastforce
    ultimately show ?thesis using assms(2) th Cons
      by (auto simp: take_timed_def timed_ok_def pending_def sorted_insort set_insort_key split: if_splits)
  qed
qed (use assms in \<open>simp add: take_timed_def\<close>)

text \<open>
  Claim C21. Timed actions are performed in time and in order, and none is lost. One turn of \<^verbatim>\<open>timed_actions\<close> performs
  exactly the waiting actions whose time has come, the earlier ones first, and changes nothing else; what is left, with
  what has been queued meanwhile, is waiting or in the queue as before, and the action
  that is due next is again the first.
\<close>

theorem timed_actions_on_time:
  assumes "timed_ok th" "timed_actions th s = Inr (th', s')"
  shows "\<exists>due s1. due = filter (\<lambda>t. t \<le> sv_now s) (pending th) \<and> sorted due \<and> perform_all due s = Inr ((), s1) \<and>
    mset due + mset (pending th') + mset (sv_timed s') = mset (pending th) + mset (sv_timed s) \<and> timed_ok th' \<and>
    s' = s1\<lparr>sv_timed := sv_timed s'\<rparr>"
proof -
  let ?due = "filter (\<lambda>t. t \<le> sv_now s) (pending th)" and ?left = "filter (\<lambda>t. sv_now s < t) (pending th)"
  from assms(2) obtain th1 s1 where p: "perform_due (sv_now s) (fst th) (snd th) s = Inr (th1, s1)" "take_timed th1 s1 = (th', s')"
    by (auto simp: timed_actions_def bind_run_def split: sum.splits)
  have s: "sorted (pending th)" using assms(1) by (simp add: timed_ok_def)
  have q: "perform_all ?due s = Inr ((), s1) \<and> pending th1 = ?left \<and> (fst th1 = None \<longrightarrow> snd th1 = [])"
  proof (cases "fst th")
    case None
    with assms(1) p(1) show ?thesis by (auto simp: pending_def timed_ok_def)
  next
    case (Some t)
    then have pt: "pending th = t # snd th" by (simp add: pending_def)
    show ?thesis unfolding pt by (rule perform_due_steps) (use s p(1) Some pt in simp_all)
  qed
  have sl: "sorted ?left" using s by (rule sorted_wrt_filter)
  have "timed_ok th1" unfolding timed_ok_def using q sl by metis
  note k = take_timed_keeps [OF this p(2)]
  have e: "pending th1 = ?left" "sv_timed s1 = sv_timed s" using q perform_all_timed by blast+
  have "mset (pending th) = mset ?due + mset ?left"
    using multiset_partition [of "mset (pending th)" "\<lambda>t. t \<le> sv_now s"] by (simp add: not_le)
  then have "mset ?due + mset (pending th') + mset (sv_timed s') = mset (pending th) + mset (sv_timed s)"
    using conjunct1 [OF conjunct2 [OF k], unfolded e] by (simp only: add.assoc)
  moreover have "sorted ?due" using s by (rule sorted_wrt_filter)
  ultimately show ?thesis using q k by blast
qed

theorem timed_actions_on_time_witness:
  "\<exists>th' s'. timed_actions (Some 4000, [4500, 9000]) ((example_server db_empty)\<lparr>sv_timed := [7000]\<rparr>) = Inr (th', s') \<and>
     timed_ok th' \<and> mset [4000, 4500] + mset (pending th') + mset (sv_timed s') = mset [4000, 4500, 9000] + mset [7000]"
proof -
  let ?s = "(example_server db_empty)\<lparr>sv_timed := [7000]\<rparr>" and ?th = "(Some 4000, [4500, 9000]) :: time_t option \<times> time_t list"
  have now: "sv_now ?s = 5000" by (simp add: example_server_def)
  have "all_groups ?s = []" by (simp add: all_groups_def con_def example_server_def db_empty_def groupList_def)
  with now have "timed_actions ?th ?s = Inr (take_timed (Some 9000, []) ?s)"
    by (simp add: timed_actions_def StartStopAction_perform_def bind_run_def)
  then obtain th' s' where r: "timed_actions ?th ?s = Inr (th', s')" by (cases "take_timed (Some 9000, []) ?s") simp
  have "timed_ok ?th" by (simp add: timed_ok_def pending_def)
  from timed_actions_on_time [OF this r]
  have "timed_ok th' \<and> mset (filter (\<lambda>t. t \<le> sv_now ?s) (pending ?th)) + mset (pending th') + mset (sv_timed s') =
    mset (pending ?th) + mset (sv_timed ?s)" by blast
  with r now show ?thesis by (simp add: pending_def)
qed

end
