(* ===== verification/Client.thy ===== *)
theory Client
  imports Actions_Query
begin

text \<open>
  The client's side of the protocol, \<^verbatim>\<open>src/serverconnection.C\<close>: the thread that receives blocks,
  waiting for the answer to a request, and the requests with the way their answers are read.
  TLS, the network and the files of the client are outside: what arrives, whether writing succeeds and what a
  file contains are arguments.
\<close>

section \<open>Receiving\<close>

definition NEWLINE_ESCAPE_CHAR :: char where "NEWLINE_ESCAPE_CHAR = CHR 0x01"

text \<open>
  \<open>sc_ssl\<close> tells whether there is a connection, \<open>sc_shutdown\<close> whether it is being closed. A callback
  is a function and its argument, both shown as numbers; \<open>sc_calls\<close> lists the calls. \<open>sc_keepalives\<close>
  counts the signals to the thread that watches the connection.
\<close>

record ServerConnection =
  sc_ssl :: bool
  sc_shutdown :: bool
  sc_response :: "MessageBlock option"
  sc_eventmap :: "(string, (nat \<times> nat) list) smap"
  sc_calls :: "(nat \<times> nat \<times> MessageBlock) list"
  sc_keepalives :: nat

definition replace_char :: "char \<Rightarrow> char \<Rightarrow> string \<Rightarrow> string" where
  "replace_char a b t = map (\<lambda>c. if c = a then b else c) t"

definition startShutdown :: "ServerConnection \<Rightarrow> ServerConnection" where
  "startShutdown c = c\<lparr>sc_response := (case sc_response c of
       None \<Rightarrow> Some (mb_error ''Connection terminated while processing request'') | Some r \<Rightarrow> Some r),
     sc_shutdown := True\<rparr>"

definition processMB :: "MessageBlock \<Rightarrow> ServerConnection \<Rightarrow> ServerConnection" where
  "processMB mb c =
     (if mb_message mb = ''ok'' \<or> mb_message mb = ''err''
      then (case sc_response c of None \<Rightarrow> c\<lparr>sc_response := Some mb\<rparr> | Some r \<Rightarrow> c)
      else (let c1 = (if mb_message mb = ''close'' then startShutdown c else c);
                c2 = (if mb_message mb = ''keepalive'' then c1\<lparr>sc_keepalives := sc_keepalives c1 + 1\<rparr> else c1);
                mb1 = mb\<lparr>mb_headers := map (\<lambda>(k, v). (k, replace_char NEWLINE_ESCAPE_CHAR CHR 0x0A v)) (mb_headers mb)\<rparr>
            in case smap_find (sc_eventmap c2) (mb_message mb) of
                 None \<Rightarrow> c2
               | Some l \<Rightarrow> c2\<lparr>sc_calls := sc_calls c2 @ map (\<lambda>(f, p). (f, p, mb1)) l\<rparr>))"

text \<open>
  One turn of \<^verbatim>\<open>receive_thread\<close> on the bytes that were read. A block that cannot be parsed is
  thrown away but the bytes stay, so that the loop need not end: the first argument bounds its
  turns and None means that they were not enough.
\<close>

fun receive_loop :: "nat \<Rightarrow> MessageBlock option \<Rightarrow> string \<Rightarrow> ServerConnection \<Rightarrow> (MessageBlock option \<times> ServerConnection) option" where
  "receive_loop 0 cur bytes c = None"
| "receive_loop (Suc n) cur bytes c =
     (if bytes = [] then Some (cur, c)
      else let (used, mb) = addBytes (case cur of None \<Rightarrow> MessageBlock_empty | Some m \<Rightarrow> m) bytes
           in if used < 0 then receive_loop n None bytes c
              else if used = 0 then Some (Some mb, c)
              else receive_loop n None (drop (nat used) bytes) (processMB mb c))"

fun receive_chunks :: "MessageBlock option \<Rightarrow> string list \<Rightarrow> ServerConnection \<Rightarrow> (MessageBlock option \<times> ServerConnection) option" where
  "receive_chunks cur [] c = Some (cur, c)"
| "receive_chunks cur (b # bs) c = (case receive_loop (length b + 1) cur b c of
       None \<Rightarrow> None | Some (cur1, c1) \<Rightarrow> receive_chunks cur1 bs c1)"

text \<open>The end of the thread, when the connection is closed.\<close>

definition receive_end :: "bool \<Rightarrow> ServerConnection \<Rightarrow> ServerConnection" where
  "receive_end timed_out c = processMB (mb_set ''timedout'' (if timed_out then ''1'' else ''0'') (MessageBlock_new ''close'')) c"

text \<open>
  \<^verbatim>\<open>sendMB\<close>: \<open>arrived\<close> are the blocks that the other thread processes from the moment the old answer
  is dropped until this thread runs again; \<open>written\<close> is the result of writing. The answer None is the null
  pointer, and no result at all means that the thread still waits.
\<close>

definition sendMB :: "bool \<Rightarrow> MessageBlock list \<Rightarrow> ServerConnection \<Rightarrow> (MessageBlock option \<times> ServerConnection) option" where
  "sendMB written arrived c =
     (if \<not> sc_ssl c then Some (None, c)
      else (let c1 = fold processMB arrived (c\<lparr>sc_response := None\<rparr>)
            in if \<not> written then Some (None, c1)
               else (case sc_response c1 of
                       None \<Rightarrow> None
                     | Some r \<Rightarrow> Some (Some r, c1\<lparr>sc_response := None\<rparr>))))"

text \<open>The first entry with the function is changed, or a new one added at the end.\<close>

fun set_callback :: "nat \<Rightarrow> nat \<Rightarrow> (nat \<times> nat) list \<Rightarrow> (nat \<times> nat) list" where
  "set_callback f p [] = [(f, p)]"
| "set_callback f p ((g, q) # l) = (if g = f then (f, p) # l else (g, q) # set_callback f p l)"

definition callbacks :: "string \<Rightarrow> ServerConnection \<Rightarrow> (nat \<times> nat) list" where
  "callbacks event c = (case smap_find (sc_eventmap c) event of None \<Rightarrow> [] | Some l \<Rightarrow> l)"

definition registerEventCallback :: "string \<Rightarrow> nat \<Rightarrow> nat \<Rightarrow> ServerConnection \<Rightarrow> ServerConnection" where
  "registerEventCallback event f p c =
     c\<lparr>sc_eventmap := smap_put event (set_callback f p (callbacks event c)) (sc_eventmap c)\<rparr>"

definition deregisterEventCallback :: "string \<Rightarrow> nat \<Rightarrow> ServerConnection \<Rightarrow> ServerConnection" where
  "deregisterEventCallback event f c =
     c\<lparr>sc_eventmap := smap_put event (filter (\<lambda>(g, p). g \<noteq> f) (callbacks event c)) (sc_eventmap c)\<rparr>"

section \<open>Reading answers\<close>

text \<open>
  From here on \<open>ask\<close> is the call of \<^verbatim>\<open>sendMB\<close>: each request makes at most one. A number that
  cannot be read is an exception that nobody catches; \<^verbatim>\<open>Null_pointer\<close> is the use of a missing answer.
\<close>

type_synonym ask = "MessageBlock \<Rightarrow> MessageBlock option"

definition simpleAction :: "ask \<Rightarrow> MessageBlock \<Rightarrow> bool" where
  "simpleAction ask mb = (case ask mb of None \<Rightarrow> False | Some ret \<Rightarrow> mb_message ret = ''ok'')"

definition stringAction :: "ask \<Rightarrow> MessageBlock \<Rightarrow> string \<Rightarrow> string" where
  "stringAction ask mb fieldname = (case ask mb of
       None \<Rightarrow> [] | Some ret \<Rightarrow> if mb_message ret = ''ok'' then mb_get ret fieldname else [])"

definition read_number :: "(string \<Rightarrow> 'a option) \<Rightarrow> string \<Rightarrow> fault + 'a" where
  "read_number f t = (case f t of None \<Rightarrow> Inl Bad_string | Some x \<Rightarrow> Inr x)"

definition scalarAction :: "ask \<Rightarrow> MessageBlock \<Rightarrow> string \<Rightarrow> fault + u32" where
  "scalarAction ask mb fieldname =
     (let v = stringAction ask mb fieldname in if v \<noteq> [] then read_number from_string_u32 v else Inr 0)"

text \<open>
  Loops over numbered headers. They end because a block has finitely many headers, fewer than
  the counter has values.
\<close>

lemma numbered_names_finite: "finite {n. hasAttribute mb (p @ string_of_nat n)}"
proof -
  have "(\<lambda>n. p @ string_of_nat n) ` {n. hasAttribute mb (p @ string_of_nat n)} \<subseteq> fst ` set (mb_headers mb)"
    by (auto simp: hasAttribute_def smap_find_dom)
  moreover have "inj_on (\<lambda>n. p @ string_of_nat n) A" for A
    by (auto intro!: inj_onI dest: string_of_nat_inj)
  ultimately show ?thesis by (meson finite_imageD finite_imageI finite_subset List.finite_set)
qed

definition headers_from :: "MessageBlock \<Rightarrow> string list \<Rightarrow> nat \<Rightarrow> nat" where
  "headers_from mb ps n = card {k. n \<le> k \<and> (\<exists>p\<in>set ps. hasAttribute mb (p @ string_of_nat k))}"

lemma headers_from_decrease:
  assumes "p \<in> set ps" "hasAttribute mb (p @ string_of_nat n)" "n < n'"
  shows "headers_from mb ps n' < headers_from mb ps n"
  unfolding headers_from_def
proof (rule psubset_card_mono)
  have "{k. n \<le> k \<and> (\<exists>p\<in>set ps. hasAttribute mb (p @ string_of_nat k))} \<subseteq>
      (\<Union>p\<in>set ps. {k. hasAttribute mb (p @ string_of_nat k)})" by blast
  then show "finite {k. n \<le> k \<and> (\<exists>p\<in>set ps. hasAttribute mb (p @ string_of_nat k))}"
    by (rule finite_subset) (simp add: numbered_names_finite)
  show "{k. n' \<le> k \<and> (\<exists>p\<in>set ps. hasAttribute mb (p @ string_of_nat k))} \<subset>
      {k. n \<le> k \<and> (\<exists>p\<in>set ps. hasAttribute mb (p @ string_of_nat k))}"
    using assms by (intro psubsetI) (auto simp: set_eq_iff intro!: exI [of _ n])
qed

function vector_loop :: "MessageBlock \<Rightarrow> string \<Rightarrow> nat \<Rightarrow> string list" where
  "vector_loop mb prefix i =
     (if hasAttribute mb (prefix @ string_of_nat i)
      then mb_get mb (prefix @ string_of_nat i) # vector_loop mb prefix (i + 1) else [])"
  by pat_completeness auto
termination
  by (relation "measure (\<lambda>(mb, prefix, i). headers_from mb [prefix] i)") (auto intro: headers_from_decrease)

definition vectorFromMB :: "MessageBlock \<Rightarrow> string \<Rightarrow> string list" where
  "vectorFromMB mb prefix = vector_loop mb prefix 0"

definition vectorAction :: "ask \<Rightarrow> MessageBlock \<Rightarrow> string \<Rightarrow> string list" where
  "vectorAction ask mb prefix = (case ask mb of None \<Rightarrow> [] | Some ret \<Rightarrow> vectorFromMB ret prefix)"

text \<open>The counter is incremented before the names are made.\<close>

definition multi_attrs :: "MessageBlock \<Rightarrow> string list \<Rightarrow> nat \<Rightarrow> attributes" where
  "multi_attrs mb attrlst i = fold (\<lambda>p a. if hasAttribute mb (p @ string_of_nat i)
     then smap_put p (mb_get mb (p @ string_of_nat i)) a else a) attrlst []"

function multi_loop :: "MessageBlock \<Rightarrow> string list \<Rightarrow> nat \<Rightarrow> attributes list" where
  "multi_loop mb attrlst i =
     (if list_ex (\<lambda>p. hasAttribute mb (p @ string_of_nat (i + 1))) attrlst
      then multi_attrs mb attrlst (i + 1) # multi_loop mb attrlst (i + 1) else [])"
  by pat_completeness auto
termination
  by (relation "measure (\<lambda>(mb, attrlst, i). headers_from mb attrlst (i + 1))")
    (auto simp: list_ex_iff intro: headers_from_decrease)

definition multiListFromMB :: "MessageBlock \<Rightarrow> string list \<Rightarrow> attributes list" where
  "multiListFromMB mb attrlst = multi_loop mb attrlst 0"

definition multiVectorAction :: "ask \<Rightarrow> MessageBlock \<Rightarrow> string list \<Rightarrow> attributes list" where
  "multiVectorAction ask mb attrlst = (case ask mb of None \<Rightarrow> [] | Some ret \<Rightarrow> multiListFromMB ret attrlst)"

definition gridFromMB :: "MessageBlock \<Rightarrow> fault + string list list" where
  "gridFromMB mb = (case (from_string_i32 (mb_get mb ''ncols''), from_string_i32 (mb_get mb ''nrows'')) of
       (Some ncols, Some nrows) \<Rightarrow> Inr (map (\<lambda>r. map (\<lambda>c. mb_get mb (cell_name r c)) [0..<nat ncols]) [0..<nat nrows])
     | _ \<Rightarrow> Inl Bad_string)"

definition gridAction :: "ask \<Rightarrow> MessageBlock \<Rightarrow> fault + string list list" where
  "gridAction ask mb = (case ask mb of
       None \<Rightarrow> Inr [] | Some ret \<Rightarrow> if mb_message ret = ''ok'' then gridFromMB ret else Inr [])"

declare vector_loop.simps [simp del] multi_loop.simps [simp del]

section \<open>Requests\<close>

definition request :: "string \<Rightarrow> (string \<times> string) list \<Rightarrow> MessageBlock" where
  "request action headers = fold (\<lambda>(k, v). mb_set k v) headers (MessageBlock_new action)"

definition ServerConnection_auth :: "ask \<Rightarrow> string \<Rightarrow> string \<Rightarrow> bool" where
  "ServerConnection_auth ask name pw = simpleAction ask (request ''auth'' [(''user'', name), (''pass'', pw)])"

definition ServerConnection_getPermissions :: "ask \<Rightarrow> string list" where
  "ServerConnection_getPermissions ask = vectorAction ask (request ''whatami'' []) ''permission''"

definition ServerConnection_createuser :: "ask \<Rightarrow> string \<Rightarrow> string \<Rightarrow> string \<Rightarrow> string \<Rightarrow> u32 \<Rightarrow> bool" where
  "ServerConnection_createuser ask name friendly pw ty grp = simpleAction ask (request ''adduser''
     [(''username'', name), (''friendlyname'', friendly), (''passwd'', pw), (''type'', ty), (''group'', u32_text grp)])"

definition ServerConnection_creategroup :: "ask \<Rightarrow> string \<Rightarrow> bool" where
  "ServerConnection_creategroup ask name = simpleAction ask (request ''addgroup'' [(''groupname'', name)])"

definition ServerConnection_changePassword :: "ask \<Rightarrow> string \<Rightarrow> bool" where
  "ServerConnection_changePassword ask pw = simpleAction ask (request ''passwd'' [(''newpass'', pw)])"

definition ServerConnection_changePassword_id :: "ask \<Rightarrow> u32 \<Rightarrow> string \<Rightarrow> bool" where
  "ServerConnection_changePassword_id ask i pw =
     simpleAction ask (request ''id_passwd'' [(''user_id'', u32_text i), (''newpass'', pw)])"

text \<open>
  \<^verbatim>\<open>getBonus\<close>: the result of the function and, when the answer is good, points and seconds. Without
  an answer it returns the text \<^verbatim>\<open>""\<close>, which is true as a Boolean.
\<close>

definition ServerConnection_getBonus :: "ask \<Rightarrow> u32 \<Rightarrow> fault + bool \<times> (int \<times> int) option" where
  "ServerConnection_getBonus ask i = (case ask (request ''getbonus'' [(''user_id'', u32_text i)]) of
       None \<Rightarrow> Inr (True, None)
     | Some ret \<Rightarrow>
         if mb_message ret \<noteq> ''ok'' then Inr (False, None)
         else (case (from_string_i32 (mb_get ret ''points''), from_string_i32 (mb_get ret ''seconds'')) of
                 (Some p, Some t) \<Rightarrow> Inr (True, Some (p, t)) | _ \<Rightarrow> Inl Bad_string))"

definition ServerConnection_setBonus :: "ask \<Rightarrow> u32 \<Rightarrow> int \<Rightarrow> int \<Rightarrow> bool" where
  "ServerConnection_setBonus ask i p t = simpleAction ask (request ''setbonus''
     [(''user_id'', u32_text i), (''points'', to_string p), (''seconds'', to_string t)])"

definition ServerConnection_startStop :: "ask \<Rightarrow> u32 \<Rightarrow> bool \<Rightarrow> time_t \<Rightarrow> bool" where
  "ServerConnection_startStop ask grp start t = simpleAction ask (request ''startstop''
     [(''action'', if start then ''start'' else ''stop''), (''time'', to_string t), (''group_id'', u32_text grp)])"

definition ServerConnection_getLanguages :: "ask \<Rightarrow> string list" where
  "ServerConnection_getLanguages ask = vectorAction ask (request ''getlanguages'' []) ''language''"

definition ServerConnection_getProblemTypes :: "ask \<Rightarrow> string list" where
  "ServerConnection_getProblemTypes ask = vectorAction ask (request ''getprobtypes'' []) ''type''"

definition ServerConnection_getServerList :: "ask \<Rightarrow> string list" where
  "ServerConnection_getServerList ask = vectorAction ask (request ''getserverlist'' []) ''server''"

definition ServerConnection_getProblemDescription :: "ask \<Rightarrow> string \<Rightarrow> string" where
  "ServerConnection_getProblemDescription ask ty = stringAction ask (request ''getprobdescript'' [(''type'', ty)]) ''descript''"

text \<open>
  Files to send: for each its place in the contents, and all contents. \<open>files\<close> tells what a path
  contains, None when it cannot be opened or read; the 32-bit offset must not overflow, or the buffer
  is too small.
\<close>

fun read_files :: "(string \<Rightarrow> string option) \<Rightarrow> string list \<Rightarrow> nat \<Rightarrow> ((nat \<times> nat) list \<times> string) option" where
  "read_files files [] off = Some ([], [])"
| "read_files files (path # paths) off = (case files path of
       None \<Rightarrow> None
     | Some data \<Rightarrow> (case read_files files paths (off + length data) of
           None \<Rightarrow> None
         | Some (places, rest) \<Rightarrow> Some ((off, length data) # places, data @ rest)))"

definition file_header :: "nat \<times> nat \<Rightarrow> string \<Rightarrow> string" where
  "file_header place name = string_of_nat (fst place) @ '' '' @ string_of_nat (snd place) @ '' '' @ name"

text \<open>The last component of a path, as \<^verbatim>\<open>basename\<close> of the C library gives it.\<close>

definition path_basename :: "string \<Rightarrow> string" where
  "path_basename path =
     (let t = rev (dropWhile (\<lambda>c. c = CHR ''/'') (rev path))
      in if path = [] then ''.'' else if t = [] then ''/'' else rev (takeWhile (\<lambda>c. c \<noteq> CHR ''/'') (rev t)))"

definition ServerConnection_setProblemAttributes ::
  "(string \<Rightarrow> string option) \<Rightarrow> ask \<Rightarrow> u32 \<Rightarrow> string \<Rightarrow> attributes \<Rightarrow> attributes \<Rightarrow> u32 list \<Rightarrow> fault + bool" where
  "ServerConnection_setProblemAttributes files ask i ty normal fs deps =
     (case read_files files (map snd fs) 0 of
        None \<Rightarrow> Inr False
      | Some (places, data) \<Rightarrow>
          if length data \<ge> 2 ^ 32 then Inl Overread
          else Inr (simpleAction ask
            (mb_set ''prob_dependencies'' (concat (map (\<lambda>(k, p). (if k = 0 then [] else '','') @ u32_text p) (enumerate 0 deps)))
              (fold (\<lambda>(k, v). mb_set k v) normal (setContent data
                (request ''setprobattrs'' ([(''prob_id'', u32_text i), (''prob_type'', ty)] @
                  map (\<lambda>((k, path), place). (k, file_header place (path_basename path))) (zip fs places))))))))"

definition ServerConnection_getProblemAttributes :: "ask \<Rightarrow> u32 \<Rightarrow> attributes option" where
  "ServerConnection_getProblemAttributes ask i = (case ask (request ''getprobattrs'' [(''prob_id'', u32_text i)]) of
       None \<Rightarrow> None
     | Some ret \<Rightarrow> if mb_message ret = ''ok'' then Some (filter (\<lambda>(k, v). k \<noteq> ''content-length'') (mb_headers ret)) else None)"

text \<open>The content of a block that has none is empty.\<close>

definition content_of :: "MessageBlock \<Rightarrow> string" where
  "content_of mb = (case mb_content mb of None \<Rightarrow> [] | Some t \<Rightarrow> t)"

definition ServerConnection_getProblemFile :: "ask \<Rightarrow> u32 \<Rightarrow> string \<Rightarrow> string option" where
  "ServerConnection_getProblemFile ask i attrib =
     (case ask (request ''getprobfile'' [(''prob_id'', u32_text i), (''file'', attrib)]) of
        None \<Rightarrow> None | Some ret \<Rightarrow> if mb_message ret = ''ok'' then Some (content_of ret) else None)"

definition ServerConnection_getSubmissionSource :: "ask \<Rightarrow> u32 \<Rightarrow> (string \<times> string) option" where
  "ServerConnection_getSubmissionSource ask i =
     (case ask (request ''getsubmissionsource'' [(''submission_id'', u32_text i)]) of
        None \<Rightarrow> None | Some ret \<Rightarrow> if mb_message ret = ''ok'' then Some (content_of ret, mb_get ret ''lang'') else None)"

text \<open>Lists of records: as long as there is a header \<^verbatim>\<open>id<i>\<close>, a record made of the number and other headers.\<close>

function info_loop :: "MessageBlock \<Rightarrow> (u32 \<Rightarrow> (string \<Rightarrow> string) \<Rightarrow> 'a) \<Rightarrow> nat \<Rightarrow> fault + 'a list" where
  "info_loop mb mkinfo i =
     (if hasAttribute mb (''id'' @ string_of_nat i)
      then (case from_string_u32 (mb_get mb (''id'' @ string_of_nat i)) of
              None \<Rightarrow> Inl Bad_string
            | Some n \<Rightarrow> (case info_loop mb mkinfo (i + 1) of
                  Inl e \<Rightarrow> Inl e
                | Inr l \<Rightarrow> Inr (mkinfo n (\<lambda>name. mb_get mb (name @ string_of_nat i)) # l)))
      else Inr [])"
  by pat_completeness auto
termination
  by (relation "measure (\<lambda>(mb, mkinfo, i). headers_from mb [''id''] i)") (auto intro: headers_from_decrease [of "''id''"])

declare info_loop.simps [simp del]

definition infoAction :: "ask \<Rightarrow> MessageBlock \<Rightarrow> (u32 \<Rightarrow> (string \<Rightarrow> string) \<Rightarrow> 'a) \<Rightarrow> fault + 'a list" where
  "infoAction ask mb mkinfo = (case ask mb of
       None \<Rightarrow> Inr [] | Some res \<Rightarrow> if mb_message res = ''ok'' then info_loop res mkinfo 0 else Inr [])"

record ProblemInfo =
  pi_id :: u32
  pi_code :: string
  pi_name :: string

record UserInfo =
  ui_id :: u32
  ui_username :: string
  ui_friendlyname :: string
  ui_type :: string

record GroupInfo =
  gi_id :: u32
  gi_groupname :: string

definition ServerConnection_getProblems :: "ask \<Rightarrow> fault + ProblemInfo list" where
  "ServerConnection_getProblems ask = infoAction ask (request ''getproblems'' [])
     (\<lambda>i h. \<lparr>pi_id = i, pi_code = h ''code'', pi_name = h ''name''\<rparr>)"

definition ServerConnection_getUsers :: "ask \<Rightarrow> fault + UserInfo list" where
  "ServerConnection_getUsers ask = infoAction ask (request ''getusers'' [])
     (\<lambda>i h. \<lparr>ui_id = i, ui_username = h ''username'', ui_friendlyname = h ''friendlyname'', ui_type = h ''type''\<rparr>)"

definition ServerConnection_getGroups :: "ask \<Rightarrow> fault + GroupInfo list" where
  "ServerConnection_getGroups ask = infoAction ask (request ''getgroups'' [])
     (\<lambda>i h. \<lparr>gi_id = i, gi_groupname = h ''groupname''\<rparr>)"

text \<open>\<open>data\<close> is the contents of the file; a file that cannot be read is None.\<close>

definition ServerConnection_submit :: "ask \<Rightarrow> u32 \<Rightarrow> string option \<Rightarrow> string \<Rightarrow> fault + u32" where
  "ServerConnection_submit ask prob data lang = (case data of
       None \<Rightarrow> Inr 0
     | Some t \<Rightarrow>
         if int (length t) > MAX_SUBMISSION_SIZE then Inr 0
         else scalarAction ask (setContent t (request ''submit'' [(''prob_id'', u32_text prob), (''lang'', lang)])) ''submission_id'')"

text \<open>\<open>ssl\<close> tells whether there is a connection.\<close>

definition escape_newlines :: "string \<Rightarrow> string" where
  "escape_newlines t = replace_char CHR 0x0A NEWLINE_ESCAPE_CHAR t"

definition ServerConnection_clarificationRequest :: "bool \<Rightarrow> ask \<Rightarrow> u32 \<Rightarrow> string \<Rightarrow> bool" where
  "ServerConnection_clarificationRequest ssl ask prob question =
     (ssl \<and> simpleAction ask (request ''clarificationrequest''
       [(''prob_id'', u32_text prob), (''question'', escape_newlines question)]))"

definition ServerConnection_clarificationReply :: "bool \<Rightarrow> ask \<Rightarrow> u32 \<Rightarrow> bool \<Rightarrow> string \<Rightarrow> bool" where
  "ServerConnection_clarificationReply ssl ask req pub answer =
     (ssl \<and> simpleAction ask (request ''clarification''
       [(''clarification_request_id'', u32_text req), (''answer'', escape_newlines answer), (''public'', if pub then ''1'' else ''0'')]))"

definition submission_fields :: "string list" where
  "submission_fields = [''submission_id'', ''contestant'', ''time'', ''contesttime'', ''problem'', ''result'', ''comment'', ''prob_id'']"

definition ServerConnection_getSubmissions :: "bool \<Rightarrow> ask \<Rightarrow> attributes list" where
  "ServerConnection_getSubmissions ssl ask =
     (if ssl then multiVectorAction ask (request ''getsubmissions'' []) submission_fields else [])"

definition ServerConnection_getSubmissionsForUser :: "bool \<Rightarrow> ask \<Rightarrow> u32 \<Rightarrow> attributes list" where
  "ServerConnection_getSubmissionsForUser ssl ask i =
     (if ssl then multiVectorAction ask (request ''getsubmissions_for_user'' [(''user_id'', u32_text i)]) submission_fields else [])"

definition unescape_attributes :: "attributes list \<Rightarrow> attributes list" where
  "unescape_attributes l = map (map (\<lambda>(k, v). (k, replace_char NEWLINE_ESCAPE_CHAR CHR 0x0A v))) l"

definition ServerConnection_getClarifications :: "bool \<Rightarrow> ask \<Rightarrow> attributes list" where
  "ServerConnection_getClarifications ssl ask =
     (if ssl then unescape_attributes (multiVectorAction ask (request ''getclarifications'' [])
        [''id'', ''req_id'', ''time'', ''problem'', ''question'', ''answer'']) else [])"

definition ServerConnection_getClarificationRequests :: "bool \<Rightarrow> ask \<Rightarrow> attributes list" where
  "ServerConnection_getClarificationRequests ssl ask =
     (if ssl then unescape_attributes (multiVectorAction ask (request ''getclarificationrequests'' [])
        [''id'', ''time'', ''problem'', ''question'']) else [])"

definition ServerConnection_getStandings :: "bool \<Rightarrow> ask \<Rightarrow> fault + string list list" where
  "ServerConnection_getStandings ssl ask = (if ssl then gridAction ask (request ''standings'' []) else Inr [])"

definition ServerConnection_watchBalloons :: "ask \<Rightarrow> bool \<Rightarrow> bool" where
  "ServerConnection_watchBalloons ask yesno = simpleAction ask (request ''eventmap''
     [(''event'', ''balloon''), (''action'', if yesno then ''subscribe'' else ''unsubscribe'')])"

definition ServerConnection_becomeMarker :: "ask \<Rightarrow> bool" where
  "ServerConnection_becomeMarker ask = simpleAction ask (request ''subscribemark'' [])"

definition mark_message :: "u32 \<Rightarrow> int \<Rightarrow> string \<Rightarrow> string list \<Rightarrow> (nat \<times> nat) list \<Rightarrow> string \<Rightarrow> MessageBlock" where
  "mark_message sub res comment names places data =
     setContent data (request ''mark'' ([(''submission_id'', u32_text sub), (''result'', to_string res), (''comment'', comment)] @
       map (\<lambda>(c, name, place). (''file'' @ string_of_nat c, file_header place name)) (enumerate 0 (zip names places))))"

definition ServerConnection_mark :: "(string \<Rightarrow> string option) \<Rightarrow> ask \<Rightarrow> u32 \<Rightarrow> int \<Rightarrow> string \<Rightarrow> attributes \<Rightarrow> fault + bool" where
  "ServerConnection_mark files ask sub res comment fs = (case read_files files (map snd fs) 0 of
       None \<Rightarrow> Inr False
     | Some (places, data) \<Rightarrow>
         if length data \<ge> 2 ^ 32 then Inl Overread
         else Inr (simpleAction ask (mark_message sub res comment (map fst fs) places data)))"

definition ServerConnection_countMarkFiles :: "ask \<Rightarrow> u32 \<Rightarrow> fault + u32" where
  "ServerConnection_countMarkFiles ask sub =
     (case ask (request ''fetchfile'' [(''request'', ''count''), (''submission_id'', u32_text sub)]) of
        None \<Rightarrow> Inl Null_pointer | Some ret \<Rightarrow> read_number from_string_u32 (mb_get ret ''count''))"

text \<open>As many bytes are copied as the header says.\<close>

definition ServerConnection_getMarkFile :: "ask \<Rightarrow> u32 \<Rightarrow> u32 \<Rightarrow> fault + string \<times> string" where
  "ServerConnection_getMarkFile ask sub i =
     (case ask (request ''fetchfile'' [(''request'', ''data''), (''submission_id'', u32_text sub), (''index'', u32_text i)]) of
        None \<Rightarrow> Inl Null_pointer
      | Some ret \<Rightarrow> (case from_string_u32 (mb_get ret ''length'') of
            None \<Rightarrow> Inl Bad_string
          | Some n \<Rightarrow> if unat n \<le> length (content_of ret) then Inr (mb_get ret ''name'', take (unat n) (content_of ret))
                      else Inl Overread))"

text \<open>A time of the contest; the value for failure is \<^verbatim>\<open>~0U\<close>.\<close>

definition timeAction :: "ask \<Rightarrow> string \<Rightarrow> fault + time_t" where
  "timeAction ask field = (case ask (request ''contesttime'' []) of
       None \<Rightarrow> Inr (2 ^ 32 - 1)
     | Some res \<Rightarrow> if mb_message res = ''ok'' then read_number (from_string (- (2 ^ 63)) (2 ^ 63 - 1)) (mb_get res field)
                    else Inr (2 ^ 32 - 1))"

definition ServerConnection_contestTime :: "ask \<Rightarrow> fault + time_t" where
  "ServerConnection_contestTime ask = timeAction ask ''time''"

definition ServerConnection_contestRemain :: "ask \<Rightarrow> fault + time_t" where
  "ServerConnection_contestRemain ask = timeAction ask ''remain''"

definition ServerConnection_contestRunning :: "ask \<Rightarrow> bool" where
  "ServerConnection_contestRunning ask = (stringAction ask (request ''contesttime'' []) ''running'' = ''yes'')"

definition ServerConnection_subscribeTime :: "ask \<Rightarrow> bool" where
  "ServerConnection_subscribeTime ask = simpleAction ask (request ''subscribetime'' [])"

end
