(* ===== verification/Client_Server.thy ===== *)
theory Client_Server
  imports Client Dispatch Events_Safe
begin

text \<open>
  Client and server together: what a client makes of the answers that the handlers of the server
  give, from the header fields up to the bytes on the connection.
\<close>

section \<open>Numbered headers\<close>

definition no_digits :: "string \<Rightarrow> bool" where
  "no_digits t \<longleftrightarrow> list_all (\<lambda>c. \<not> is_digit 10 c) t"

lemma numbered_name_inj:
  assumes "no_digits p" "no_digits q" "p @ string_of_nat m = q @ string_of_nat n"
  shows "p = q \<and> m = n"
proof -
  have t: "takeWhile (\<lambda>c. \<not> is_digit 10 c) (r @ string_of_nat k) = r" if "no_digits r" for r k
  proof -
    have "is_digit 10 (hd (string_of_nat k))" by (rule string_of_nat_is_digit [of _ _ k]) simp_all
    then have "takeWhile (\<lambda>c. \<not> is_digit 10 c) (string_of_nat k) = []" by (cases "string_of_nat k") simp_all
    with that show ?thesis by (simp add: takeWhile_append2 no_digits_def list_all_iff)
  qed
  from t [OF assms(1), of m] t [OF assms(2), of n] assms(3) have "p = q" by simp
  with assms(3) show ?thesis by (simp add: string_of_nat_inj)
qed

abbreviation header :: "MessageBlock \<Rightarrow> string \<Rightarrow> string option" where
  "header mb name \<equiv> smap_find (mb_headers mb) name"

lemma header_set [simp]: "header (mb_set k v mb) name = (if name = k then Some v else header mb name)"
  by (simp add: mb_set_def smap_find_put)

lemma message_set [simp]: "mb_message (mb_set k v mb) = mb_message mb"
  by (simp add: mb_set_def)

lemma set_attrs_header:
  assumes "list_all (no_digits \<circ> fst) a" "no_digits p"
  shows "header (set_attrs a (string_of_nat i) mb) (p @ string_of_nat j) =
    (if i = j then (case map_of (rev a) p of None \<Rightarrow> header mb (p @ string_of_nat j) | Some v \<Rightarrow> Some v)
     else header mb (p @ string_of_nat j))"
  using assms(1)
proof (induction a arbitrary: mb)
  case (Cons kv a)
  obtain k v where kv: "kv = (k, v)" by (cases kv)
  have "p @ string_of_nat j = k @ string_of_nat i \<longleftrightarrow> p = k \<and> i = j"
    using numbered_name_inj [OF assms(2), of k j i] Cons.prems by (auto simp: kv)
  with Cons show ?case by (auto simp: set_attrs_def kv map_add_def split: option.split)
qed (simp add: set_attrs_def)

lemma set_attrs_message [simp]: "mb_message (set_attrs a n mb) = mb_message mb"
  by (induction a arbitrary: mb) (auto simp: set_attrs_def)

text \<open>The headers of a list whose entries are attributes.\<close>

lemma numbered_header:
  assumes "\<forall>x\<in>set xs. list_all (no_digits \<circ> fst) (F x)" "no_digits p"
  shows "header (numbered (\<lambda>x. set_attrs (F x)) xs c mb) (p @ string_of_nat j) =
    (if c \<le> j \<and> j < c + length xs
     then (case map_of (rev (F (xs ! (j - c)))) p of None \<Rightarrow> header mb (p @ string_of_nat j) | Some v \<Rightarrow> Some v)
     else header mb (p @ string_of_nat j))"
  using assms(1)
proof (induction xs arbitrary: c mb)
  case (Cons x xs)
  then have a: "list_all (no_digits \<circ> fst) (F x)" by (simp add: comp_def)
  note h = set_attrs_header [OF a assms(2), of c mb j]
  from Cons.prems have "\<forall>x\<in>set xs. list_all (no_digits \<circ> fst) (F x)" by (simp add: comp_def)
  note IH = Cons.IH [OF this, of "c + 1" "set_attrs (F x) (string_of_nat c) mb"]
  show ?case unfolding numbered.simps IH h by (cases "j = c") (auto simp: nth_Cons' Suc_le_eq)
qed auto

lemma numbered_message [simp]: "mb_message (numbered (\<lambda>x. set_attrs (F x)) xs c mb) = mb_message mb"
  by (induction xs arbitrary: c mb) simp_all

lemma header_ok [simp]: "header mb_ok name = None" "mb_message mb_ok = ''ok''"
  by (simp_all add: mb_ok_def MessageBlock_new_def MessageBlock_empty_def)

section \<open>The loops of the client\<close>

lemma vector_loop_values:
  assumes "\<And>k. k < length vs \<Longrightarrow> header mb (p @ string_of_nat (i + k)) = Some (vs ! k)"
    "header mb (p @ string_of_nat (i + length vs)) = None"
  shows "vector_loop mb p i = vs"
  using assms
proof (induction vs arbitrary: i)
  case Nil
  then show ?case by (subst vector_loop.simps) (simp add: hasAttribute_def)
next
  case (Cons v vs)
  from Cons.prems(1) [of 0] have "header mb (p @ string_of_nat i) = Some v" by simp
  moreover have "vector_loop mb p (i + 1) = vs"
    using Cons.prems(1) [of "Suc _"] Cons.prems(2) by (intro Cons.IH) simp_all
  ultimately show ?case by (subst vector_loop.simps) (simp add: hasAttribute_def mb_get_def)
qed

lemma info_loop_values:
  assumes "\<And>k. k < length xs \<Longrightarrow> header mb (''id'' @ string_of_nat (i + k)) = Some (u32_text (ids (xs ! k)))"
    "header mb (''id'' @ string_of_nat (i + length xs)) = None"
    "\<And>k. k < length xs \<Longrightarrow> mkinfo (ids (xs ! k)) (\<lambda>name. mb_get mb (name @ string_of_nat (i + k))) = info (xs ! k)"
  shows "info_loop mb mkinfo i = Inr (map info xs)"
  using assms
proof (induction xs arbitrary: i)
  case Nil
  then show ?case by (subst info_loop.simps) (simp add: hasAttribute_def)
next
  case (Cons x xs)
  note text_u32 [of "ids x"]
  moreover from Cons.prems(1) [of 0] have "header mb (''id'' @ string_of_nat i) = Some (u32_text (ids x))" by simp
  moreover have "info_loop mb mkinfo (i + 1) = Inr (map info xs)"
    using Cons.prems(1,3) [of "Suc _"] Cons.prems(2) by (intro Cons.IH) simp_all
  moreover from Cons.prems(3) [of 0] have "mkinfo (ids x) (\<lambda>name. mb_get mb (name @ string_of_nat i)) = info x" by simp
  ultimately show ?case by (subst info_loop.simps) (simp add: hasAttribute_def mb_get_def)
qed

text \<open>A list with one good field is read up to its end.\<close>

lemma multi_loop_values:
  assumes "p \<in> set ps" "\<And>k. k < n \<Longrightarrow> header mb (p @ string_of_nat (i + 1 + k)) \<noteq> None"
    "\<And>q. q \<in> set ps \<Longrightarrow> header mb (q @ string_of_nat (i + 1 + n)) = None"
  shows "multi_loop mb ps i = map (\<lambda>k. multi_attrs mb ps (i + 1 + k)) [0..<n]"
  using assms(2,3)
proof (induction n arbitrary: i)
  case 0
  then show ?case by (subst multi_loop.simps) (simp add: list_ex_iff hasAttribute_def)
next
  case (Suc n)
  from Suc.prems(1) [of 0] assms(1) have "list_ex (\<lambda>p. hasAttribute mb (p @ string_of_nat (i + 1))) ps"
    by (auto simp: list_ex_iff hasAttribute_def)
  moreover have "multi_loop mb ps (i + 1) = map (\<lambda>k. multi_attrs mb ps (i + 1 + 1 + k)) [0..<n]"
    using Suc.prems(1) [of "Suc _"] Suc.prems(2) by (intro Suc.IH) simp_all
  moreover have "[0..<Suc n] = 0 # map Suc [0..<n]" by (simp add: map_Suc_upt upt_conv_Cons)
  ultimately show ?case by (subst multi_loop.simps) simp
qed

lemma multi_attrs_find:
  assumes "distinct ps"
  shows "smap_find (multi_attrs mb ps i) p = (if p \<in> set ps then header mb (p @ string_of_nat i) else None)"
proof -
  have "smap_find (fold (\<lambda>p a. if hasAttribute mb (p @ string_of_nat i) then smap_put p (mb_get mb (p @ string_of_nat i)) a else a) ps a) p =
      (if p \<in> set ps \<and> header mb (p @ string_of_nat i) \<noteq> None then header mb (p @ string_of_nat i) else smap_find a p)" for a
    by (induction ps arbitrary: a) (auto simp: hasAttribute_def mb_get_def smap_find_put)
  then show ?thesis by (auto simp: multi_attrs_def)
qed

section \<open>Receiving\<close>

text \<open>As long as the parser accepts the bytes, the client's loop ends and sees the blocks that are in them.\<close>

lemma receive_loop_blocks:
  assumes "read_bytes cur bytes = Some (mbs, cur')" "length bytes < n"
  shows "receive_loop n cur bytes c = Some (cur', fold processMB mbs c)"
  using assms
proof (induction n arbitrary: cur bytes mbs c)
  case (Suc n)
  obtain used mb where a: "addBytes (case cur of None \<Rightarrow> MessageBlock_empty | Some m \<Rightarrow> m) bytes = (used, mb)"
    by (cases "addBytes (case cur of None \<Rightarrow> MessageBlock_empty | Some m \<Rightarrow> m) bytes")
  show ?case
  proof (cases "bytes \<noteq> [] \<and> used > 0")
    case True
    with Suc.prems(1) a obtain mbs' where m: "read_bytes None (drop (nat used) bytes) = Some (mbs', cur')" "mbs = mb # mbs'"
      by (auto simp: read_bytes.simps [of cur bytes])
    have "length (drop (nat used) bytes) < n" using True Suc.prems(2) by (cases bytes) auto
    from Suc.IH [OF m(1) this] True a show ?thesis by (simp add: m(2))
  next
    case False
    with Suc.prems(1) a show ?thesis by (auto simp: read_bytes.simps [of cur bytes] split: if_splits)
  qed
qed simp

lemma receive_chunks_blocks:
  "read_chunks cur chunks = Some (mbs, cur') \<Longrightarrow> receive_chunks cur chunks c = Some (cur', fold processMB mbs c)"
proof (induction chunks arbitrary: cur mbs c)
  case (Cons b bs)
  from Cons.prems obtain m1 cur1 m2 where m: "read_bytes cur b = Some (m1, cur1)" "read_chunks cur1 bs = Some (m2, cur')" "mbs = m1 @ m2"
    by (auto split: option.splits)
  from receive_loop_blocks [OF m(1), of "length b + 1" c] Cons.IH [OF m(2)] show ?case by (simp add: m(3))
qed simp

definition is_reply :: "MessageBlock \<Rightarrow> bool" where
  "is_reply mb \<longleftrightarrow> mb_message mb = ''ok'' \<or> mb_message mb = ''err''"

text \<open>What the callbacks of an event get.\<close>

definition event_calls :: "ServerConnection \<Rightarrow> MessageBlock \<Rightarrow> (nat \<times> nat \<times> MessageBlock) list" where
  "event_calls c mb = map (\<lambda>(f, p). (f, p, mb\<lparr>mb_headers := map (\<lambda>(k, v). (k, replace_char NEWLINE_ESCAPE_CHAR CHR 0x0A v)) (mb_headers mb)\<rparr>))
     (callbacks (mb_message mb) c)"

lemma processMB_reply: "is_reply mb \<Longrightarrow> processMB mb c = (if sc_response c = None then c\<lparr>sc_response := Some mb\<rparr> else c)"
  by (auto simp: processMB_def is_reply_def split: option.split)

lemma processMB_event:
  assumes "\<not> is_reply mb" "mb_message mb \<noteq> ''close''"
  shows "sc_response (processMB mb c) = sc_response c" "sc_calls (processMB mb c) = sc_calls c @ event_calls c mb"
    "sc_eventmap (processMB mb c) = sc_eventmap c"
  using assms by (auto simp: processMB_def is_reply_def event_calls_def callbacks_def Let_def split: option.split)

lemma process_blocks:
  assumes "list_all (\<lambda>mb. mb_message mb \<noteq> ''close'') mbs"
  shows "sc_eventmap (fold processMB mbs c) = sc_eventmap c \<and>
    sc_calls (fold processMB mbs c) = sc_calls c @ concat (map (event_calls c) (filter (\<lambda>mb. \<not> is_reply mb) mbs)) \<and>
    sc_response (fold processMB mbs c) = (case sc_response c of Some r \<Rightarrow> Some r | None \<Rightarrow> find is_reply mbs)"
  using assms
proof (induction mbs arbitrary: c)
  case (Cons mb mbs)
  have e: "event_calls c' mb' = event_calls c mb'" if "sc_eventmap c' = sc_eventmap c" for c' mb'
    using that by (simp add: event_calls_def callbacks_def)
  show ?case
  proof (cases "is_reply mb")
    case True
    note IH = Cons.IH [of "processMB mb c"]
    have s: "sc_eventmap (processMB mb c) = sc_eventmap c" "sc_calls (processMB mb c) = sc_calls c"
      "sc_response (processMB mb c) = (case sc_response c of Some r \<Rightarrow> Some r | None \<Rightarrow> Some mb)"
      by (auto simp: processMB_reply [OF True] split: option.split)
    show ?thesis using IH Cons.prems True by (simp add: s e [OF s(1)] split: option.split)
  next
    case False
    have "mb_message mb \<noteq> ''close''" using Cons.prems by simp
    note s = processMB_event [OF False this, of c]
    show ?thesis using Cons.IH [of "processMB mb c"] Cons.prems False by (simp add: s e [OF s(3)] split: option.split)
  qed
qed (simp split: option.split)

section \<open>A request to the server\<close>

text \<open>
  The client asks over connection \<open>cc\<close>: the server processes the request, and what it has written to the
  connection since arrives at the client in the pieces that \<open>split\<close> makes.
\<close>

definition idle_client :: ServerConnection where
  "idle_client = \<lparr>sc_ssl = True, sc_shutdown = False, sc_response = None, sc_eventmap = [], sc_calls = [], sc_keepalives = 0\<rparr>"

definition new_bytes :: "conn \<Rightarrow> server \<Rightarrow> server \<Rightarrow> string" where
  "new_bytes cc s s' = (case (smap_find (conns (sv_hub s)) cc, smap_find (conns (sv_hub s')) cc) of
       (Some c, Some c') \<Rightarrow> concat (drop (length (cn_queue c)) (cn_queue c')) | _ \<Rightarrow> [])"

definition ask_server :: "(string \<Rightarrow> string \<Rightarrow> string) \<Rightarrow> (string \<Rightarrow> string list) \<Rightarrow> conn \<Rightarrow> server \<Rightarrow> ask" where
  "ask_server hash split cc s mb = (case ClientAction_process hash cc mb s of
       Inl e \<Rightarrow> None
     | Inr (u, s') \<Rightarrow> (case receive_chunks None (split (new_bytes cc s s')) idle_client of
           None \<Rightarrow> None | Some (cur, c) \<Rightarrow> sc_response c))"

text \<open>A handler that only answers: the answer reaches the client as it is.\<close>

lemma ask_server_reply:
  assumes id: "my_id s \<noteq> 0" and c: "smap_find (conns (sv_hub s)) cc = Some c"
    and a: "map_of (actionmap hash) (mb_message mb) = Some (pt, act)" "matches pt (cn_permissions c) = Some True"
    and r: "act cc mb (remember_id s) = Inr (reply, remember_id s)" "block_ok reply" "is_reply reply" "mb_message_id mb = []"
    and split: "\<And>t. concat (split t) = t"
  shows "ask_server hash split cc s mb = Some (Message_Block.setMessageId [] reply)"
proof -
  let ?r = "Message_Block.setMessageId [] reply"
  have h: "sv_hub (remember_id s) = sv_hub s" by (simp add: remember_id_def)
  obtain h' where h': "sendMessageBlock cc ?r (sv_hub s) = Some h'"
    "smap_find (conns h') cc = Some (c\<lparr>cn_queue := cn_queue c @ [getRaw ?r]\<rparr>)"
    using c by (auto simp: sendMessageBlock_def Let_def smap_find_put)
  have p: "ClientAction_process hash cc mb s = Inr ((), (remember_id s)\<lparr>sv_hub := h'\<rparr>)"
    using id c a r(1,4) h'(1) by (simp add: ClientAction_process_def Let_def with_conn_def h answer_def with_hub_def bind_run_def)
  have "block_ok ?r" by (rule block_ok_setMessageId [OF r(2)]) (simp add: plain_def)
  then have "read_chunks None (split (getRaw ?r)) = Some ([?r], None)"
    using read_chunks_concat [of None "split (getRaw ?r)"] read_bytes_stream [of "[?r]"] split by (simp add: cur_ok_def)
  from receive_chunks_blocks [OF this] have "receive_chunks None (split (getRaw ?r)) idle_client = Some (None, processMB ?r idle_client)" by simp
  moreover have "is_reply ?r" using r(3) by (simp add: is_reply_def Message_Block.setMessageId_def)
  ultimately show ?thesis
    by (simp add: ask_server_def p new_bytes_def c h'(2) processMB_reply idle_client_def)
qed

text \<open>Answers with numbered headers are well formed when their texts are single lines.\<close>

definition plain_attr :: "string \<times> string \<Rightarrow> bool" where
  "plain_attr kv \<longleftrightarrow> plain (fst kv) \<and> CHR '':'' \<notin> set (fst kv) \<and> plain (snd kv)"

lemma block_ok_numbered_name:
  assumes "block_ok mb" "plain_attr (k, v)"
  shows "block_ok (mb_set (k @ string_of_nat n) v mb)"
proof (rule block_ok_set [OF assms(1)])
  have "is_digit 10 (last (k @ string_of_nat n))"
    using string_of_nat_is_digit [of 10 "last (string_of_nat n)" n] by simp
  moreover have "\<not> is_digit 10 (last ''content-length'')" by (simp add: is_digit_def digit_val_def)
  ultimately show "k @ string_of_nat n \<noteq> ''content-length''" by metis
qed (use assms(2) in \<open>auto simp: plain_attr_def plain_def dest: string_of_nat_plain(4,5)\<close>)

lemma block_ok_set_attrs:
  "block_ok mb \<Longrightarrow> list_all plain_attr a \<Longrightarrow> block_ok (set_attrs a (string_of_nat n) mb)"
  by (induction a arbitrary: mb) (auto simp: set_attrs_def block_ok_numbered_name)

lemma block_ok_numbered:
  "block_ok mb \<Longrightarrow> \<forall>x\<in>set xs. list_all plain_attr (F x) \<Longrightarrow> block_ok (numbered (\<lambda>x. set_attrs (F x)) xs c mb)"
  by (induction xs arbitrary: c mb) (auto simp: block_ok_set_attrs)

lemma plain_u32 [simp]: "plain (u32_text w)"
  using string_of_nat_plain(4) by (auto simp: plain_def u32_text_def to_string_def)

section \<open>Lists of users and groups\<close>

definition user_attrs :: "db \<Rightarrow> u32 \<times> string \<Rightarrow> (string \<times> string) list" where
  "user_attrs d u = [(''id'', u32_text (fst u)), (''username'', snd u), (''friendlyname'', friendlyname (fst u) d),
     (''type'', type_names ! unat (usertype (fst u) d))]"

definition group_attrs :: "u32 \<times> string \<Rightarrow> (string \<times> string) list" where
  "group_attrs g = [(''id'', u32_text (fst g)), (''groupname'', snd g)]"

lemma ActGetUsers_attrs:
  assumes "con s = Some d" "list_all (\<lambda>(i, name). unat (usertype i d) < length type_names) (userList d)"
  shows "ActGetUsers cc mb s = Inr (numbered (\<lambda>u. set_attrs (user_attrs d u)) (userList d) 0 mb_ok, s)"
proof -
  have "(\<lambda>(i, name) n mb. mb_set (''type'' @ n) (type_names ! unat (usertype i d)) (mb_set (''friendlyname'' @ n) (friendlyname i d)
      (mb_set (''username'' @ n) name (mb_set (''id'' @ n) (u32_text i) mb)))) = (\<lambda>u. set_attrs (user_attrs d u))"
    by (auto simp: fun_eq_iff set_attrs_def user_attrs_def)
  moreover have "sv_db s = d" using assms(1) by (simp add: con_def split: if_splits)
  moreover have "\<not> list_ex (\<lambda>(i, name). length type_names \<le> unat (usertype i d)) (userList d)"
    using assms(2) by (auto simp: list_ex_iff list_all_iff)
  ultimately show ?thesis by (simp add: ActGetUsers_def db_default_def assms(1) Let_def)
qed

lemma ActGetGroups_attrs:
  assumes "con s = Some d"
  shows "ActGetGroups cc mb s = Inr (numbered (\<lambda>g. set_attrs (group_attrs g)) (groupList d) 0 mb_ok, s)"
proof -
  have "(\<lambda>(i, name) n mb. mb_set (''groupname'' @ n) name (mb_set (''id'' @ n) (u32_text i) mb)) = (\<lambda>g. set_attrs (group_attrs g))"
    by (auto simp: fun_eq_iff set_attrs_def group_attrs_def)
  then show ?thesis by (simp add: ActGetGroups_def db_default_def assms)
qed

lemma plain_names: "plain ''id''" "plain ''username''" "plain ''friendlyname''" "plain ''type''" "plain ''groupname''"
  by (simp_all add: plain_def)

lemma no_digit_names:
  "no_digits ''id''" "no_digits ''username''" "no_digits ''friendlyname''" "no_digits ''type''" "no_digits ''groupname''"
  by (simp_all add: no_digits_def is_digit_def digit_val_def)

lemma user_list_read:
  "info_loop (Message_Block.setMessageId [] (numbered (\<lambda>u. set_attrs (user_attrs d u)) l 0 mb_ok))
     (\<lambda>i h. \<lparr>ui_id = i, ui_username = h ''username'', ui_friendlyname = h ''friendlyname'', ui_type = h ''type''\<rparr>) 0 =
   Inr (map (\<lambda>(i, name). \<lparr>ui_id = i, ui_username = name, ui_friendlyname = friendlyname i d,
     ui_type = type_names ! unat (usertype i d)\<rparr>) l)"
proof -
  have F: "\<forall>x\<in>set l. list_all (no_digits \<circ> fst) (user_attrs d x)" by (simp add: user_attrs_def no_digit_names)
  let ?mb = "numbered (\<lambda>u. set_attrs (user_attrs d u)) l 0 mb_ok"
  have h: "header ?mb (''id'' @ string_of_nat j) = (if j < length l then Some (u32_text (fst (l ! j))) else None)"
    "header ?mb (''username'' @ string_of_nat j) = (if j < length l then Some (snd (l ! j)) else None)"
    "header ?mb (''friendlyname'' @ string_of_nat j) = (if j < length l then Some (friendlyname (fst (l ! j)) d) else None)"
    "header ?mb (''type'' @ string_of_nat j) = (if j < length l then Some (type_names ! unat (usertype (fst (l ! j)) d)) else None)" for j
    by (simp_all only: numbered_header [OF F] no_digit_names) (simp_all add: user_attrs_def)
  show ?thesis
    by (rule info_loop_values [where ids = fst])
      (simp_all add: h [simplified] Message_Block.setMessageId_def mb_get_def case_prod_unfold)
qed

lemma group_list_read:
  "info_loop (Message_Block.setMessageId [] (numbered (\<lambda>g. set_attrs (group_attrs g)) l 0 mb_ok))
     (\<lambda>i h. \<lparr>gi_id = i, gi_groupname = h ''groupname''\<rparr>) 0 = Inr (map (\<lambda>(i, name). \<lparr>gi_id = i, gi_groupname = name\<rparr>) l)"
proof -
  have F: "\<forall>x\<in>set l. list_all (no_digits \<circ> fst) (group_attrs x)" by (simp add: group_attrs_def no_digit_names)
  let ?mb = "numbered (\<lambda>g. set_attrs (group_attrs g)) l 0 mb_ok"
  have h: "header ?mb (''id'' @ string_of_nat j) = (if j < length l then Some (u32_text (fst (l ! j))) else None)"
    "header ?mb (''groupname'' @ string_of_nat j) = (if j < length l then Some (snd (l ! j)) else None)" for j
    by (simp_all only: numbered_header [OF F] no_digit_names) (simp_all add: group_attrs_def)
  show ?thesis
    by (rule info_loop_values [where ids = fst])
      (simp_all add: h [simplified] Message_Block.setMessageId_def mb_get_def case_prod_unfold)
qed

lemma remember_con: "con (remember_id s) = con s"
  by (simp add: con_def remember_id_def)

section \<open>Properties\<close>

text \<open>
  Claim C16. Whatever arrives in whatever pieces, the client's request gets the first answer among the
  blocks that were sent after it, every event before and after that answer is handed exactly once and in order to
  the callbacks registered for it, and the thread that receives is left between blocks.
\<close>

theorem client_receives_answer:
  assumes "list_all block_ok mbs" "list_all (\<lambda>mb. mb_message mb \<noteq> ''close'') mbs" "concat chunks = concat (map getRaw mbs)"
    "find is_reply mbs = Some reply" "sc_ssl c"
  shows "\<exists>c'. receive_chunks None chunks (c\<lparr>sc_response := None\<rparr>) = Some (None, c') \<and>
    sendMB True mbs c = Some (Some reply, c'\<lparr>sc_response := None\<rparr>) \<and>
    sc_calls c' = sc_calls c @ concat (map (event_calls c) (filter (\<lambda>mb. \<not> is_reply mb) mbs))"
proof -
  let ?c = "fold processMB mbs (c\<lparr>sc_response := None\<rparr>)"
  have "read_chunks None chunks = Some (mbs, None)"
    using assms(1,3) read_chunks_concat [of None chunks] read_bytes_stream [of mbs] by (simp add: cur_ok_def)
  from receive_chunks_blocks [OF this] have r: "receive_chunks None chunks (c\<lparr>sc_response := None\<rparr>) = Some (None, ?c)" .
  have e: "event_calls (c\<lparr>sc_response := None\<rparr>) = event_calls c" by (simp add: fun_eq_iff event_calls_def callbacks_def)
  note p = process_blocks [OF assms(2), of "c\<lparr>sc_response := None\<rparr>"]
  have "sc_response ?c = Some reply" using p assms(4) by simp
  then have "sendMB True mbs c = Some (Some reply, ?c\<lparr>sc_response := None\<rparr>)" using assms(5) by (simp add: sendMB_def Let_def)
  with r p e show ?thesis by simp
qed

text \<open>
  Claim C9. A client sees the users and groups of the server's database. When a client whose connection has the permission to administer
  users asks for them over the wire, the records that \<^verbatim>\<open>getUsers\<close> and \<^verbatim>\<open>getGroups\<close> return are
  exactly the rows of the tables, in order, provided all names are single lines and all types of users are known.
\<close>

theorem client_reads_users:
  assumes d: "con s = Some d" and id: "my_id s \<noteq> 0" and c: "smap_find (conns (sv_hub s)) cc = Some c"
    and may: "matches (PT_BASE PERMISSION_USER_ADMIN) (cn_permissions c) = Some True"
    and names: "list_all (\<lambda>(i, name). plain name \<and> plain (friendlyname i d) \<and> unat (usertype i d) < length type_names) (userList d)"
    and groups: "list_all (\<lambda>(i, name). plain name) (groupList d)" and split: "\<And>t. concat (split t) = t"
  shows "ServerConnection_getUsers (ask_server hash split cc s) = Inr (map (\<lambda>(i, name). \<lparr>ui_id = i, ui_username = name,
      ui_friendlyname = friendlyname i d, ui_type = type_names ! unat (usertype i d)\<rparr>) (userList d)) \<and>
    ServerConnection_getGroups (ask_server hash split cc s) =
      Inr (map (\<lambda>(i, name). \<lparr>gi_id = i, gi_groupname = name\<rparr>) (groupList d))"
proof
  note d' = trans [OF remember_con d]
  have q: "mb_message (request a []) = a" "mb_message_id (request a []) = []" for a
    by (simp_all add: request_def MessageBlock_new_def MessageBlock_empty_def)
  let ?users = "numbered (\<lambda>u. set_attrs (user_attrs d u)) (userList d) 0 mb_ok"
    and ?groups = "numbered (\<lambda>g. set_attrs (group_attrs g)) (groupList d) 0 mb_ok"
  have ok: "block_ok mb_ok" "is_reply ?users" "is_reply ?groups" by (simp_all add: example_block_ok is_reply_def)
  have "plain (type_names ! n)" if "n < length type_names" for n
    using that nth_mem [OF that] by (auto simp: type_names_def plain_def)
  then have "block_ok ?users" using names
    by (intro block_ok_numbered ok) (auto simp: list_all_iff user_attrs_def plain_attr_def plain_names)
  moreover have "ActGetUsers cc (request ''getusers'' []) (remember_id s) = Inr (?users, remember_id s)"
    using names by (intro ActGetUsers_attrs [OF d']) (auto simp: list_all_iff)
  moreover have "map_of (actionmap hash) ''getusers'' = Some (PT_BASE PERMISSION_USER_ADMIN, ActGetUsers)" by (simp add: actionmap_def)
  ultimately have "ask_server hash split cc s (request ''getusers'' []) = Some (Message_Block.setMessageId [] ?users)"
    using ok(2) may by (intro ask_server_reply [where act = ActGetUsers, OF id c _ _ _ _ _ _ split, where pt = "PT_BASE PERMISSION_USER_ADMIN"])
      (simp_all add: q)
  then show "ServerConnection_getUsers (ask_server hash split cc s) = Inr (map (\<lambda>(i, name). \<lparr>ui_id = i, ui_username = name,
      ui_friendlyname = friendlyname i d, ui_type = type_names ! unat (usertype i d)\<rparr>) (userList d))"
    by (simp add: ServerConnection_getUsers_def infoAction_def user_list_read) (simp add: Message_Block.setMessageId_def)
  have "block_ok ?groups" using groups
    by (intro block_ok_numbered ok) (auto simp: list_all_iff group_attrs_def plain_attr_def plain_names)
  moreover have "ActGetGroups cc (request ''getgroups'' []) (remember_id s) = Inr (?groups, remember_id s)"
    by (rule ActGetGroups_attrs [OF d'])
  moreover have "map_of (actionmap hash) ''getgroups'' =
      Some (PT_OR (PT_BASE PERMISSION_USER_ADMIN) (PT_BASE PERMISSION_START_STOP), ActGetGroups)" by (simp add: actionmap_def)
  ultimately have "ask_server hash split cc s (request ''getgroups'' []) = Some (Message_Block.setMessageId [] ?groups)"
    using ok(3) may by (intro ask_server_reply [where act = ActGetGroups, OF id c _ _ _ _ _ _ split,
        where pt = "PT_OR (PT_BASE PERMISSION_USER_ADMIN) (PT_BASE PERMISSION_START_STOP)"]) (simp_all add: q)
  then show "ServerConnection_getGroups (ask_server hash split cc s) =
      Inr (map (\<lambda>(i, name). \<lparr>gi_id = i, gi_groupname = name\<rparr>) (groupList d))"
    by (simp add: ServerConnection_getGroups_def infoAction_def group_list_read) (simp add: Message_Block.setMessageId_def)
qed

text \<open>An administrator's client and a database with a group and two users.\<close>

definition example_contest :: db where
  "example_contest = db_empty\<lparr>t_Group := [(1, ''default'')],
     t_User := [(1, \<lparr>u_username = ''admin'', u_friendlyname = ''Administrator'', u_password = [], u_type = 1, u_group = 1,
                 u_bonus_points = 0, u_bonus_seconds = 0\<rparr>),
               (17, \<lparr>u_username = ''team'', u_friendlyname = ''Team'', u_password = [], u_type = 3, u_group = 1,
                 u_bonus_points = 0, u_bonus_seconds = 0\<rparr>)]\<rparr>"

definition example_admin :: connection where
  "example_admin = connection_new\<lparr>cn_user_id := 1, cn_permissions := permissions_of 1\<rparr>"

definition example_session :: server where
  "example_session = (example_server example_contest)\<lparr>sv_hub := hub_new\<lparr>conns := [(7, example_admin)]\<rparr>\<rparr>"

theorem client_reads_users_witness:
  "ServerConnection_getUsers (ask_server (\<lambda>name pw. pw) (\<lambda>t. [take 10 t, drop 10 t]) 7 example_session) =
     Inr [\<lparr>ui_id = 1, ui_username = ''admin'', ui_friendlyname = ''Administrator'', ui_type = ''admin''\<rparr>,
          \<lparr>ui_id = 17, ui_username = ''team'', ui_friendlyname = ''Team'', ui_type = ''contestant''\<rparr>]"
proof -
  have "con example_session = Some example_contest" by (simp add: con_def example_session_def example_server_def)
  moreover have "my_id example_session \<noteq> 0" by (simp add: my_id_def getId_def example_session_def example_server_def)
  moreover have "smap_find (conns (sv_hub example_session)) 7 = Some example_admin" by (simp add: example_session_def hub_new_def)
  moreover have "matches (PT_BASE PERMISSION_USER_ADMIN) (cn_permissions example_admin) = Some True" by code_simp
  moreover have u: "userList example_contest = [(1, ''admin''), (17, ''team'')]" "groupList example_contest = [(1, ''default'')]"
    by (simp_all add: userList_def groupList_def example_contest_def db_empty_def)
  moreover have f: "friendlyname 1 example_contest = ''Administrator''" "friendlyname 17 example_contest = ''Team''"
    "usertype 1 example_contest = 1" "usertype 17 example_contest = 3"
    by (simp_all add: friendlyname_def usertype_def user_column_def example_contest_def db_empty_def)
  ultimately show ?thesis
    using client_reads_users [of example_session example_contest 7 example_admin "\<lambda>t. [take 10 t, drop 10 t]" "\<lambda>name pw. pw"]
    by (simp add: plain_def type_names_def)
qed

theorem client_receives_answer_witness:
  "\<exists>c'. receive_chunks None [concat (map getRaw [MessageBlock_new ''keepalive'', mb_ok])] idle_client = Some (None, c') \<and>
     sendMB True [MessageBlock_new ''keepalive'', mb_ok] idle_client = Some (Some mb_ok, c'\<lparr>sc_response := None\<rparr>)"
proof -
  let ?mbs = "[MessageBlock_new ''keepalive'', mb_ok]"
  have m: "mb_message (MessageBlock_new t) = t" for t by (simp add: MessageBlock_new_def)
  have "list_all block_ok ?mbs" by (simp add: example_block_ok block_ok_new plain_def)
  moreover have "find is_reply ?mbs = Some mb_ok" by (simp add: is_reply_def m)
  moreover have "idle_client\<lparr>sc_response := None\<rparr> = idle_client" by (simp add: idle_client_def)
  ultimately show ?thesis
    using client_receives_answer [of ?mbs "[concat (map getRaw ?mbs)]" mb_ok idle_client] by (auto simp: m idle_client_def)
qed

section \<open>Lists of submissions\<close>

lemma submissionToMB_attrs:
  assumes "submissionToMB tm now d a n mb = Some mb'"
  shows "\<exists>x y z. mb' = set_attrs (a @ [(''contesttime'', x), (''result'', y), (''comment'', z)]) n mb"
  using assms by (auto simp: submissionToMB_def Let_def set_attrs_def split: option.splits prod.splits)

lemma submissions_mb_numbered:
  assumes "submissions_mb tm now d as c mb = Some mb'"
  shows "\<exists>bs. length bs = length as \<and> mb' = numbered set_attrs bs c mb \<and>
    (\<forall>k<length as. \<exists>x y z. bs ! k = as ! k @ [(''contesttime'', x), (''result'', y), (''comment'', z)])"
  using assms
proof (induction as arbitrary: c mb)
  case (Cons a as)
  from Cons.prems obtain mb1 where mb1: "submissionToMB tm now d a (string_of_nat c) mb = Some mb1"
    "submissions_mb tm now d as (c + 1) mb1 = Some mb'" by (auto split: option.splits)
  from submissionToMB_attrs [OF mb1(1)] obtain x y z where
    a: "mb1 = set_attrs (a @ [(''contesttime'', x), (''result'', y), (''comment'', z)]) (string_of_nat c) mb" by blast
  from Cons.IH [OF mb1(2)] obtain bs where bs: "length bs = length as" "mb' = numbered set_attrs bs (c + 1) mb1"
    "\<forall>k<length as. \<exists>x y z. bs ! k = as ! k @ [(''contesttime'', x), (''result'', y), (''comment'', z)]" by blast
  let ?b = "a @ [(''contesttime'', x), (''result'', y), (''comment'', z)]"
  have "\<exists>x y z. (?b # bs) ! k = (a # as) ! k @ [(''contesttime'', x), (''result'', y), (''comment'', z)]" if "k < length (a # as)" for k
    using bs(3) that by (cases k) auto
  with bs(1,2) a show ?case by (intro exI [of _ "?b # bs"]) simp
qed simp

lemma submissions_mb_answers:
  "set as \<subseteq> set (getSubmissions uid d) \<Longrightarrow> \<exists>mb'. submissions_mb tm now d as c mb = Some mb'"
proof (induction as arbitrary: c mb)
  case (Cons a as)
  from Cons.prems submission_columns obtain g q p i t where
    a: "a = [(''group_id'', u32_text g), (''prob_id'', u32_text q), (''problem'', p), (''submission_id'', u32_text i), (''time'', u32_text t)]" by fastforce
  have "attr a ''submission_id'' = u32_text i" "attr a ''time'' = u32_text t" "attr a ''group_id'' = u32_text g" by (simp_all add: a attr_def)
  then have "submissionToMB tm now d a (string_of_nat c) mb \<noteq> None"
    by (simp add: submissionToMB_def text_u32 text_time [simplified] Let_def split: prod.split)
  with Cons show ?case by auto
qed simp

lemma no_digit_submission:
  "no_digits ''group_id''" "no_digits ''prob_id''" "no_digits ''problem''" "no_digits ''submission_id''" "no_digits ''time''"
  "no_digits ''contesttime''" "no_digits ''result''" "no_digits ''comment''" "no_digits ''contestant''"
  by (simp_all add: no_digits_def is_digit_def digit_val_def)

text \<open>
  Claim C30. A client never sees the first submission of the list. The server numbers the entries of its answer from 0 on but
  \<^verbatim>\<open>multiListFromMB\<close> increments its counter before it makes the names: the server always answers, and of the submissions
  that it sends \<^verbatim>\<open>getSubmissions\<close> of the client returns all but the first.
\<close>

theorem client_loses_first_submission:
  "\<exists>reply. answer_submissions uid d s = Inr (reply, s) \<and> map (\<lambda>a. attr a ''submission_id'') (ServerConnection_getSubmissions True (\<lambda>mb. Some reply)) =
    tl (map (\<lambda>a. attr a ''submission_id'') (getSubmissions uid d))"
proof -
  let ?l = "getSubmissions uid d"
  obtain reply where r: "submissions_mb (sv_timer s) (sv_now s) d ?l 0 mb_ok = Some reply"
    using submissions_mb_answers [OF order_refl] by blast
  then have reply: "answer_submissions uid d s = Inr (reply, s)" by (simp add: answer_submissions_def)
  from submissions_mb_numbered [OF r] obtain bs where bs: "length bs = length ?l" "reply = numbered (\<lambda>x. set_attrs x) bs 0 mb_ok"
    "\<And>k. k < length ?l \<Longrightarrow> \<exists>x y z. bs ! k = ?l ! k @ [(''contesttime'', x), (''result'', y), (''comment'', z)]" by auto
  have row: "list_all (no_digits \<circ> fst) (bs ! k) \<and> map_of (rev (bs ! k)) ''submission_id'' = Some (attr (?l ! k) ''submission_id'')"
    if "k < length ?l" for k
    using bs(3) [OF that] submission_columns [OF nth_mem [OF that]] by (auto simp: no_digit_submission attr_def)
  then have F: "\<forall>b\<in>set bs. list_all (no_digits \<circ> fst) b" using bs(1) by (auto simp: in_set_conv_nth)
  note h = numbered_header [OF F, of _ 0 mb_ok, folded bs(2), simplified]
  have id: "header reply (''submission_id'' @ string_of_nat j) = (if j < length ?l then Some (attr (?l ! j) ''submission_id'') else None)" for j
    using h [OF no_digit_submission(4), of j] row [of j] bs(1) by simp
  have none: "header reply (q @ string_of_nat j) = None" if "q \<in> set submission_fields" "length ?l \<le> j" for q j
    using that h [of q j] bs(1) no_digit_submission by (auto simp: submission_fields_def)
  have "multi_loop reply submission_fields 0 = map (\<lambda>k. multi_attrs reply submission_fields (0 + 1 + k)) [0..<length ?l - 1]"
    by (rule multi_loop_values [of "''submission_id''"]) (simp_all only: id none, auto simp: submission_fields_def)
  moreover have "attr (multi_attrs reply submission_fields j) ''submission_id'' = attr (?l ! j) ''submission_id''" if "j < length ?l" for j
    using that by (simp add: attr_def multi_attrs_find submission_fields_def) (simp add: id [simplified] attr_def)
  ultimately have "map (\<lambda>a. attr a ''submission_id'') (ServerConnection_getSubmissions True (\<lambda>mb. Some reply)) =
      tl (map (\<lambda>a. attr a ''submission_id'') ?l)"
    by (intro nth_equalityI)
      (simp_all add: ServerConnection_getSubmissions_def multiVectorAction_def multiListFromMB_def nth_tl)
  with reply show ?thesis by blast
qed

end
