(* ===== verification/Client_Marks.thy ===== *)
theory Client_Marks
  imports Client_Server
begin

text \<open>
  Files that a marker attaches to a mark: how \<^verbatim>\<open>ServerConnection::mark\<close> describes them in its request and
  what \<^verbatim>\<open>ActPlaceMark\<close> makes of the descriptions.
\<close>

section \<open>Descriptions of files\<close>

lemma string_of_nat_length: "n < 10 ^ k \<Longrightarrow> 0 < k \<Longrightarrow> length (string_of_nat n) \<le> k"
proof (induction k arbitrary: n)
  case (Suc k)
  show ?case
  proof (cases "n < 10")
    case False
    then have "0 < k" using Suc.prems(1) by (cases k) auto
    moreover have "n div 10 < 10 ^ k" using Suc.prems(1) by (simp add: less_mult_imp_div_less)
    ultimately have "length (string_of_nat (n div 10)) \<le> k" by (intro Suc.IH)
    with False show ?thesis by (subst string_of_nat.simps) simp
  qed (subst string_of_nat.simps, simp)
qed simp

lemma string_of_nat_decimal: "c \<in> set (string_of_nat n) \<Longrightarrow> is_decimal c"
proof -
  assume "c \<in> set (string_of_nat n)"
  then obtain d where d: "d < 10" "c = digit_char d" using string_of_nat_chars by blast
  have "(of_char (CHR ''0'') :: nat) = 48" "(of_char (CHR ''9'') :: nat) = 57" by simp_all
  with d digit_char_code [OF d(1)] show ?thesis by (simp add: is_decimal_def less_eq_char_def)
qed

lemma take_number_text: "take_number (string_of_nat n @ CHR '' '' # rest) = Some (string_of_nat n, rest)"
proof -
  have d: "\<forall>c\<in>set (string_of_nat n). is_decimal c" using string_of_nat_decimal by blast
  have "\<not> is_decimal CHR '' ''" by (simp add: is_decimal_def less_eq_char_def)
  with d have "takeWhile is_decimal (string_of_nat n @ CHR '' '' # rest) = string_of_nat n"
    "dropWhile is_decimal (string_of_nat n @ CHR '' '' # rest) = CHR '' '' # rest" by (simp_all add: takeWhile_append2 dropWhile_append2)
  then show ?thesis by (simp add: take_number_def)
qed

definition printable :: "string \<Rightarrow> bool" where
  "printable name \<longleftrightarrow> name \<noteq> [] \<and> list_all is_print name"

lemma printable_chars:
  assumes "printable name" "c \<in> set name"
  shows "c \<noteq> CHR 0x00" "c \<noteq> CHR 0x0A"
  using assms by (auto simp: printable_def list_all_iff is_print_def less_eq_char_def)

lemma match_file_header:
  assumes "fst place < 10 ^ 7" "snd place < 10 ^ 7" "printable name"
  shows "match_mark_file (file_header place name) = Some (string_of_nat (fst place), string_of_nat (snd place), name)"
proof -
  have "no_nul (file_header place name)"
    using printable_chars(1) [OF assms(3)] string_of_nat_plain(9) by (auto simp: no_nul_def file_header_def)
  then have "match_mark_file (file_header place name) = match_file (\<lambda>ds. length ds \<le> 7) is_print (file_header place name)"
    by (simp add: match_mark_file_def)
  also have "\<dots> = Some (string_of_nat (fst place), string_of_nat (snd place), name)"
    using assms string_of_nat_length [of _ 7]
    by (simp add: match_file_def file_header_def take_number_text printable_def)
  finally show ?thesis .
qed

section \<open>The contents\<close>

lemma read_files_places:
  assumes "read_files files paths off = Some (places, data)"
  shows "length places = length paths \<and> (\<forall>k<length paths. \<exists>t. files (paths ! k) = Some t \<and> snd (places ! k) = length t \<and>
    off \<le> fst (places ! k) \<and> fst (places ! k) + length t \<le> off + length data \<and>
    take (length t) (drop (fst (places ! k) - off) data) = t)"
  using assms
proof (induction paths arbitrary: off places data)
  case (Cons path paths)
  from Cons.prems obtain t ps rest where t: "files path = Some t" "read_files files paths (off + length t) = Some (ps, rest)"
    "places = (off, length t) # ps" "data = t @ rest" by (auto split: option.splits)
  note IH = Cons.IH [OF t(2)]
  have "\<exists>u. files ((path # paths) ! k) = Some u \<and> snd (places ! k) = length u \<and> off \<le> fst (places ! k) \<and>
      fst (places ! k) + length u \<le> off + length data \<and> take (length u) (drop (fst (places ! k) - off) data) = u"
    if k: "k < length (path # paths)" for k
  proof (cases k)
    case (Suc j)
    with k IH obtain u where u: "files (paths ! j) = Some u" "snd (ps ! j) = length u" "off + length t \<le> fst (ps ! j)"
      "fst (ps ! j) + length u \<le> off + length t + length rest" "take (length u) (drop (fst (ps ! j) - (off + length t)) rest) = u" by auto
    have "drop (fst (ps ! j) - off) (t @ rest) = drop (fst (ps ! j) - (off + length t)) rest" using u(3) by simp
    with u Suc show ?thesis by (simp add: t(3,4))
  qed (simp add: t)
  then show ?case using IH t(3) by simp
qed simp

lemma read_files_total: "list_all (\<lambda>p. files p \<noteq> None) paths \<Longrightarrow> \<exists>places data. read_files files paths off = Some (places, data)"
proof (induction paths arbitrary: off)
  case (Cons p ps)
  then obtain t where t: "files p = Some t" by auto
  from Cons obtain places data where "read_files files ps (off + length t) = Some (places, data)" by fastforce
  with t show ?case by simp
qed simp

section \<open>The request\<close>

lemma fold_numbered:
  "fold (\<lambda>(k, v). mb_set k v) (map (\<lambda>(c, x). (''file'' @ string_of_nat c, g x)) (enumerate i zs)) mb =
   numbered (\<lambda>x. set_attrs [(''file'', g x)]) zs i mb"
  by (induction zs arbitrary: i mb) (simp_all add: set_attrs_def)

definition mark_basics :: "u32 \<Rightarrow> int \<Rightarrow> string \<Rightarrow> MessageBlock" where
  "mark_basics sub res comment = mb_set ''comment'' comment (mb_set ''result'' (to_string res)
     (mb_set ''submission_id'' (u32_text sub) (MessageBlock_new ''mark'')))"

lemma mark_message_numbered:
  "mark_message sub res comment names places data = setContent data
     (numbered (\<lambda>(name, place). set_attrs [(''file'', file_header place name)]) (zip names places) 0 (mark_basics sub res comment))"
proof -
  have "map (\<lambda>(c, name, place). (''file'' @ string_of_nat c, file_header place name)) l =
      map (\<lambda>(c, x). (''file'' @ string_of_nat c, (\<lambda>(name, place). file_header place name) x)) l" for l
    by (simp add: case_prod_unfold)
  then show ?thesis
    using fold_numbered [where g = "\<lambda>(name, place). file_header place name"]
    by (simp add: mark_message_def request_def mark_basics_def case_prod_unfold)
qed

lemma setContent_header: "name \<noteq> ''content-length'' \<Longrightarrow> header (setContent data mb) name = header mb name"
  by (simp add: setContent_def smap_find_put)

lemma setContent_bytes: "content_bytes (setContent data mb) = bytes_of data"
  by (simp add: setContent_def content_bytes_def bytes_of_def)

lemma no_digit_file: "no_digits ''file''"
  by (simp add: no_digits_def is_digit_def digit_val_def)

lemma mark_message_header:
  assumes "length names = length places"
  shows "header (mark_message sub res comment names places data) (''file'' @ string_of_nat j) =
    (if j < length names then Some (file_header (places ! j) (names ! j)) else None)"
proof -
  have F: "\<forall>x\<in>set (zip names places). list_all (no_digits \<circ> fst) ((\<lambda>(name, place). [(''file'', file_header place name)]) x)"
    by (auto simp: no_digit_file)
  have b: "header (mark_basics sub res comment) (''file'' @ string_of_nat j) = None"
    by (simp add: mark_basics_def MessageBlock_new_def MessageBlock_empty_def)
  have e: "(\<lambda>(name, place). set_attrs [(''file'', file_header place name)]) = (\<lambda>x. set_attrs ((\<lambda>(name, place). [(''file'', file_header place name)]) x))"
    by auto
  have "header (mark_message sub res comment names places data) (''file'' @ string_of_nat j) =
      header (numbered (\<lambda>(name, place). set_attrs [(''file'', file_header place name)]) (zip names places) 0 (mark_basics sub res comment)) (''file'' @ string_of_nat j)"
    unfolding mark_message_numbered by (rule setContent_header) simp
  also have "\<dots> = (if j < length names then Some (file_header (places ! j) (names ! j)) else None)"
    unfolding e numbered_header [OF F no_digit_file] b using assms by simp
  finally show ?thesis .
qed

section \<open>What the server takes\<close>

lemma text_u32_small:
  assumes "n < 10 ^ 7"
  shows "from_string_u32 (string_of_nat n) = Some (word_of_int (int n))" "unat (word_of_int (int n) :: u32) = n"
proof -
  have "from_string 0 (2 ^ 32 - 1) (to_string (int n)) = Some (int n)" using assms by (intro from_string_to_string) simp_all
  then show "from_string_u32 (string_of_nat n) = Some (word_of_int (int n))" by (simp add: from_string_u32_def to_string_def)
  show "unat (word_of_int (int n) :: u32) = n" using assms by (simp add: unsigned_of_nat take_bit_nat_eq_self)
qed

lemma add_mark_file_takes:
  assumes "fst place + snd place \<le> length data" "length data < 10 ^ 7" "printable name" "content_bytes mb = bytes_of data"
  shows "add_mark_file mb (file_header place name) m =
    Some (m\<lparr>mm_files := mm_files m @ [\<lparr>mf_name = name, mf_data = bytes_of (take (snd place) (drop (fst place) data))\<rparr>]\<rparr>)"
proof -
  have l: "fst place < 10 ^ 7" "snd place < 10 ^ 7" using assms(1,2) by linarith+
  note n = text_u32_small [OF l(1)] text_u32_small [OF l(2)]
  have "copy_content mb (word_of_int (int (fst place))) (word_of_int (int (snd place))) = Some (bytes_of (take (snd place) (drop (fst place) data)))"
    unfolding copy_content_def n(2,4) assms(4) using assms(1) by (simp add: bytes_of_def take_map drop_map)
  then show ?thesis unfolding add_mark_file_def match_file_header [OF l assms(3)] by (simp add: n(1,3))
qed

lemma mark_files_loop_takes:
  assumes "\<And>k. k < length fl \<Longrightarrow> \<exists>desc. header mb (''file'' @ string_of_nat (i + k)) = Some desc \<and>
      (\<forall>m. add_mark_file mb desc m = Some (m\<lparr>mm_files := mm_files m @ [fl ! k]\<rparr>))"
    "header mb (''file'' @ string_of_nat (i + length fl)) = None"
  shows "mark_files_loop mb i m = Some (m\<lparr>mm_files := mm_files m @ fl\<rparr>)"
  using assms
proof (induction fl arbitrary: i m)
  case Nil
  then show ?case by (subst mark_files_loop.simps) (simp add: hasAttribute_def)
next
  case (Cons f fl)
  from Cons.prems(1) [of 0] obtain desc where d: "header mb (''file'' @ string_of_nat i) = Some desc"
    "add_mark_file mb desc m = Some (m\<lparr>mm_files := mm_files m @ [f]\<rparr>)" by auto
  have "mark_files_loop mb (i + 1) (m\<lparr>mm_files := mm_files m @ [f]\<rparr>) = Some (m\<lparr>mm_files := mm_files m @ f # fl\<rparr>)"
    using Cons.prems(1) [of "Suc _"] Cons.prems(2)
      Cons.IH [of "i + 1" "m\<lparr>mm_files := mm_files m @ [f]\<rparr>"] by simp
  with d show ?case by (subst mark_files_loop.simps) (simp add: hasAttribute_def mb_get_def)
qed

lemma plain_number: "plain (to_string n)"
  using string_of_nat_plain(4) by (auto simp: plain_def to_string_def)

lemma mark_message_ok:
  assumes "plain comment" "list_all printable names" "length data < 10 ^ 7"
  shows "block_ok (mark_message sub res comment names places data)"
proof -
  have "block_ok (mark_basics sub res comment)" unfolding mark_basics_def
    by (intro block_ok_set block_ok_new) (use assms(1) plain_number in \<open>simp_all add: plain_def [of "''mark''"] plain_def [of "''comment''"]
      plain_def [of "''result''"] plain_def [of "''submission_id''"]\<close>)
  moreover have "plain (file_header place name)" if "printable name" for place name
    using printable_chars(2) [OF that] string_of_nat_plain(4) by (auto simp: plain_def file_header_def)
  then have "\<forall>x\<in>set (zip names places). list_all plain_attr ((\<lambda>(name, place). [(''file'', file_header place name)]) x)"
    using assms(2) by (auto simp: plain_attr_def plain_def [of "''file''"] list_all_iff dest: set_zip_leftD)
  ultimately have "block_ok (numbered (\<lambda>x. set_attrs ((\<lambda>(name, place). [(''file'', file_header place name)]) x)) (zip names places) 0
      (mark_basics sub res comment))" by (rule block_ok_numbered)
  moreover have "(\<lambda>x. set_attrs ((\<lambda>(name, place). [(''file'', file_header place name)]) x)) = (\<lambda>(name, place). set_attrs [(''file'', file_header place name)])"
    by auto
  ultimately have b: "block_ok (numbered (\<lambda>(name, place). set_attrs [(''file'', file_header place name)]) (zip names places) 0 (mark_basics sub res comment))"
    by simp
  show ?thesis
  proof (cases "data = []")
    case True
    have "mb_content (numbered (\<lambda>(name, place). set_attrs [(''file'', file_header place name)]) l c mb) = mb_content mb" for l c mb
      by (induction l arbitrary: c mb) (auto simp: set_attrs_def mb_set_def)
    then have "mb_content (numbered (\<lambda>(name, place). set_attrs [(''file'', file_header place name)]) (zip names places) 0 (mark_basics sub res comment)) = None"
      by (simp add: mark_basics_def mb_set_def MessageBlock_new_def MessageBlock_empty_def)
    with b True show ?thesis by (auto simp: mark_message_numbered setContent_def block_ok_def content_agrees_def)
  qed (use b assms(3) block_ok_setContent in \<open>simp add: mark_message_numbered\<close>)
qed

section \<open>Property\<close>

text \<open>
  Claim C15. The files that a marker attaches arrive. When the files can be read, hold fewer than ten million bytes together and have
  printable names, \<^verbatim>\<open>mark\<close> sends one well-formed request, and the loop of \<^verbatim>\<open>ActPlaceMark\<close> takes from it exactly
  these files, in order, each with its name and its contents.
\<close>

theorem marker_files_arrive:
  assumes read: "list_all (\<lambda>(name, path). printable name \<and> files path \<noteq> None) fs"
    and size: "sum_list (map (\<lambda>(name, path). length (the (files path))) fs) < 10 ^ 7" and comment: "plain comment"
  shows "\<exists>mb. (\<forall>ask. ServerConnection_mark files ask sub res comment fs = Inr (simpleAction ask mb)) \<and> block_ok mb \<and>
    mark_files_loop mb 0 m =
      Some (m\<lparr>mm_files := mm_files m @ map (\<lambda>(name, path). \<lparr>mf_name = name, mf_data = bytes_of (the (files path))\<rparr>) fs\<rparr>)"
proof -
  have "list_all (\<lambda>p. files p \<noteq> None) (map snd fs)" using read by (auto simp: list_all_iff)
  from read_files_total [OF this] obtain places data where l: "read_files files (map snd fs) 0 = Some (places, data)" by blast
  note P = read_files_places [OF l]
  have "length data = sum_list (map (\<lambda>(name, path). length (the (files path))) fs)"
    if "read_files files (map snd fs) off = Some (places, data)" for off places data
    using that by (induction fs arbitrary: off places data) (auto split: option.splits)
  with l size have s: "length data < 10 ^ 7" by simp
  let ?mb = "mark_message sub res comment (map fst fs) places data"
  let ?fl = "map (\<lambda>(name, path). \<lparr>mf_name = name, mf_data = bytes_of (the (files path))\<rparr>) fs"
  have c: "content_bytes ?mb = bytes_of data" by (simp add: mark_message_numbered setContent_bytes)
  have h: "header ?mb (''file'' @ string_of_nat j) = (if j < length fs then Some (file_header (places ! j) (fst (fs ! j))) else None)" for j
    using P mark_message_header [of "map fst fs" places] by simp
  have "mark_files_loop ?mb 0 m = Some (m\<lparr>mm_files := mm_files m @ ?fl\<rparr>)"
  proof (rule mark_files_loop_takes)
    fix k assume k: "k < length ?fl"
    then have kf: "k < length fs" by simp
    obtain name path where f: "fs ! k = (name, path)" by (cases "fs ! k")
    from P kf f obtain t where t: "files path = Some t" "snd (places ! k) = length t" "fst (places ! k) + length t \<le> length data"
      "take (length t) (drop (fst (places ! k)) data) = t" by auto
    have "printable name" using read nth_mem [OF kf] f by (auto simp: list_all_iff)
    from add_mark_file_takes [OF _ s this c, of "places ! k"] t
    have "add_mark_file ?mb (file_header (places ! k) name) m = Some (m\<lparr>mm_files := mm_files m @ [?fl ! k]\<rparr>)" for m
      using kf f by simp
    with h [of k] kf f show "\<exists>desc. header ?mb (''file'' @ string_of_nat (0 + k)) = Some desc \<and>
        (\<forall>m. add_mark_file ?mb desc m = Some (m\<lparr>mm_files := mm_files m @ [?fl ! k]\<rparr>))"
      by (intro exI [of _ "file_header (places ! k) name"]) simp
  qed (simp only: h add_0 length_map less_irrefl if_False)
  moreover have "ServerConnection_mark files ask sub res comment fs = Inr (simpleAction ask ?mb)" for ask
    using l s by (simp add: ServerConnection_mark_def)
  moreover have "block_ok ?mb" using comment s read by (intro mark_message_ok) (auto simp: list_all_iff)
  ultimately show ?thesis by blast
qed

text \<open>A marker attaches the output of the compiler and an empty file.\<close>

theorem marker_files_arrive_witness:
  "\<exists>mb. ServerConnection_mark [''/tmp/cc.log'' \<mapsto> ''error'', ''/tmp/empty'' \<mapsto> []] (\<lambda>mb. Some mb_ok) 17 1 ''Compile error''
      [(''compiler output'', ''/tmp/cc.log''), (''stdout'', ''/tmp/empty'')] = Inr (simpleAction (\<lambda>mb. Some mb_ok) mb) \<and> block_ok mb \<and>
    mark_files_loop mb 0 \<lparr>mm_submission_id = 17, mm_marker = 5, mm_result = 1, mm_time = 0, mm_server_id = 1, mm_comment = [], mm_files = []\<rparr> =
      Some \<lparr>mm_submission_id = 17, mm_marker = 5, mm_result = 1, mm_time = 0, mm_server_id = 1, mm_comment = [],
        mm_files = [\<lparr>mf_name = ''compiler output'', mf_data = bytes_of ''error''\<rparr>, \<lparr>mf_name = ''stdout'', mf_data = []\<rparr>]\<rparr>"
proof -
  let ?files = "[''/tmp/cc.log'' \<mapsto> ''error'', ''/tmp/empty'' \<mapsto> []] :: string \<Rightarrow> string option"
  let ?fs = "[(''compiler output'', ''/tmp/cc.log''), (''stdout'', ''/tmp/empty'')]"
  have "printable ''compiler output''" "printable ''stdout''" by (simp_all add: printable_def is_print_def less_eq_char_def)
  then show ?thesis
    using marker_files_arrive [of ?files ?fs "''Compile error''" 17 1
        "\<lparr>mm_submission_id = 17, mm_marker = 5, mm_result = 1, mm_time = 0, mm_server_id = 1, mm_comment = [], mm_files = []\<rparr>"]
    by (auto simp: plain_def bytes_of_def [of "[]"])
qed

end
