(* ===== verification/Udtcp.thy ===== *)
theory Udtcp
  imports Replication Udp
begin

text \<open>
  The other messenger between servers, \<^verbatim>\<open>src/udtcpmessenger.C\<close>: a small message travels in one encrypted
  datagram, a large one is announced and fetched over TLS from a server that announced it. Cipher, resolver and
  what happens on a TCP connection are parameters. Addresses are numbers.
\<close>

section \<open>Frames\<close>

text \<open>\<^verbatim>\<open>struct st_frame\<close>, packed into 21 bytes before the data.\<close>

record udtcp_frame =
  uf_checksum :: u32
  uf_sender_id :: u32
  uf_server_id :: u32
  uf_message_id :: u32
  uf_message_size :: u32
  uf_type :: "8 word"
  uf_data :: bytes

definition UDTCP_FRAME_SIZE :: nat where "UDTCP_FRAME_SIZE = 21"
definition UDTCP_BUFFER_SIZE :: nat where "UDTCP_BUFFER_SIZE = 5120"
definition MAX_UDP_MESSAGE_SIZE :: nat where "MAX_UDP_MESSAGE_SIZE = UDTCP_BUFFER_SIZE - UDTCP_FRAME_SIZE"
definition TYPE_ACK :: "8 word" where "TYPE_ACK = 1"
definition TYPE_INLINE :: "8 word" where "TYPE_INLINE = 2"
definition TYPE_NOTIFY :: "8 word" where "TYPE_NOTIFY = 3"

definition encode_udtcp :: "udtcp_frame \<Rightarrow> bytes" where
  "encode_udtcp f = le32 (uf_checksum f) @ le32 (uf_sender_id f) @ le32 (uf_server_id f) @ le32 (uf_message_id f) @
     le32 (uf_message_size f) @ [uf_type f] @ uf_data f"

definition decode_udtcp :: "bytes \<Rightarrow> udtcp_frame" where
  "decode_udtcp bs = \<lparr>uf_checksum = of_le32 (take 4 bs), uf_sender_id = of_le32 (take 4 (drop 4 bs)),
     uf_server_id = of_le32 (take 4 (drop 8 bs)), uf_message_id = of_le32 (take 4 (drop 12 bs)),
     uf_message_size = of_le32 (take 4 (drop 16 bs)), uf_type = bs ! 20, uf_data = drop 21 bs\<rparr>"

section \<open>Fetching large messages\<close>

record TCPRetriever =
  tr_size :: u32
  tr_sq :: "u32 list"
  tr_servers :: "u32 list"

definition addSourceServer :: "u32 \<Rightarrow> TCPRetriever \<Rightarrow> TCPRetriever" where
  "addSourceServer srv r =
     (if srv \<in> set (tr_servers r) then r else r\<lparr>tr_servers := srv # tr_servers r, tr_sq := tr_sq r @ [srv]\<rparr>)"

text \<open>
  The state of the messenger: addresses that were looked up, messages for the listener with their blobs, and
  the retrievers by server and message.
\<close>

record udtcp =
  um_addrmap :: "(u32, nat) smap"
  um_received :: "(message_head \<times> message \<times> bytes) list"
  um_retrievers :: "(u32, (u32, TCPRetriever) smap) smap"

definition retrievers :: "u32 \<Rightarrow> udtcp \<Rightarrow> (u32, TCPRetriever) smap" where
  "retrievers srv um = (case smap_find (um_retrievers um) srv of None \<Rightarrow> [] | Some m \<Rightarrow> m)"

definition removeTCPReceiver :: "u32 \<Rightarrow> u32 \<Rightarrow> udtcp \<Rightarrow> udtcp" where
  "removeTCPReceiver srv i um =
     um\<lparr>um_retrievers := smap_put srv (smap_erase i (retrievers srv um)) (um_retrievers um)\<rparr>"

definition notifyTCPMessage :: "u32 \<Rightarrow> u32 \<Rightarrow> u32 \<Rightarrow> u32 \<Rightarrow> udtcp \<Rightarrow> udtcp" where
  "notifyTCPMessage srv i len sender um =
     (let r = (case smap_find (retrievers srv um) i of
                 Some r \<Rightarrow> r | None \<Rightarrow> \<lparr>tr_size = len, tr_sq = [], tr_servers = []\<rparr>)
      in um\<lparr>um_retrievers := smap_put srv (smap_put i (addSourceServer sender r) (retrievers srv um)) (um_retrievers um)\<rparr>)"

text \<open>The request of a retriever that has \<open>pos\<close> bytes.\<close>

definition retriever_request :: "u32 \<Rightarrow> u32 \<Rightarrow> nat \<Rightarrow> MessageBlock" where
  "retriever_request srv i pos = mb_set ''skip'' (string_of_nat pos) (mb_set ''message_id'' (u32_text i)
     (mb_set ''server_id'' (u32_text srv) (MessageBlock_new ''udtcppeermessageget'')))"

text \<open>
  One turn of the loop in \<^verbatim>\<open>TCPRetriever::socket_process\<close> can end without an address or connection, without
  an \<^verbatim>\<open>SSL\<close> object, without attaching it to the socket, without memory for a \<^verbatim>\<open>ThreadSSL\<close>, without a session
  or a request sent, or with two results of reading: the first read, meant for the headers, and the bytes
  that follow.
\<close>

datatype tcp_attempt = Not_connected | No_ssl | Not_attached | No_memory | No_session | Answered string bytes

text \<open>
  The loop: \<open>tssl\<close> and \<open>ssl\<close> tell whether these pointers still point to what an earlier turn has freed, since they are not
  reset. A turn asks the first server of the queue, which goes to its end; each element of the list is what
  happens in one turn, given the server and the position. The second read always starts at the beginning of the
  buffer. The first read is taken for complete headers when it ends with an empty line; a single byte makes
  \<^verbatim>\<open>substr\<close> throw. None means that the loop still runs, \<open>Inr None\<close> that it gave up.
\<close>

fun retriever_loop :: "(u32 \<Rightarrow> nat \<Rightarrow> tcp_attempt) list \<Rightarrow> u32 list \<Rightarrow> nat \<Rightarrow> nat \<Rightarrow> bool \<Rightarrow> bool \<Rightarrow> bytes \<Rightarrow> (fault + bytes option) option" where
  "retriever_loop [] sq len pos tssl ssl blob = (if pos < len then None else Some (Inr (Some blob)))"
| "retriever_loop (turn # turns) sq len pos tssl ssl blob =
     (if \<not> pos < len then Some (Inr (Some blob))
      else (case sq of
          [] \<Rightarrow> None
        | srv # rest \<Rightarrow> (case turn srv pos of
            Not_connected \<Rightarrow> if tssl \<or> ssl then Some (Inl Freed_memory) else retriever_loop turns (rest @ [srv]) len pos False False blob
          | No_ssl \<Rightarrow> if tssl then Some (Inl Freed_memory) else retriever_loop turns (rest @ [srv]) len pos False False blob
          | Not_attached \<Rightarrow> if tssl then Some (Inl Freed_memory) else retriever_loop turns (rest @ [srv]) len pos False True blob
          | No_memory \<Rightarrow> retriever_loop turns (rest @ [srv]) len pos False True blob
          | No_session \<Rightarrow> retriever_loop turns (rest @ [srv]) len pos True False blob
          | Answered headers data \<Rightarrow>
              if length headers = 1 then Some (Inl Bad_string)
              else if headers \<noteq> [] \<and> drop (length headers - 2) headers \<noteq> [CHR 0x0A, CHR 0x0A] then Some (Inr None)
              else let d = take len data
                   in retriever_loop turns (rest @ [srv]) len (length d) True False (d @ drop (length d) blob))))"

text \<open>The whole of \<^verbatim>\<open>socket_process\<close>; \<open>ready\<close> tells whether there is memory and a TLS context.\<close>

definition TCPRetriever_process :: "bool \<Rightarrow> (u32 \<Rightarrow> nat \<Rightarrow> tcp_attempt) list \<Rightarrow> u32 \<Rightarrow> u32 \<Rightarrow> TCPRetriever \<Rightarrow> udtcp \<Rightarrow> (fault + udtcp) option" where
  "TCPRetriever_process ready turns srv i r um =
     (if \<not> ready then Some (Inr (removeTCPReceiver srv i um))
      else (case retriever_loop turns (tr_sq r) (unat (tr_size r)) 0 False False (replicate (unat (tr_size r)) 0) of
          None \<Rightarrow> None
        | Some (Inl e) \<Rightarrow> Some (Inl e)
        | Some (Inr None) \<Rightarrow> Some (Inr (removeTCPReceiver srv i um))
        | Some (Inr (Some blob)) \<Rightarrow> (case buildMessage blob of
              Built h m \<Rightarrow> Some (Inr (removeTCPReceiver srv i (um\<lparr>um_received := um_received um @ [(h, m, blob)]\<rparr>)))
            | Build_overread \<Rightarrow> Some (Inl Overread)
            | _ \<Rightarrow> Some (Inr (removeTCPReceiver srv i um)))))"

section \<open>Sending\<close>

text \<open>Datagrams handed to the network, each with its address; \<open>resolve\<close> is the resolver.\<close>

type_synonym datagrams = "(nat \<times> bytes) list"

definition getSockAddr :: "(string \<Rightarrow> string \<Rightarrow> nat option) \<Rightarrow> u32 \<Rightarrow> server \<Rightarrow> udtcp \<Rightarrow> nat option \<times> udtcp" where
  "getSockAddr resolve srv s um = (case smap_find (um_addrmap um) srv of
       Some a \<Rightarrow> (Some a, um)
     | None \<Rightarrow> (let ip = db_default [] (getServerAttribute srv ''ip'') s;
                    port = db_default [] (getServerAttribute srv ''udppeerport'') s
                in if ip = [] \<or> port = [] then (None, um)
                   else (case resolve ip port of
                           None \<Rightarrow> (None, um)
                         | Some a \<Rightarrow> (Some a, um\<lparr>um_addrmap := smap_put srv a (um_addrmap um)\<rparr>))))"

text \<open>
  \<^verbatim>\<open>makeACK\<close> takes the checksum of its pointer and of what lies behind it on the stack: it can be any number, \<open>junk\<close>.
\<close>

definition makeACK :: "u32 \<Rightarrow> u32 \<Rightarrow> u32 \<Rightarrow> u32 \<Rightarrow> udtcp_frame" where
  "makeACK junk me srv i = \<lparr>uf_checksum = junk, uf_sender_id = me, uf_server_id = srv, uf_message_id = i,
     uf_message_size = 0, uf_type = TYPE_ACK, uf_data = []\<rparr>"

definition udtcp_sendAck_to :: "(bytes \<Rightarrow> bytes) \<Rightarrow> (string \<Rightarrow> string \<Rightarrow> nat option) \<Rightarrow> u32 \<Rightarrow> u32 \<Rightarrow> u32 \<Rightarrow> u32 \<Rightarrow> server \<Rightarrow> udtcp \<Rightarrow> datagrams \<times> udtcp" where
  "udtcp_sendAck_to enc resolve junk srv i to s um =
     (if my_id s = 0 then ([], um)
      else (case getSockAddr resolve to s um of
              (None, um1) \<Rightarrow> ([], um1)
            | (Some a, um1) \<Rightarrow> ([(a, enc (encode_udtcp (makeACK junk (my_id s) srv i)))], um1)))"

text \<open>The loop of \<^verbatim>\<open>sendAck\<close> returns at the first server that has no address.\<close>

fun ack_loop :: "(string \<Rightarrow> string \<Rightarrow> nat option) \<Rightarrow> bytes \<Rightarrow> u32 list \<Rightarrow> server \<Rightarrow> udtcp \<Rightarrow> datagrams \<times> udtcp" where
  "ack_loop resolve datagram [] s um = ([], um)"
| "ack_loop resolve datagram (to # tos) s um = (case getSockAddr resolve to s um of
       (None, um1) \<Rightarrow> ([], um1)
     | (Some a, um1) \<Rightarrow> (let (out, um2) = ack_loop resolve datagram tos s um1 in ((a, datagram) # out, um2)))"

definition udtcp_sendAck :: "(bytes \<Rightarrow> bytes) \<Rightarrow> (string \<Rightarrow> string \<Rightarrow> nat option) \<Rightarrow> u32 \<Rightarrow> u32 \<Rightarrow> u32 \<Rightarrow> server \<Rightarrow> udtcp \<Rightarrow> datagrams \<times> udtcp" where
  "udtcp_sendAck enc resolve junk srv i s um =
     (if my_id s = 0 then ([], um)
      else (case con s of
              None \<Rightarrow> ([], um)
            | Some d \<Rightarrow> ack_loop resolve (enc (encode_udtcp (makeACK junk (my_id s) srv i))) (getRemoteServers (my_id s) d) s um))"

text \<open>\<^verbatim>\<open>sendMessage\<close> of a message with a blob; its checksum covers the frame with the field for the checksum empty.\<close>

definition udtcp_sendMessage :: "(bytes \<Rightarrow> bytes) \<Rightarrow> (string \<Rightarrow> string \<Rightarrow> nat option) \<Rightarrow> u32 \<Rightarrow> u32 \<Rightarrow> u32 \<times> u32 \<Rightarrow> bytes \<Rightarrow> server \<Rightarrow> udtcp \<Rightarrow> bool \<times> datagrams \<times> udtcp" where
  "udtcp_sendMessage enc resolve seed to k blob s um = (case getSockAddr resolve to s um of
       (None, um1) \<Rightarrow> (False, [], um1)
     | (Some a, um1) \<Rightarrow>
         if u32_of (length blob) = 0 then (False, [], um1)
         else (let small = unat (u32_of (length blob)) < MAX_UDP_MESSAGE_SIZE;
                   f = \<lparr>uf_checksum = 0, uf_sender_id = my_id s, uf_server_id = fst k, uf_message_id = snd k,
                        uf_message_size = u32_of (length blob), uf_type = (if small then TYPE_INLINE else TYPE_NOTIFY),
                        uf_data = (if small then blob else [])\<rparr>
               in (True, [(a, enc (encode_udtcp (f\<lparr>uf_checksum := checksum seed (encode_udtcp f)\<rparr>)))], um1)))"

section \<open>Receiving\<close>

text \<open>
  \<^verbatim>\<open>UDPReceiver::socket_process\<close> on a datagram; nothing looks at the checksum. The buffer for the decrypted frame is
  smaller than the datagrams that are accepted.
\<close>

definition udtcp_receive :: "(bytes \<Rightarrow> bytes) \<Rightarrow> (bytes \<Rightarrow> bytes option) \<Rightarrow> (string \<Rightarrow> string \<Rightarrow> nat option) \<Rightarrow> u32 \<Rightarrow> bytes \<Rightarrow> udtcp \<Rightarrow> server \<Rightarrow> (datagrams \<times> udtcp) run" where
  "udtcp_receive enc dec resolve junk datagram um s =
     (if length datagram > UDTCP_BUFFER_SIZE + MAX_BLOCKSIZE then Inr (([], um), s)
      else (case dec datagram of
          None \<Rightarrow> Inr (([], um), s)
        | Some packet \<Rightarrow>
            if length packet > UDTCP_BUFFER_SIZE then Inl Overread
            else if length packet < UDTCP_FRAME_SIZE then Inr (([], um), s)
            else let f = decode_udtcp packet; has = db_default False (hasMessage (uf_server_id f) (uf_message_id f)) s
                 in if length packet \<noteq> UDTCP_FRAME_SIZE + (if uf_type f = TYPE_INLINE then unat (uf_message_size f) else 0)
                    then Inr (([], um), s)
                    else if uf_type f = TYPE_ACK then Inr (([], um), putAck (uf_server_id f) (uf_message_id f) (uf_sender_id f) s)
                    else if uf_type f = TYPE_INLINE then
                      (if has then Inr (udtcp_sendAck_to enc resolve junk (uf_server_id f) (uf_message_id f) (uf_sender_id f) s um, s)
                       else (case buildMessage (uf_data f) of
                               Built h m \<Rightarrow> Inr (([], um\<lparr>um_received := um_received um @ [(h, m, uf_data f)]\<rparr>), s)
                             | Build_overread \<Rightarrow> Inl Overread
                             | _ \<Rightarrow> Inr (([], um), s)))
                    else if uf_type f = TYPE_NOTIFY then
                      (if has then Inr (udtcp_sendAck_to enc resolve junk (uf_server_id f) (uf_message_id f) (uf_sender_id f) s um, s)
                       else Inr (([], notifyTCPMessage (uf_server_id f) (uf_message_id f) (uf_message_size f) (uf_sender_id f) um), s))
                    else Inr (([], um), s)))"

text \<open>A turn of \<^verbatim>\<open>peer_listener\<close> in \<^verbatim>\<open>src/abacusd.C\<close> on the next message of this messenger, if there is one.\<close>

definition udtcp_listener :: "(bytes \<Rightarrow> bytes) \<Rightarrow> (string \<Rightarrow> string \<Rightarrow> nat option) \<Rightarrow> u32 \<Rightarrow> udtcp \<Rightarrow> server \<Rightarrow> ((message_head \<times> message) list \<times> datagrams \<times> udtcp) run" where
  "udtcp_listener enc resolve junk um s = (case um_received um of
       [] \<Rightarrow> Inr (([], [], um), s)
     | (h, m, blob) # rest \<Rightarrow> (let um1 = um\<lparr>um_received := rest\<rparr> in case (con s, splitBlob blob) of
           (Some d, Some (h', t, data)) \<Rightarrow>
             (case putRemoteMessage (my_id s) (mh_server_id h) (mh_message_id h)
                 \<lparr>r_type_id = t, r_time = mh_time h, r_signature = mh_signature h, r_data = data, r_processed = False\<rparr> d of
                None \<Rightarrow> Inr (([], [], um1), s)
              | Some d' \<Rightarrow> (let s' = s\<lparr>sv_db := d'\<rparr>; (out, um2) = udtcp_sendAck enc resolve junk (mh_server_id h) (mh_message_id h) s' um1
                            in Inr (([(h, m)], out, um2), s')))
         | _ \<Rightarrow> Inr (([], [], um1), s)))"

end
