(* ===== verification/Access.thy ===== *)
theory Access
  imports Dispatch Events_Safe
begin

text \<open>
  Who may ask what: the table of actions together with the permissions of the roles, and what a
  request that is refused does.
\<close>

section \<open>The requests of a role\<close>

text \<open>Connections before login, of contestants and of markers.\<close>

datatype visitor = Anonymous | Contestant | Marker

fun visitor_permissions :: "visitor \<Rightarrow> PermissionSet" where
  "visitor_permissions Anonymous = cn_permissions connection_new"
| "visitor_permissions Contestant = permissions_of (user_type_code USER_TYPE_CONTESTANT)"
| "visitor_permissions Marker = permissions_of (user_type_code USER_TYPE_MARKER)"

fun visitor_requests :: "visitor \<Rightarrow> string list" where
  "visitor_requests Anonymous = [''auth'', ''eventmap'', ''whatami'', ''udtcppeermessageget'']"
| "visitor_requests Contestant = [''auth'', ''getbonus'', ''getclarifications'', ''getclarificationrequests'',
     ''clarificationrequest'', ''contesttime'', ''eventmap'', ''passwd'', ''standings'', ''subscribetime'',
     ''conteststatus'', ''submit'', ''getproblems'', ''getsubmissions'', ''fetchfile'', ''getsubmissionsource'', ''getlanguages'', ''whatami'']"
| "visitor_requests Marker = [''auth'', ''getclarifications'', ''getclarificationrequests'', ''contesttime'', ''eventmap'',
     ''subscribemark'', ''mark'', ''getprobattrs'', ''getprobfile'', ''subscribetime'', ''conteststatus'',
     ''getproblems'', ''getsubmissions'', ''fetchfile'', ''getsubmissionsource'', ''getlanguages'', ''whatami'']"

text \<open>The table without the handlers.\<close>

definition action_tests :: "(string \<times> PermissionTest) list" where
  "action_tests = [
     (''addgroup'', PT_BASE PERMISSION_USER_ADMIN),
     (''getgroups'', PT_OR (PT_BASE PERMISSION_USER_ADMIN) (PT_BASE PERMISSION_START_STOP)),
     (''addserver'', PT_BASE PERMISSION_SERVER_ADMIN),
     (''adduser'', PT_BASE PERMISSION_USER_ADMIN),
     (''auth'', PT_ANY),
     (''getbonus'', PT_BASE PERMISSION_SEE_STANDINGS),
     (''setbonus'', PT_BASE PERMISSION_SET_BONUS),
     (''getclarifications'', PT_BASE PERMISSION_AUTH),
     (''getclarificationrequests'', PT_BASE PERMISSION_AUTH),
     (''clarificationrequest'', PT_BASE PERMISSION_CLARIFICATION_REQUEST),
     (''clarification'', PT_BASE PERMISSION_CLARIFICATION_REPLY),
     (''contesttime'', PT_BASE PERMISSION_AUTH),
     (''eventmap'', PT_ANY),
     (''subscribemark'', PT_BASE PERMISSION_MARK),
     (''mark'', PT_OR (PT_BASE PERMISSION_MARK) (PT_BASE PERMISSION_JUDGE)),
     (''passwd'', PT_BASE PERMISSION_CHANGE_PASSWORD),
     (''id_passwd'', PT_BASE PERMISSION_USER_ADMIN),
     (''getusers'', PT_BASE PERMISSION_USER_ADMIN),
     (''setprobattrs'', PT_BASE PERMISSION_PROBLEM_ADMIN),
     (''getprobattrs'', PT_BASE PERMISSION_SEE_PROBLEM_DETAILS),
     (''getprobfile'', PT_BASE PERMISSION_SEE_PROBLEM_DETAILS),
     (''getprobtypes'', PT_BASE PERMISSION_PROBLEM_ADMIN),
     (''getprobdescript'', PT_BASE PERMISSION_PROBLEM_ADMIN),
     (''getserverlist'', PT_BASE PERMISSION_SERVER_ADMIN),
     (''standings'', PT_BASE PERMISSION_SEE_STANDINGS),
     (''startstop'', PT_BASE PERMISSION_START_STOP),
     (''subscribetime'', PT_BASE PERMISSION_AUTH),
     (''conteststatus'', PT_BASE PERMISSION_AUTH),
     (''submit'', PT_BASE PERMISSION_SUBMIT),
     (''getproblems'', PT_BASE PERMISSION_AUTH),
     (''getsubmissions'', PT_BASE PERMISSION_AUTH),
     (''getsubmissions_for_user'', PT_AND (PT_BASE PERMISSION_SEE_ALL_SUBMISSIONS) (PT_BASE PERMISSION_SEE_USER_ID)),
     (''fetchfile'', PT_BASE PERMISSION_AUTH),
     (''getsubmissionsource'', PT_BASE PERMISSION_AUTH),
     (''getlanguages'', PT_BASE PERMISSION_AUTH),
     (''whatami'', PT_ANY),
     (''udtcppeermessageget'', PT_NOT (PT_BASE PERMISSION_AUTH))]"

lemma action_tests: "map (\<lambda>(name, pt, act). (name, pt)) (actionmap hash) = action_tests"
  by (simp add: actionmap_def action_tests_def)

definition permitted :: "PermissionSet \<Rightarrow> string list" where
  "permitted p = map fst (filter (\<lambda>(name, pt). matches pt p = Some True) action_tests)"

lemma permitted_visitors: "permitted (visitor_permissions v) = visitor_requests v"
proof (cases v)
  case Anonymous
  have "permitted (visitor_permissions Anonymous) = visitor_requests Anonymous" by code_simp
  with Anonymous show ?thesis by simp
next
  case Contestant
  have "permitted (visitor_permissions Contestant) = visitor_requests Contestant" by code_simp
  with Contestant show ?thesis by simp
next
  case Marker
  have "permitted (visitor_permissions Marker) = visitor_requests Marker" by code_simp
  with Marker show ?thesis by simp
qed

lemma actions_permitted:
  assumes "map_of (actionmap hash) name = Some (pt, act)" "matches pt p = Some True"
  shows "name \<in> set (permitted p)"
proof -
  have "(name, pt) \<in> (\<lambda>(name, pt, act). (name, pt)) ` set (actionmap hash)" using map_of_SomeD [OF assms(1)] by force
  then have "(name, pt) \<in> set action_tests" by (simp flip: action_tests [of hash])
  with assms(2) show ?thesis by (force simp: permitted_def)
qed

section \<open>Property\<close>

text \<open>
  Claim C10. What a visitor may not do changes nothing. A connection that has not logged in can only log in, subscribe to events, ask what it is and
  ask for a stored message; contestants and markers have their own lists. Any other request, known to the server or not, leaves the
  server as it is, but for its remembered number and an error in the queue of that connection.
\<close>

theorem refused_request_changes_nothing:
  assumes c: "smap_find (conns (sv_hub s)) cc = Some c" "cn_permissions c = visitor_permissions v" and id: "my_id s \<noteq> 0"
    and r: "mb_message mb \<notin> set (visitor_requests v)"
  shows "\<exists>msg. ClientAction_process hash cc mb s = Inr ((), (remember_id s)\<lparr>sv_hub := (sv_hub s)\<lparr>conns := smap_put cc
    (c\<lparr>cn_queue := cn_queue c @ [getRaw (Message_Block.setMessageId (mb_message_id mb) (mb_error msg))]\<rparr>) (conns (sv_hub s))\<rparr>\<rparr>)"
proof -
  have h: "sv_hub (remember_id s) = sv_hub s" by (simp add: remember_id_def)
  have "matches pt (cn_permissions c) \<noteq> Some True" if "map_of (actionmap hash) (mb_message mb) = Some (pt, act)" for pt act
    using actions_permitted [OF that, of "cn_permissions c"] r unfolding c(2) permitted_visitors by blast
  then have "\<exists>msg. ClientAction_process hash cc mb s = answer cc mb (mb_error msg) (remember_id s)"
    using id c(1) by (cases "map_of (actionmap hash) (mb_message mb)")
      (auto simp: ClientAction_process_def Let_def with_conn_def h)
  moreover have "answer cc mb (mb_error msg) (remember_id s) = Inr ((), (remember_id s)\<lparr>sv_hub := (sv_hub s)\<lparr>conns := smap_put cc
      (c\<lparr>cn_queue := cn_queue c @ [getRaw (Message_Block.setMessageId (mb_message_id mb) (mb_error msg))]\<rparr>) (conns (sv_hub s))\<rparr>\<rparr>)" for msg
    using c(1) by (simp add: answer_def with_hub_def sendMessageBlock_def h Let_def)
  ultimately show ?thesis by simp
qed

theorem refused_request_changes_nothing_witness:
  "\<exists>msg. ClientAction_process (\<lambda>name pw. pw) 7 (MessageBlock_new ''setbonus'')
      ((example_server db_empty)\<lparr>sv_hub := hub_new\<lparr>conns := [(7, connection_new)]\<rparr>\<rparr>) =
    Inr ((), (remember_id ((example_server db_empty)\<lparr>sv_hub := hub_new\<lparr>conns := [(7, connection_new)]\<rparr>\<rparr>))\<lparr>sv_hub := hub_new\<lparr>conns :=
      smap_put 7 (connection_new\<lparr>cn_queue := [] @ [getRaw (Message_Block.setMessageId [] (mb_error msg))]\<rparr>) [(7, connection_new)]\<rparr>\<rparr>)"
proof -
  let ?s = "(example_server db_empty)\<lparr>sv_hub := hub_new\<lparr>conns := [(7, connection_new)]\<rparr>\<rparr>"
  have "my_id ?s \<noteq> 0" by (simp add: my_id_def getId_def example_server_def)
  then show ?thesis
    using refused_request_changes_nothing [of ?s 7 connection_new Anonymous "MessageBlock_new ''setbonus''" "\<lambda>name pw. pw"]
    by (simp add: MessageBlock_new_def MessageBlock_empty_def connection_new_def hub_new_def)
qed

end
