(* ===== verification/Udtcp_Correct.thy ===== *)
theory Udtcp_Correct
  imports Udtcp Access Resending
begin

text \<open>
  What the messenger of \<open>Udtcp\<close> achieves: small messages travel as \<open>Replication\<close> has it, and what happens to
  the large ones.
\<close>

section \<open>Frames\<close>

lemma decode_encode_udtcp [simp]: "decode_udtcp (encode_udtcp f) = f"
  by (simp add: encode_udtcp_def decode_udtcp_def nth_append)

lemma encode_udtcp_length [simp]: "length (encode_udtcp f) = UDTCP_FRAME_SIZE + length (uf_data f)"
  by (simp add: encode_udtcp_def UDTCP_FRAME_SIZE_def)

lemmas udtcp_sizes = UDTCP_FRAME_SIZE_def UDTCP_BUFFER_SIZE_def MAX_UDP_MESSAGE_SIZE_def
lemmas udtcp_types = TYPE_ACK_def TYPE_INLINE_def TYPE_NOTIFY_def

section \<open>Addresses\<close>

definition address :: "(string \<Rightarrow> string \<Rightarrow> nat option) \<Rightarrow> server \<Rightarrow> udtcp \<Rightarrow> u32 \<Rightarrow> nat option" where
  "address resolve s um srv = fst (getSockAddr resolve srv s um)"

lemma address_kept: "address resolve s (snd (getSockAddr resolve srv s um)) = address resolve s um"
  by (rule ext) (auto simp: address_def getSockAddr_def Let_def smap_find_put split: option.splits)

lemma received_kept:
  "um_received (snd (getSockAddr resolve srv s um)) = um_received um"
  "um_retrievers (snd (getSockAddr resolve srv s um)) = um_retrievers um"
  by (auto simp: getSockAddr_def Let_def split: option.splits)

lemma ack_loop_all:
  assumes "list_all (\<lambda>to. address resolve s um to \<noteq> None) tos"
  shows "fst (ack_loop resolve p tos s um) = map (\<lambda>to. (the (address resolve s um to), p)) tos \<and>
    um_received (snd (ack_loop resolve p tos s um)) = um_received um"
  using assms
proof (induction tos arbitrary: um)
  case (Cons to tos)
  obtain a um1 where g: "getSockAddr resolve to s um = (Some a, um1)"
    using Cons.prems by (cases "getSockAddr resolve to s um") (auto simp: address_def)
  have k: "address resolve s um1 = address resolve s um" "um_received um1 = um_received um" "address resolve s um to = Some a"
    using address_kept [of resolve s to um] received_kept [of resolve to s um] by (simp_all add: g address_def)
  with Cons show ?case by (simp add: g split_beta Let_def)
qed simp

section \<open>Delivery\<close>

text \<open>A datagram arrives and the listener takes what it brought.\<close>

definition udtcp_deliver :: "(bytes \<Rightarrow> bytes) \<Rightarrow> (bytes \<Rightarrow> bytes option) \<Rightarrow> (string \<Rightarrow> string \<Rightarrow> nat option) \<Rightarrow> u32 \<Rightarrow> bytes \<Rightarrow> udtcp \<Rightarrow> server \<Rightarrow>
    ((message_head \<times> message) list \<times> datagrams \<times> udtcp) run" where
  "udtcp_deliver enc dec resolve junk p um s = bind_run (udtcp_receive enc dec resolve junk p um s) (\<lambda>(out, um1) s1.
     bind_run (udtcp_listener enc resolve junk um1 s1) (\<lambda>(q, out1, um2) s2. Inr ((q, out @ out1, um2), s2)))"

text \<open>An acknowledgement of \<open>Replication\<close> as this messenger sends it.\<close>

definition ack_datagram :: "(bytes \<Rightarrow> bytes) \<Rightarrow> (u32 \<Rightarrow> nat option) \<Rightarrow> u32 \<Rightarrow> ack \<Rightarrow> nat \<times> bytes" where
  "ack_datagram enc addr junk = (\<lambda>(to, me, srv, i). (the (addr to), enc (encode_udtcp (makeACK junk me srv i))))"

lemma putRemoteMessage_keeps:
  assumes "putRemoteMessage me srv i row d = Some d'"
  shows "t_Server d' = t_Server d" "t_ServerAttributes d' = t_ServerAttributes d"
  using assms by (auto simp: putRemoteMessage_def add_noack_def split: option.splits)

lemma after_putRemoteMessage:
  assumes "putRemoteMessage me srv i row (sv_db s) = Some d'"
  shows "address resolve (s\<lparr>sv_db := d'\<rparr>) um = address resolve s um" "my_id (s\<lparr>sv_db := d'\<rparr>) = my_id s"
    "getRemoteServers n d' = getRemoteServers n (sv_db s)"
  using putRemoteMessage_keeps [OF assms]
  by (auto simp: address_def getSockAddr_def db_default_def con_def getServerAttribute_def my_id_def getId_def server_id_def
    getRemoteServers_def fun_eq_iff Let_def split: option.splits)

lemma udtcp_sendAck_all:
  assumes "my_id s \<noteq> 0" "\<forall>to\<in>fst ` set (t_Server (sv_db s)). address resolve s um to \<noteq> None"
  shows "fst (udtcp_sendAck enc resolve junk srv i s um) = map (ack_datagram enc (address resolve s um) junk) (sendAck srv i s)"
    "um_received (snd (udtcp_sendAck enc resolve junk srv i s um)) = um_received um"
proof -
  have "list_all (\<lambda>to. address resolve s um to \<noteq> None) (getRemoteServers (my_id s) (sv_db s))"
    using assms(2) by (auto simp: getRemoteServers_def list_all_iff)
  from ack_loop_all [OF this] assms(1) show
    "fst (udtcp_sendAck enc resolve junk srv i s um) = map (ack_datagram enc (address resolve s um) junk) (sendAck srv i s)"
    "um_received (snd (udtcp_sendAck enc resolve junk srv i s um)) = um_received um"
    by (simp_all add: udtcp_sendAck_def sendAck_def ack_datagram_def con_def)
qed

text \<open>A cipher that can be undone and adds at most one block, as block ciphers with padding do.\<close>

definition good_cipher :: "(bytes \<Rightarrow> bytes) \<Rightarrow> (bytes \<Rightarrow> bytes option) \<Rightarrow> bool" where
  "good_cipher enc dec \<longleftrightarrow> (\<forall>x. dec (enc x) = Some x \<and> length (enc x) \<le> length x + MAX_BLOCKSIZE)"

lemma receive_frame:
  assumes "good_cipher enc dec" "length (uf_data f) \<le> MAX_UDP_MESSAGE_SIZE"
    "length (uf_data f) = (if uf_type f = TYPE_INLINE then unat (uf_message_size f) else 0)"
  shows "udtcp_receive enc dec resolve junk (enc (encode_udtcp f)) um s =
    (let has = db_default False (hasMessage (uf_server_id f) (uf_message_id f)) s
     in if uf_type f = TYPE_ACK then Inr (([], um), putAck (uf_server_id f) (uf_message_id f) (uf_sender_id f) s)
        else if uf_type f = TYPE_INLINE \<or> uf_type f = TYPE_NOTIFY then
          (if has then Inr (udtcp_sendAck_to enc resolve junk (uf_server_id f) (uf_message_id f) (uf_sender_id f) s um, s)
           else if uf_type f = TYPE_NOTIFY
           then Inr (([], notifyTCPMessage (uf_server_id f) (uf_message_id f) (uf_message_size f) (uf_sender_id f) um), s)
           else (case buildMessage (uf_data f) of
                   Built h m \<Rightarrow> Inr (([], um\<lparr>um_received := um_received um @ [(h, m, uf_data f)]\<rparr>), s)
                 | Build_overread \<Rightarrow> Inl Overread
                 | _ \<Rightarrow> Inr (([], um), s)))
        else Inr (([], um), s))"
proof -
  have c: "dec (enc (encode_udtcp f)) = Some (encode_udtcp f)" "length (enc (encode_udtcp f)) \<le> UDTCP_FRAME_SIZE + length (uf_data f) + MAX_BLOCKSIZE"
    using assms(1) [unfolded good_cipher_def, THEN spec, of "encode_udtcp f"] by simp_all
  have l: "\<not> length (enc (encode_udtcp f)) > UDTCP_BUFFER_SIZE + MAX_BLOCKSIZE" "\<not> UDTCP_FRAME_SIZE + length (uf_data f) > UDTCP_BUFFER_SIZE"
    using c(2) assms(2) by (simp_all add: udtcp_sizes)
  have "udtcp_receive enc dec resolve junk (enc (encode_udtcp f)) um s =
      (if UDTCP_FRAME_SIZE + length (uf_data f) < UDTCP_FRAME_SIZE then Inr (([], um), s)
       else let has = db_default False (hasMessage (uf_server_id f) (uf_message_id f)) s
            in if uf_type f = TYPE_ACK then Inr (([], um), putAck (uf_server_id f) (uf_message_id f) (uf_sender_id f) s)
               else if uf_type f = TYPE_INLINE then
                 (if has then Inr (udtcp_sendAck_to enc resolve junk (uf_server_id f) (uf_message_id f) (uf_sender_id f) s um, s)
                  else (case buildMessage (uf_data f) of
                          Built h m \<Rightarrow> Inr (([], um\<lparr>um_received := um_received um @ [(h, m, uf_data f)]\<rparr>), s)
                        | Build_overread \<Rightarrow> Inl Overread
                        | _ \<Rightarrow> Inr (([], um), s)))
               else if uf_type f = TYPE_NOTIFY then
                 (if has then Inr (udtcp_sendAck_to enc resolve junk (uf_server_id f) (uf_message_id f) (uf_sender_id f) s um, s)
                  else Inr (([], notifyTCPMessage (uf_server_id f) (uf_message_id f) (uf_message_size f) (uf_sender_id f) um), s))
               else Inr (([], um), s))"
    unfolding udtcp_receive_def assms(3) [symmetric]
    by (simp only: c(1) l option.case encode_udtcp_length decode_encode_udtcp Let_def assms(3) [symmetric] if_False not_True_eq_False
      simp_thms)
  then show ?thesis by (simp add: udtcp_types)
qed

lemma send_small:
  assumes "address resolve s um to = Some a" "0 < length blob" "length blob < MAX_UDP_MESSAGE_SIZE"
  obtains f um1 where "udtcp_sendMessage enc resolve seed to k blob s um = (True, [(a, enc (encode_udtcp f))], um1)"
    "uf_type f = TYPE_INLINE" "uf_sender_id f = my_id s" "uf_server_id f = fst k" "uf_message_id f = snd k"
    "unat (uf_message_size f) = length blob" "uf_data f = blob"
proof -
  obtain um1 where g: "getSockAddr resolve to s um = (Some a, um1)"
    using assms(1) by (cases "getSockAddr resolve to s um") (auto simp: address_def)
  have n: "unat (u32_of (length blob)) = length blob" using assms(3) by (simp add: unat_of_size udtcp_sizes)
  then have "u32_of (length blob) \<noteq> 0" using assms(2) by (metis less_irrefl unsigned_0)
  then show ?thesis using that [of _ um1] n assms(3) by (simp add: udtcp_sendMessage_def g Let_def)
qed

lemma send_large:
  assumes "address resolve s um to = Some a" "MAX_UDP_MESSAGE_SIZE \<le> length blob" "length blob < 2 ^ 32"
  obtains f um1 where "udtcp_sendMessage enc resolve seed to k blob s um = (True, [(a, enc (encode_udtcp f))], um1)"
    "uf_type f = TYPE_NOTIFY" "uf_sender_id f = my_id s" "uf_server_id f = fst k" "uf_message_id f = snd k"
    "uf_message_size f = u32_of (length blob)" "uf_data f = []"
proof -
  obtain um1 where g: "getSockAddr resolve to s um = (Some a, um1)"
    using assms(1) by (cases "getSockAddr resolve to s um") (auto simp: address_def)
  have n: "unat (u32_of (length blob)) = length blob" using assms(3) by (simp add: unat_of_size)
  moreover have "0 < length blob" using assms(2) by (auto simp: udtcp_sizes)
  ultimately have "u32_of (length blob) \<noteq> 0" by (metis less_irrefl unsigned_0)
  then show ?thesis using that [of _ um1] n assms(2) by (simp add: udtcp_sendMessage_def g Let_def)
qed

lemma receive_ack:
  assumes "good_cipher enc dec"
  shows "udtcp_receive enc dec resolve junk (enc (encode_udtcp (makeACK junk1 me srv i))) um s = Inr (([], um), putAck srv i me s)"
  using receive_frame [OF assms, of "makeACK junk1 me srv i"] by (simp add: makeACK_def udtcp_types)

lemma sendAck_to_one:
  assumes "my_id s \<noteq> 0" "address resolve s um to \<noteq> None"
  shows "fst (udtcp_sendAck_to enc resolve junk srv i to s um) = [ack_datagram enc (address resolve s um) junk (to, my_id s, srv, i)]"
    "um_received (snd (udtcp_sendAck_to enc resolve junk srv i to s um)) = um_received um"
  using assms received_kept(1) [of resolve to s um]
  by (auto simp: udtcp_sendAck_to_def ack_datagram_def address_def split: prod.split option.split)

text \<open>The listener on a message that the receiver has just put into the empty queue.\<close>

lemma udtcp_listener_takes:
  assumes split: "splitBlob blob = Some (h, t, data)" and id: "my_id s \<noteq> 0" and e: "um_received um = []"
    and addr: "\<forall>to\<in>fst ` set (t_Server (sv_db s)). address resolve s um to \<noteq> None"
    and row: "row = \<lparr>r_type_id = t, r_time = mh_time h, r_signature = mh_signature h, r_data = data, r_processed = False\<rparr>"
  shows "\<exists>um'. um_received um' = [] \<and> udtcp_listener enc resolve junk (um\<lparr>um_received := [(h, m, blob)]\<rparr>) s =
    (case con s of
       None \<Rightarrow> Inr (([], [], um'), s)
     | Some d \<Rightarrow> (case putRemoteMessage (my_id s) (mh_server_id h) (mh_message_id h) row d of
           None \<Rightarrow> Inr (([], [], um'), s)
         | Some d' \<Rightarrow> Inr (([(h, m)], map (ack_datagram enc (address resolve s um) junk)
               (sendAck (mh_server_id h) (mh_message_id h) (s\<lparr>sv_db := d'\<rparr>)), um'), s\<lparr>sv_db := d'\<rparr>)))"
proof (cases "\<exists>d'. con s = Some (sv_db s) \<and> putRemoteMessage (my_id s) (mh_server_id h) (mh_message_id h) row (sv_db s) = Some d'")
  case True
  then obtain d' where d: "con s = Some (sv_db s)" "putRemoteMessage (my_id s) (mh_server_id h) (mh_message_id h) row (sv_db s) = Some d'"
    by blast
  let ?s = "s\<lparr>sv_db := d'\<rparr>" and ?um = "um\<lparr>um_received := []\<rparr>"
  have u: "?um = um" using e by simp
  have "my_id ?s \<noteq> 0" "\<forall>to\<in>fst ` set (t_Server (sv_db ?s)). address resolve ?s um to \<noteq> None"
    using id addr by (simp_all add: after_putRemoteMessage [OF d(2)] putRemoteMessage_keeps(1) [OF d(2)])
  note a = udtcp_sendAck_all [OF this, of enc junk "mh_server_id h" "mh_message_id h", unfolded after_putRemoteMessage(1) [OF d(2)]]
  show ?thesis
    using a e by (intro exI [of _ "snd (udtcp_sendAck enc resolve junk (mh_server_id h) (mh_message_id h) ?s um)"])
      (simp add: udtcp_listener_def split d row [symmetric] u Let_def split_beta prod_eq_iff)
next
  case False
  then show ?thesis using e by (intro exI [of _ um]) (auto simp: udtcp_listener_def split row [symmetric] con_def Let_def split: option.splits if_splits)
qed

lemma udtcp_listener_idle: "um_received um = [] \<Longrightarrow> udtcp_listener enc resolve junk um s = Inr (([], [], um), s)"
  by (simp add: udtcp_listener_def)

lemma Built_head: "buildMessage blob = Built h m \<Longrightarrow> splitBlob blob = Some (h', t, data) \<Longrightarrow> h = h'"
  by (auto simp: buildMessage_def split: option.splits loaded.splits)

text \<open>What arrives in a frame has the effect of \<^const>\<open>peer_listener\<close>.\<close>

lemma deliver_inline:
  assumes cipher: "good_cipher enc dec" and f: "uf_type f = TYPE_INLINE" "unat (uf_message_size f) = length blob" "uf_data f = blob"
    and small: "length blob < MAX_UDP_MESSAGE_SIZE"
    and split: "splitBlob blob = Some (h, t, data)" and k: "uf_server_id f = mh_server_id h" "uf_message_id f = mh_message_id h"
    and id: "my_id s \<noteq> 0" and e: "um_received um = []" and sender: "uf_sender_id f \<in> set (getRemoteServers (my_id s) (sv_db s))"
    and addr: "\<forall>to\<in>fst ` set (t_Server (sv_db s)). address resolve s um to \<noteq> None"
  shows "case peer_listener blob s of
      Inl fault \<Rightarrow> udtcp_deliver enc dec resolve junk (enc (encode_udtcp f)) um s = Inl fault
    | Inr ((q, acks), s') \<Rightarrow> \<exists>sent um'. udtcp_deliver enc dec resolve junk (enc (encode_udtcp f)) um s =
          Inr ((q, map (ack_datagram enc (address resolve s um) junk) sent, um'), s') \<and> um_received um' = [] \<and>
        (if db_default False (hasMessage (mh_server_id h) (mh_message_id h)) s
         then sent = [(uf_sender_id f, my_id s, mh_server_id h, mh_message_id h)] \<and> set sent \<subseteq> set acks
         else sent = acks)"
proof (cases "db_default False (hasMessage (mh_server_id h) (mh_message_id h)) s")
  case True
  then have c: "con s = Some (sv_db s)" by (auto simp: db_default_def con_def split: if_splits)
  have a: "address resolve s um (uf_sender_id f) \<noteq> None" using sender addr by (auto simp: getRemoteServers_def)
  show ?thesis
    using True c sender sendAck_to_one [OF id a, of enc junk "mh_server_id h" "mh_message_id h"] e
      receive_frame [OF cipher, of f resolve junk um s] f small k split
    by (auto simp: udtcp_deliver_def peer_listener_def udtcp_listener_idle sendAck_def udtcp_types split: prod.split)
next
  case False
  have r: "udtcp_receive enc dec resolve junk (enc (encode_udtcp f)) um s = (case buildMessage blob of
      Built h m \<Rightarrow> Inr (([], um\<lparr>um_received := [(h, m, blob)]\<rparr>), s) | Build_overread \<Rightarrow> Inl Overread | _ \<Rightarrow> Inr (([], um), s))"
    using False receive_frame [OF cipher, of f resolve junk um s] f small k e by (simp add: udtcp_types cong: build_result.case_cong)
  show ?thesis
  proof (cases "\<exists>h' m. buildMessage blob = Built h' m")
    case True
    then obtain m where b: "buildMessage blob = Built h m" using Built_head split by blast
    obtain um' where "um_received um' = []" "udtcp_listener enc resolve junk (um\<lparr>um_received := [(h, m, blob)]\<rparr>) s =
      (case con s of None \<Rightarrow> Inr (([], [], um'), s)
       | Some d \<Rightarrow> (case putRemoteMessage (my_id s) (mh_server_id h) (mh_message_id h)
             \<lparr>r_type_id = t, r_time = mh_time h, r_signature = mh_signature h, r_data = data, r_processed = False\<rparr> d of
           None \<Rightarrow> Inr (([], [], um'), s)
         | Some d' \<Rightarrow> Inr (([(h, m)], map (ack_datagram enc (address resolve s um) junk)
               (sendAck (mh_server_id h) (mh_message_id h) (s\<lparr>sv_db := d'\<rparr>)), um'), s\<lparr>sv_db := d'\<rparr>)))"
      using udtcp_listener_takes [OF split id e addr refl, of enc junk m] by blast
    with False b r split show ?thesis
      by (simp add: udtcp_deliver_def peer_listener_def Let_def split: option.split)
  next
    case built: False
    with False r split show ?thesis
      by (auto simp: udtcp_deliver_def peer_listener_def udtcp_listener_idle [OF e] e split: build_result.split)
  qed
qed

section \<open>Fetching\<close>

text \<open>A turn in which the server answers with what follows the position, after headers that end as they should.\<close>

definition answers :: "bytes \<Rightarrow> (u32 \<Rightarrow> nat \<Rightarrow> tcp_attempt) \<Rightarrow> bool" where
  "answers blob turn \<longleftrightarrow> (\<forall>srv pos. \<exists>headers. turn srv pos = Answered (headers @ [CHR 0x0A, CHR 0x0A]) (drop pos blob))"

lemma retriever_turn:
  assumes "answers blob turn" "pos < length blob"
  shows "retriever_loop (turn # turns) (srv # sq) (length blob) pos tssl ssl buf =
    retriever_loop turns (sq @ [srv]) (length blob) (length blob - pos) True False (drop pos blob @ drop (length blob - pos) buf)"
proof -
  obtain headers where "turn srv pos = Answered (headers @ [CHR 0x0A, CHR 0x0A]) (drop pos blob)"
    using assms(1) by (auto simp: answers_def)
  then show ?thesis using assms(2) by (simp add: Let_def)
qed

lemma retriever_stuck:
  assumes "list_all (answers blob) turns" "0 < pos" "pos < length blob"
  shows "retriever_loop turns sq (length blob) pos tssl ssl buf = None"
  using assms
proof (induction turns arbitrary: sq pos tssl ssl buf)
  case (Cons turn turns)
  show ?case
  proof (cases sq)
    case Nil
    then show ?thesis using Cons.prems by simp
  next
    case (Cons srv rest)
    then show ?thesis using Cons.prems Cons.IH by (simp only: list_all_iff list.set(2) ball_simps insert_iff retriever_turn) auto
  qed
qed simp

section \<open>Requests for stored messages\<close>

lemma stored_message_request:
  "mb_message (retriever_request srv i pos) = ''udtcppeermessageget''" "mb_get (retriever_request srv i pos) ''server_id'' = u32_text srv"
  "mb_get (retriever_request srv i pos) ''message_id'' = u32_text i" "mb_get (retriever_request srv i pos) ''skip'' = string_of_nat pos"
  by (simp_all add: retriever_request_def mb_set_def mb_get_def MessageBlock_new_def smap_find_put)

lemma anonymous_may_fetch: "matches (PT_NOT (PT_BASE PERMISSION_AUTH)) (cn_permissions connection_new) = Some True"
  by code_simp

lemma fetch_dispatch: "map_of (actionmap hash) ''udtcppeermessageget'' = Some (PT_NOT (PT_BASE PERMISSION_AUTH), TCPTransmitAction)"
  by (simp add: actionmap_def)

lemma fetch_uses_freed_memory:
  assumes c: "smap_find (conns (sv_hub s)) cc = Some c" "cn_permissions c = cn_permissions connection_new" and id: "my_id s \<noteq> 0"
    and d: "con s = Some d" and r: "smap_find (t_PeerMessage d) k = Some r" "rebuild k r = Built h m" and k: "fst k \<noteq> 0" "snd k \<noteq> 0"
  shows "ClientAction_process hash cc (retriever_request (fst k) (snd k) 0) s = Inl Freed_memory"
proof -
  have "con (remember_id s) = Some d" "sv_hub (remember_id s) = sv_hub s" using d by (simp_all add: remember_id_def con_def split: if_splits)
  moreover have "from_string_u32 (string_of_nat 0) = Some 0" by code_simp
  ultimately have "TCPTransmitAction cc (retriever_request (fst k) (snd k) 0) (remember_id s) = Inl Freed_memory"
    using k r by (simp add: TCPTransmitAction_def stored_message_request text_u32 sizeof_st_blob_def)
  with c id \<open>sv_hub (remember_id s) = sv_hub s\<close> anonymous_may_fetch show ?thesis
    by (simp add: ClientAction_process_def Let_def with_conn_def stored_message_request fetch_dispatch del: matches.simps)
qed

text \<open>Addresses of two servers.\<close>

definition example_udtcp :: udtcp where
  "example_udtcp = \<lparr>um_addrmap = [(1, 11), (2, 12)], um_received = [], um_retrievers = []\<rparr>"

lemma example_address: "address resolve s example_udtcp 1 = Some 11" "address resolve s example_udtcp 2 = Some 12"
  by (simp_all add: address_def getSockAddr_def example_udtcp_def)

lemma example_ids: "my_id example_receiver = 2" "my_id (example_sender r) = 1"
  by (simp_all add: my_id_def getId_def example_receiver_def example_sender_def example_server_def)

lemma example_remote: "getRemoteServers 2 (sv_db example_receiver) = [1]" "t_Server (sv_db example_receiver) = [(1, ''main''), (2, ''other'')]"
  by (simp_all add: getRemoteServers_def example_receiver_def example_server_def)

text \<open>No encryption is a good cipher.\<close>

lemma plain_cipher: "good_cipher (\<lambda>x. x) Some"
  by (simp add: good_cipher_def)

text \<open>A change of bonus points, followed by bytes that nobody reads.\<close>

definition padded_row :: "nat \<Rightarrow> peer_row" where
  "padded_row n = (bonus_row 30)\<lparr>r_data := le32 5 @ le32 3 @ le32 0 @ replicate n 0\<rparr>"

lemma padded_row_rebuild:
  assumes "n < 2 ^ 31"
  shows "rebuild (1, 1) (padded_row n) = Built \<lparr>mh_server_id = 1, mh_message_id = 1, mh_time = 30, mh_signature = replicate MESSAGE_SIGNATURE_SIZE 0\<rparr>
    (M_Bonus \<lparr>bn_user_id = 5, bn_points = 3, bn_seconds = 0\<rparr>)"
proof -
  have l: "length (r_data (padded_row n)) = 12 + n" by (simp add: padded_row_def)
  have "unat (u32_of (12 + n)) = 12 + n" using assms by (intro unat_of_size) simp
  then have "\<not> u32_of (12 + n) < 12" by (simp add: word_less_nat_alt)
  then have "BonusMessage_load (r_data (padded_row n)) (u32_of (12 + n)) = Loaded \<lparr>bn_user_id = 5, bn_points = 3, bn_seconds = 0\<rparr> 12"
    by (simp add: BonusMessage_load_def padded_row_def)
  then show ?thesis unfolding rebuild_def l
    by (simp add: functors_def type_id_defs padded_row_def bonus_row_def map_loaded_def)
qed

lemma padded_row_wf: "r_data (padded_row n) \<noteq> []" "length (r_signature (padded_row n)) = MESSAGE_SIGNATURE_SIZE"
  by (simp_all add: padded_row_def bonus_row_def le32_def Let_def)

lemma padded_row_length: "length (blob_of k (padded_row n)) = 28 + MESSAGE_SIGNATURE_SIZE + n"
  by (simp add: blob_of_def makeBlob_def padded_row_def bonus_row_def)

definition example_head :: message_head where
  "example_head = \<lparr>mh_server_id = 1, mh_message_id = 1, mh_time = 30, mh_signature = replicate MESSAGE_SIGNATURE_SIZE 0\<rparr>"

lemma example_listens:
  "\<exists>t'. peer_listener (blob_of (1, 1) (padded_row 0)) example_receiver =
     Inr (([(example_head, M_Bonus \<lparr>bn_user_id = 5, bn_points = 3, bn_seconds = 0\<rparr>)], [(1, 2, 1, 1)]), t')"
proof -
  note row = padded_row_wf [of 0]
  have build: "buildMessage (blob_of (1, 1) (padded_row 0)) = Built example_head (M_Bonus \<lparr>bn_user_id = 5, bn_points = 3, bn_seconds = 0\<rparr>)"
    using buildMessage_blob_of(2) [OF row, of "(1, 1)"] padded_row_rebuild [of 0] by (simp add: example_head_def)
  have c: "con example_receiver = Some (sv_db example_receiver)" "t_PeerMessage (sv_db example_receiver) = []"
    by (simp_all add: con_def example_receiver_def example_server_def db_empty_def)
  have "\<exists>d'. putRemoteMessage (my_id example_receiver) 1 1 row (sv_db example_receiver) = Some d'" for row
    using c(2) by (simp add: putRemoteMessage_def insert_row_def)
  moreover have "sendAck 1 1 (example_receiver\<lparr>sv_db := d'\<rparr>) = [(1, 2, 1, 1)]"
    if "putRemoteMessage (my_id example_receiver) 1 1 row (sv_db example_receiver) = Some d'" for row d'
    using c(1) after_putRemoteMessage(2,3) [OF that] by (auto simp: sendAck_def con_def example_ids example_remote split: if_splits)
  ultimately show ?thesis
    using c by (fastforce simp: peer_listener_def buildMessage_blob_of(1) [OF row] build db_default_def hasMessage_def Let_def split: option.split)
qed

section \<open>Properties\<close>

text \<open>
  Claim C5. Small messages are replicated as \<open>Replication\<close> has it, with the messenger that the sample configuration names. When a
  stored message whose blob fits a datagram is sent to a server that has an address, one datagram leaves; when it arrives, the
  queue of messages, the database and the faults are those of \<^const>\<open>peer_listener\<close> on the blob, and the acknowledgements that leave are
  those of \<^const>\<open>peer_listener\<close>, except that a message that is there already is acknowledged to its sender only. An
  acknowledgement that arrives has the effect of \<^const>\<open>putAck\<close>.
\<close>

theorem udtcp_implements_replication:
  assumes cipher: "good_cipher enc dec" and row: "r_data r \<noteq> []" "length (r_signature r) = MESSAGE_SIGNATURE_SIZE"
    and small: "length (blob_of k r) < MAX_UDP_MESSAGE_SIZE" and to: "address resolve s um n = Some a"
    and id: "my_id t \<noteq> 0" "my_id s \<in> set (getRemoteServers (my_id t) (sv_db t))" and e: "um_received um_t = []"
    and addr: "\<forall>i\<in>fst ` set (t_Server (sv_db t)). address resolve t um_t i \<noteq> None"
  shows "\<exists>p um'. udtcp_sendMessage enc resolve seed n k (blob_of k r) s um = (True, [(a, p)], um') \<and>
    (case peer_listener (blob_of k r) t of
       Inl fault \<Rightarrow> udtcp_deliver enc dec resolve junk p um_t t = Inl fault
     | Inr ((q, acks), t') \<Rightarrow> \<exists>sent um2. udtcp_deliver enc dec resolve junk p um_t t =
           Inr ((q, map (ack_datagram enc (address resolve t um_t) junk) sent, um2), t') \<and> um_received um2 = [] \<and>
         (if db_default False (hasMessage (fst k) (snd k)) t then sent = [(my_id s, my_id t, k)] \<and> set sent \<subseteq> set acks else sent = acks)) \<and>
    (\<forall>ack u um3. udtcp_receive enc dec resolve junk (snd (ack_datagram enc (address resolve t um_t) junk ack)) um3 u =
       (case ack of (to, me, srv, i) \<Rightarrow> Inr (([], um3), putAck srv i me u)))"
proof -
  note split = buildMessage_blob_of(1) [OF row, of k]
  have "0 < length (blob_of k r)" using split by (auto simp: splitBlob_def sizeof_st_blob_def split: if_splits)
  then obtain f um1 where f: "udtcp_sendMessage enc resolve seed n k (blob_of k r) s um = (True, [(a, enc (encode_udtcp f))], um1)"
    "uf_type f = TYPE_INLINE" "uf_sender_id f = my_id s" "uf_server_id f = fst k" "uf_message_id f = snd k"
    "unat (uf_message_size f) = length (blob_of k r)" "uf_data f = blob_of k r"
    using send_small [OF to _ small] by blast
  have "uf_sender_id f \<in> set (getRemoteServers (my_id t) (sv_db t))" using id(2) f(3) by simp
  note d = deliver_inline [OF cipher f(2,6,7) small split _ _ id(1) e this addr, of junk,
    unfolded message_head.select_convs prod.collapse f(3), OF f(4,5)]
  have ack: "udtcp_receive enc dec resolve junk (snd (ack_datagram enc (address resolve t um_t) junk ack)) um3 u =
       (case ack of (to, me, srv, i) \<Rightarrow> Inr (([], um3), putAck srv i me u))" for ack u um3
    using receive_ack [OF cipher] by (simp add: ack_datagram_def split: prod.split)
  show ?thesis using d f(1) ack by (intro exI [of _ "enc (encode_udtcp f)"] exI [of _ um1] conjI allI)
qed

theorem udtcp_implements_replication_witness:
  "\<exists>p um' um2 t'. udtcp_sendMessage (\<lambda>x. x) (\<lambda>ip port. None) 7 2 (1, 1) (blob_of (1, 1) (padded_row 0)) (example_sender (padded_row 0)) example_udtcp =
      (True, [(12, p)], um') \<and>
    udtcp_deliver (\<lambda>x. x) Some (\<lambda>ip port. None) 3 p example_udtcp example_receiver =
      Inr (([(example_head, M_Bonus \<lparr>bn_user_id = 5, bn_points = 3, bn_seconds = 0\<rparr>)], [(11, encode_udtcp (makeACK 3 2 1 1))], um2), t')"
proof -
  have new: "\<not> db_default False (hasMessage (fst (1, 1)) (snd (1, 1))) example_receiver"
    by (simp add: db_default_def hasMessage_def con_def example_receiver_def example_server_def db_empty_def)
  have small: "length (blob_of (1, 1) (padded_row 0)) < MAX_UDP_MESSAGE_SIZE"
    by (simp add: padded_row_length MESSAGE_SIGNATURE_SIZE_def udtcp_sizes)
  have ids: "my_id example_receiver \<noteq> 0" "my_id (example_sender (padded_row 0)) \<in> set (getRemoteServers (my_id example_receiver) (sv_db example_receiver))"
    "um_received example_udtcp = []" "\<forall>i\<in>fst ` set (t_Server (sv_db example_receiver)). address (\<lambda>ip port. None) example_receiver example_udtcp i \<noteq> None"
    by (simp_all add: example_ids example_remote example_address) (simp add: example_udtcp_def)
  show ?thesis
    using udtcp_implements_replication [OF plain_cipher padded_row_wf small example_address(2) ids, of 7 3] example_listens new
    by (auto simp: ack_datagram_def example_address)
qed



text \<open>
  Claim C29. An interrupted transfer never completes. A server that sends the whole blob at once is enough for a retriever that starts; but
  once some bytes have arrived and not all, the rest is read over the beginning of the buffer and
  its length taken for the position, so that however often servers answer with exactly what is asked for, the loop
  goes on.
\<close>

theorem interrupted_transfer_never_completes:
  assumes "list_all (answers blob) (turn # turns)" "0 < pos" "pos < length blob"
  shows "retriever_loop (turn # turns) (srv # sq) (length blob) 0 False False (replicate (length blob) 0) = Some (Inr (Some blob)) \<and>
    retriever_loop (turn # turns) (srv # sq) (length blob) pos tssl ssl buf = None"
proof -
  have "0 < length blob" using assms by linarith
  then have "retriever_loop (turn # turns) (srv # sq) (length blob) 0 False False (replicate (length blob) 0) = Some (Inr (Some blob))"
    using assms(1) by (simp only: list_all_iff list.set(2) ball_simps insert_iff retriever_turn) (cases turns; simp)
  then show ?thesis using retriever_stuck [OF assms] by blast
qed

theorem interrupted_transfer_never_completes_witness:
  "retriever_loop ((\<lambda>srv pos. Answered [CHR 0x0A, CHR 0x0A] (drop pos [4, 5, 6])) # replicate 999 (\<lambda>srv pos. Answered [CHR 0x0A, CHR 0x0A] (drop pos [4, 5, 6])))
     [1] 3 0 False False [0, 0, 0] = Some (Inr (Some [4, 5, 6])) \<and>
   retriever_loop ((\<lambda>srv pos. Answered [CHR 0x0A, CHR 0x0A] (drop pos [4, 5, 6])) # replicate 999 (\<lambda>srv pos. Answered [CHR 0x0A, CHR 0x0A] (drop pos [4, 5, 6])))
     [1] 3 2 True False [4, 5, 0] = None"
proof -
  let ?turn = "\<lambda>srv pos. Answered [CHR 0x0A, CHR 0x0A] (drop pos [4, 5, 6])"
  have "answers [4, 5, 6] ?turn" by (auto simp: answers_def intro: exI [of _ "[]"])
  then have "list_all (answers [4, 5, 6]) (?turn # replicate 999 ?turn)" by (simp add: list_all_iff)
  moreover have "length [4, 5, 6 :: 8 word] = 3" "replicate 3 0 = [0, 0, 0 :: 8 word]" by (simp_all add: numeral_3_eq_3)
  ultimately show ?thesis
    using interrupted_transfer_never_completes [of "[4, 5, 6]" ?turn "replicate 999 ?turn" 2 1 "[]" True False "[4, 5, 0]"]
    by (simp del: retriever_loop.simps list.size)
qed

end
