(* ===== verification/Spec2Isabelle.thy ===== *)
theory Spec2Isabelle
  imports Permissions Timer Markers Message_Registry Udp_Transfer Ids Standings_Correct Server_Safe Tables
    Resending Daemon Client_Marks Udtcp_Correct
begin

text \<open>
  A verification development for abacuscm, a manager for programming contests. Paths below are relative to the
  repository's \<^verbatim>\<open>src\<close> directory as it is staged beside this development.

  \<^bold>\<open>The program.\<close> A contest is run by a few servers (\<^verbatim>\<open>abacusd\<close>), each with a database of its own.
  Clients of contestants, judges, administrators and markers talk to one server over TLS with a text protocol.
  A request that changes the contest becomes a \<^emph>\<open>message\<close>: it is numbered, packed into a blob, stored, sent to
  every other server and processed by all, so that their databases come to agree. Submissions are handed to
  markers, marks become standings, and clients that subscribed are told about what changed.

  \<^bold>\<open>Theories, from the bottom up.\<close>
  \<^item> \<open>Prelude\<close>, \<open>Std_Map\<close>, \<open>Numerals\<close>, \<open>Wire\<close>, \<open>Conservation\<close>: machine words, \<^verbatim>\<open>std::map\<close> as a sorted list
    of pairs (locale \<open>finite_map\<close>), numbers as text (\<^verbatim>\<open>include/misc.h\<close>), bytes in memory with reads and
    writes outside a buffer as outcomes, and the contract of components that hand work around
    (locale \<open>conserving\<close>).
  \<^item> \<open>Permissions\<close>: permission tests and the table of roles (\<^verbatim>\<open>src/permissions.C\<close>, \<^verbatim>\<open>src/permissionmap.C\<close>).
    Tests decide their Boolean meaning and every role has exactly its permissions.
  \<^item> \<open>Timer\<close>: the contest clock (\<^verbatim>\<open>src/support_timer.C\<close>). Its time is the number of seconds in which the contest
    ran; the laws of a clock are the locale \<open>contest_clock\<close>. A restart keeps the schedule, but may swap events of the same time.
  \<^item> \<open>Message_Block\<close>: the text protocol (\<^verbatim>\<open>src/messageblock.C\<close>, the reading loop of \<^verbatim>\<open>src/clientconnection.C\<close>).
    Printing and parsing are inverse on streams of blocks, however the bytes are cut.
  \<^item> \<open>Message_Codec\<close>, \<open>Messages_Basic\<close>, \<open>Messages_Contest\<close>, \<open>Message_Registry\<close>: the ten message classes with
    their codecs (\<^verbatim>\<open>src/message.C\<close>, \<^verbatim>\<open>src/message_create*.C\<close>, \<^verbatim>\<open>src/act_*.C\<close>). The contract of a codec is the locale
    \<open>message_codec\<close>, that of a loader that stays inside its buffer \<open>safe_codec\<close>; each class interprets what it
    meets. Blobs round trip; two loaders can read outside their buffer and one class cannot be rebuilt.
  \<^item> \<open>Db\<close>, \<open>Db_Contest\<close>, \<open>Ids\<close>: the tables of \<^verbatim>\<open>db/structure.sql\<close>, the statements of \<^verbatim>\<open>src/dbmysql.C\<close> and
    \<^verbatim>\<open>src/support_user.C\<close>, and numbering (\<^verbatim>\<open>src/server.C\<close>, locale \<open>id_source\<close>). Numbers of the first fifteen servers never meet.
  \<^item> \<open>Markers\<close>: the dispatcher of submissions (\<^verbatim>\<open>src/markers.C\<close>). No submission is lost or held twice, and no marker
    idles while a submission waits.
  \<^item> \<open>Udp\<close>, \<open>Udp_Transfer\<close>: the datagram messenger (\<^verbatim>\<open>src/udpmessenger.C\<close>), fragments, frames and backoff.
  \<^item> \<open>Events\<close>, \<open>Events_Safe\<close>: connections and subscriptions (\<^verbatim>\<open>src/clienteventregistry.C\<close>). A broadcast reaches
    exactly its audience.
  \<^item> \<open>Standings\<close>, \<open>Standings_Correct\<close>: \<^verbatim>\<open>src/support_standings.C\<close> against a reference score that states the rules.
  \<^item> \<open>Server_State\<close>, \<open>Processing\<close>, \<open>Actions\<close>, \<open>Actions_Mark\<close>, \<open>Actions_Query\<close>, \<open>Dispatch\<close>: the state of a
    server put together from its components (record \<open>server\<close>), \<^verbatim>\<open>int_process\<close> of all messages, every
    handler of a request, and the table of actions (\<^verbatim>\<open>src/clientaction.C\<close>). A run ends in a new state or in
    a fault: a null pointer, a deleted connection, an uncaught exception, a read outside a buffer.
  \<^item> \<open>Server_Safe\<close>, \<open>Access\<close>: no request, message or timer makes the server use a deleted connection; what a
    role may not ask changes nothing.
  \<^item> \<open>Run_Frame\<close>, \<open>Tables\<close>: relations that every run respects (locales \<open>run_frame\<close> and \<open>full_frame\<close>, interpreted
    here and in \<open>Replication\<close>). The database stays well formed.
  \<^item> \<open>Replication\<close>, \<open>Replicas\<close>, \<open>Resending\<close>: several servers over a network that loses, delays, reorders and
    repeats (\<^verbatim>\<open>src/abacusd.C\<close>, \<^verbatim>\<open>src/udpmessenger.C\<close>). Every message a server made is stored by a peer or still
    owed to it; once nothing is lost, resending ends with nothing owed, unless a message that creates a group is
    in the way.
  \<^item> \<open>Udtcp\<close>, \<open>Udtcp_Correct\<close>: the messenger that the sample configuration names (\<^verbatim>\<open>src/udtcpmessenger.C\<close>). A message that
    fits a datagram has the effect of the delivery step of \<open>Replication\<close>, with fewer repeated acknowledgements. A larger one is announced and fetched: the
    server that is asked uses freed memory, and a transfer that was interrupted never completes.
  \<^item> \<open>Daemon\<close>: the pool of workers and the thread of timed actions (\<^verbatim>\<open>src/abacusd.C\<close>).
  \<^item> \<open>Client\<close>, \<open>Client_Server\<close>, \<open>Client_Marks\<close>: the client library (\<^verbatim>\<open>src/serverconnection.C\<close>) and its exchanges
    with the server's handlers, down to the bytes on the connection.

  \<^bold>\<open>Conventions.\<close> Definitions keep the names of the sources where they can. State is passed explicitly; an operation
  that the sources protect by a mutex is one step. Where threads interleave (replication, the pool, timed
  actions, the registry of connections, markers) steps come in any order. A 32-bit number is a word and wraps;
  times are integers. The hash of passwords, the cipher, the order in which fragments are shuffled, the network,
  the way a stream is cut into pieces and the contents of files are arguments; what a theorem assumes of them
  is among its hypotheses.

  \<^bold>\<open>Bounds.\<close> Nearly all loops are recursions with a proof that they end. There are two exceptions. A retriever (\<open>retriever_loop\<close>) runs on the list of
  what happens in its turns, and a result is absent while it still runs. The other is the loop of the
  client's receiving thread (\<open>receive_loop\<close>), which does not end on bytes that no block accepts. It has a bound of one
  turn more than there are bytes: enough for every well-formed stream, since each block takes at least one byte, and
  the theorem gives the result, not only what holds if there is one. Resending in the sources never stops; it is
  counted in exchanges, and the theorem says after how many of them nothing is owed.

  \<^bold>\<open>Not modelled.\<close> Calls into OpenSSL, MySQL, the resolver and the kernel (\<^verbatim>\<open>threadssl.C\<close>, \<^verbatim>\<open>socket.C\<close>,
  \<^verbatim>\<open>waitable.C\<close>, \<^verbatim>\<open>clientlistener.C\<close>, key files of the messengers), because what they do is not in the sources; column
  widths and collations of the database. File descriptors, sockets and start-up of both messengers are left out. The marking
  programs (\<^verbatim>\<open>markerd.C\<close>, \<^verbatim>\<open>*problemmarker.C\<close>, \<^verbatim>\<open>*userprog.C\<close>, \<^verbatim>\<open>runlimit.c\<close>) run compilers and contestants'
  programs under limits of the kernel. \<^verbatim>\<open>abacustool.C\<close> and \<^verbatim>\<open>batch.C\<close> are command lines over the client library.
  Start-up (\<^verbatim>\<open>main\<close> and \<^verbatim>\<open>initialise\<close> of \<^verbatim>\<open>abacusd.C\<close>), configuration files, logging and loading of modules,
  the keep-alive timer of the client and the web application are left out. Locks are not modelled as such, so that
  deadlock is outside, as are the races between a step and code that runs outside its mutex.
\<close>

end
